(* ===== verification/Zond_Prelude.thy ===== *)
theory Zond_Prelude
  imports Main "HOL-Library.Word"
begin

text \<open>
  Shared vocabulary of the development: the machine types of the Go code, the
  representation of a Go panic, and the generic facts on words, lists and
  big-endian byte strings that the component theories use.

  \<^item> \<open>byte\<close>, \<open>uint64\<close> and \<open>uint256\<close> are words of 8, 64 and 256 bits.
    \<open>common.Address\<close> and \<open>common.Hash\<close> are byte arrays of 20 and 32 bytes; they are
    kept as the words those arrays spell in big-endian order.
  \<^item> \<open>*big.Int\<close> is \<open>int\<close>. A Go \<open>int\<close> is \<open>int\<close> where it is only an index or a counter.
  \<^item> a Go slice is a list, and a nil slice is the empty list.
  \<^item> an operation that can panic returns \<open>'a go\<close>: \<open>Inl\<close> is the panic, which
    nothing in the modelled code recovers, and \<open>Inr\<close> is the result.
\<close>

unbundle bit_operations_syntax

type_synonym byte = "8 word"
type_synonym bytes = "byte list"
type_synonym uint64 = "64 word"
type_synonym uint256 = "256 word"
type_synonym address = "160 word"
type_synonym hash = "256 word"

named_theorems u64_simps \<open>reading unsigned 64-bit results as natural numbers\<close>
named_theorems go_simps \<open>unfolding of the primitive stack, memory and byte operations\<close>

section \<open>Panics\<close>

text \<open>The panics of the program. \<open>OutOfFuel\<close> is none of them: a loop that the model runs with a
  bound on its steps gives it when the bound is too small, and the theorems say which bound is
  enough.\<close>

datatype panic =
    IndexOutOfRange
  | NilDereference
  | PanicMsg string
  | OutOfFuel

type_synonym 'a go = "panic + 'a"

definition andThen :: "'a go \<Rightarrow> ('a \<Rightarrow> 'b go) \<Rightarrow> 'b go" where
  "andThen m f = (case m of Inl p \<Rightarrow> Inl p | Inr a \<Rightarrow> f a)"

lemma andThen_Inl [simp]: "andThen (Inl p) f = Inl p"
  by (simp add: andThen_def)

lemma andThen_Inr [simp]: "andThen (Inr a) f = f a"
  by (simp add: andThen_def)

lemma andThen_eq_Inr [simp]: "andThen m f = Inr b \<longleftrightarrow> (\<exists>a. m = Inr a \<and> f a = Inr b)"
  by (cases m) auto

lemma andThen_eq_Inl: "andThen m f = Inl p \<longleftrightarrow> m = Inl p \<or> (\<exists>a. m = Inr a \<and> f a = Inl p)"
  by (cases m) auto

lemma andThen_cong [fundef_cong]:
  "m = m' \<Longrightarrow> (\<And>a. m' = Inr a \<Longrightarrow> f a = g a) \<Longrightarrow> andThen m f = andThen m' g"
  by (cases m') auto

lemma andThen_assoc: "andThen (andThen m f) g = andThen m (\<lambda>a. andThen (f a) g)"
  by (cases m) auto

section \<open>Words\<close>

text \<open>The conversions of \<open>uint256.Int\<close> to and from Go's own integer types.\<close>

definition IsUint64 :: "uint256 \<Rightarrow> bool" where
  "IsUint64 x \<longleftrightarrow> unat x < 2 ^ 64"

definition Uint64 :: "uint256 \<Rightarrow> uint64" where
  "Uint64 x = ucast x"

definition MaxUint64 :: uint64 where
  "MaxUint64 = 0xFFFFFFFFFFFFFFFF"

lemma unat_Uint64 [u64_simps]: "IsUint64 x \<Longrightarrow> unat (Uint64 x) = unat x"
  by (simp add: IsUint64_def Uint64_def unsigned_ucast_eq take_bit_nat_eq_self)

lemma unat_u64_less: "unat (x :: uint64) < 18446744073709551616"
  using unsigned_less [of x, where ?'a = nat] by simp

lemma unat_u64_add [u64_simps]:
  "unat (x :: uint64) + unat y < 18446744073709551616 \<Longrightarrow> unat (x + y) = unat x + unat y"
  by (simp add: unat_word_ariths)

lemma unat_u64_mult [u64_simps]:
  "unat (x :: uint64) * unat y < 18446744073709551616 \<Longrightarrow> unat (x * y) = unat x * unat y"
  by (simp add: unat_word_ariths)

lemma unat_u64_sub [u64_simps]:
  "unat (y :: uint64) \<le> unat x \<Longrightarrow> unat (x - y) = unat x - unat y"
  by (simp add: unat_sub word_le_nat_alt)

lemma u64_eq_iff: "(x :: uint64) = y \<longleftrightarrow> unat x = unat y"
  by (simp add: word_unat_eq_iff)

lemma uint_less_of_unat: "unat x < n \<Longrightarrow> uint x < int n"
  by (metis of_nat_less_iff uint_nat)

lemma uint_u64_eq: "uint (x :: uint64) = int (unat x)"
  by (rule uint_nat)

lemmas u64_order = word_less_nat_alt word_le_nat_alt

lemma unat_MaxUint64 [u64_simps]: "unat MaxUint64 = 18446744073709551615"
  by (simp add: MaxUint64_def)

section \<open>Byte strings as big-endian numbers\<close>

fun be_nat :: "bytes \<Rightarrow> nat" where
  "be_nat [] = 0"
| "be_nat (b # bs) = unat b * 256 ^ length bs + be_nat bs"

text \<open>The \<open>n\<close> low bytes of a number, most significant byte first.\<close>

fun be_bytes :: "nat \<Rightarrow> nat \<Rightarrow> bytes" where
  "be_bytes 0 x = []"
| "be_bytes (Suc n) x = of_nat (x div 256 ^ n) # be_bytes n x"

lemma length_be_bytes [simp]: "length (be_bytes n x) = n"
  by (induction n) auto

lemma unat_byte_less: "unat (b :: byte) < 256"
  using unsigned_less [of b, where ?'a = nat] by simp

lemma unat_byte_of_nat [simp]: "unat (of_nat n :: byte) = n mod 256"
  by (simp add: unat_of_nat)

lemma be_nat_less: "be_nat bs < 256 ^ length bs"
proof (induction bs)
  case Nil
  then show ?case by simp
next
  case (Cons b bs)
  have "unat b * 256 ^ length bs \<le> 255 * 256 ^ length bs"
    using unat_byte_less [of b] by (intro mult_right_mono) linarith+
  with Cons show ?case unfolding be_nat.simps length_Cons power_Suc by linarith
qed

lemma be_nat_append: "be_nat (xs @ ys) = be_nat xs * 256 ^ length ys + be_nat ys"
  by (induction xs) (auto simp: algebra_simps power_add)

lemma be_nat_replicate_zero [simp]: "be_nat (replicate n 0) = 0"
  by (induction n) auto

lemma mod_pow_Suc_256: "(x :: nat) mod 256 ^ Suc n = (x div 256 ^ n mod 256) * 256 ^ n + x mod 256 ^ n"
  by (metis mod_mult2_eq mult.commute power_Suc2)

lemma be_nat_be_bytes: "be_nat (be_bytes n x) = x mod 256 ^ n"
  by (induction n) (simp_all add: mod_pow_Suc_256 del: power_Suc)

lemma be_bytes_be_nat: "be_bytes (length bs) (be_nat bs) = bs"
proof -
  have shift: "be_bytes (length bs) (k * 256 ^ length bs + be_nat bs) = bs" for k bs
  proof (induction bs arbitrary: k)
    case Nil
    then show ?case by simp
  next
    case (Cons b bs)
    let ?n = "length bs"
    have eq: "k * 256 ^ Suc ?n + (unat b * 256 ^ ?n + be_nat bs)
        = (k * 256 + unat b) * 256 ^ ?n + be_nat bs"
      by (simp add: algebra_simps)
    have "(k * 256 ^ Suc ?n + (unat b * 256 ^ ?n + be_nat bs)) div 256 ^ ?n = k * 256 + unat b"
      unfolding eq using be_nat_less [of bs] by simp
    then have hd: "(of_nat ((k * 256 ^ Suc ?n + (unat b * 256 ^ ?n + be_nat bs)) div 256 ^ ?n) :: byte) = b"
      using unat_byte_less [of b] by (simp add: word_unat_eq_iff del: of_nat_add of_nat_mult)
    have tl: "be_bytes ?n (k * 256 ^ Suc ?n + (unat b * 256 ^ ?n + be_nat bs)) = bs"
      unfolding eq by (rule Cons.IH)
    show ?case
      unfolding be_nat.simps length_Cons be_bytes.simps hd tl ..
  qed
  from shift [of bs 0] show ?thesis by simp
qed

fun bit_len :: "nat \<Rightarrow> nat" where
  "bit_len n = (if n = 0 then 0 else Suc (bit_len (n div 2)))"

declare bit_len.simps [simp del]

text \<open>\<open>big.Int.BitLen\<close>: the length of the absolute value in bits.\<close>

definition BitLen :: "int \<Rightarrow> int" where
  "BitLen x = int (bit_len (nat \<bar>x\<bar>))"

lemma bit_len_le: "bit_len n \<le> k \<longleftrightarrow> n < 2 ^ k"
proof (induction k arbitrary: n)
  case 0
  then show ?case
    by (subst bit_len.simps) simp
next
  case (Suc k)
  have "n div 2 < 2 ^ k \<longleftrightarrow> n < 2 ^ Suc k"
    by (simp add: less_mult_imp_div_less div_less_iff_less_mult mult.commute)
  then show ?case
    using Suc [of "n div 2"] by (subst bit_len.simps) simp
qed

text \<open>\<open>SetBytes\<close> of \<open>common.Hash\<close>, \<open>common.Address\<close> and \<open>uint256.Int\<close>: a longer slice
  is cropped from the left. \<open>Bytes\<close> is the array itself.\<close>

definition BytesToHash :: "bytes \<Rightarrow> hash" where
  "BytesToHash b = of_nat (be_nat b)"

definition HashBytes :: "hash \<Rightarrow> bytes" where
  "HashBytes h = be_bytes 32 (unat h)"

definition BytesToAddress :: "bytes \<Rightarrow> address" where
  "BytesToAddress b = of_nat (be_nat b)"

definition AddressBytes :: "address \<Rightarrow> bytes" where
  "AddressBytes a = be_bytes 20 (unat a)"

definition Bytes20 :: "uint256 \<Rightarrow> address" where
  "Bytes20 x = ucast x"

lemma BytesToHash_HashBytes [simp]: "BytesToHash (HashBytes h) = h"
proof -
  have "unat h < 256 ^ 32"
    using unsigned_less [of h, where ?'a = nat] by simp
  then show ?thesis
    by (simp add: BytesToHash_def HashBytes_def be_nat_be_bytes)
qed

lemma length_HashBytes [simp]: "length (HashBytes h) = 32"
  by (simp add: HashBytes_def)

lemma length_AddressBytes [simp]: "length (AddressBytes a) = 20"
  by (simp add: AddressBytes_def)

section \<open>Lists\<close>

text \<open>Go's \<open>copy(dst[off:], src)\<close> on a list: overwrite as much as fits.\<close>

definition copy_at :: "'a list \<Rightarrow> nat \<Rightarrow> 'a list \<Rightarrow> 'a list" where
  "copy_at dst off src =
     take off dst @ take (length dst - off) src @ drop (off + min (length dst - off) (length src)) dst"

lemma length_copy_at [simp]: "off \<le> length dst \<Longrightarrow> length (copy_at dst off src) = length dst"
  by (simp add: copy_at_def)

lemma nth_copy_at:
  assumes "off \<le> length dst" and "i < length dst"
  shows "copy_at dst off src ! i =
    (if off \<le> i \<and> i < off + length src then src ! (i - off) else dst ! i)"
  using assms by (auto simp: copy_at_def nth_append min_def)

text \<open>A sub-slice \<open>xs[lo:hi]\<close>, which panics unless \<open>0 \<le> lo \<le> hi \<le> len xs\<close>.\<close>

definition go_slice :: "'a list \<Rightarrow> int \<Rightarrow> int \<Rightarrow> 'a list go" where
  "go_slice xs lo hi =
     (if 0 \<le> lo \<and> lo \<le> hi \<and> hi \<le> int (length xs)
      then Inr (take (nat (hi - lo)) (drop (nat lo) xs)) else Inl IndexOutOfRange)"

definition go_index :: "'a list \<Rightarrow> int \<Rightarrow> 'a go" where
  "go_index xs i = (if 0 \<le> i \<and> i < int (length xs) then Inr (xs ! nat i) else Inl IndexOutOfRange)"

end
