(* ===== verification/ZVM_Common.thy ===== *)
theory ZVM_Common
  imports Zond_Prelude
begin

text \<open>
  The leaves of the virtual machine: protocol constants
  (\<open>params/protocol_params.go\<close>), error values (\<open>core/vm/errors.go\<close>), checked 64-bit
  arithmetic (\<open>common/math/integer.go\<close>), the size and padding helpers of
  \<open>core/vm/common.go\<close> and \<open>common/bytes.go\<close>, and the 63/64 rule of \<open>core/vm/gas.go\<close>.
  The lemmas give each helper's exact value on its whole domain.
\<close>

section \<open>Protocol constants\<close>

named_theorems params \<open>values of the protocol constants\<close>

definition CallValueTransferGas :: uint64 where [params]: "CallValueTransferGas = 9000"
definition CallNewAccountGas :: uint64 where [params]: "CallNewAccountGas = 25000"
definition TxGas :: uint64 where [params]: "TxGas = 21000"
definition TxGasContractCreation :: uint64 where [params]: "TxGasContractCreation = 53000"
definition TxDataZeroGas :: uint64 where [params]: "TxDataZeroGas = 4"
definition QuadCoeffDiv :: uint64 where [params]: "QuadCoeffDiv = 512"
definition LogDataGas :: uint64 where [params]: "LogDataGas = 8"
definition CallStipend :: uint64 where [params]: "CallStipend = 2300"
definition Keccak256Gas :: uint64 where [params]: "Keccak256Gas = 30"
definition Keccak256WordGas :: uint64 where [params]: "Keccak256WordGas = 6"
definition InitCodeWordGas :: uint64 where [params]: "InitCodeWordGas = 2"
definition SstoreSentryGasEIP2200 :: uint64 where [params]: "SstoreSentryGasEIP2200 = 2300"
definition SstoreSetGasEIP2200 :: uint64 where [params]: "SstoreSetGasEIP2200 = 20000"
definition SstoreResetGasEIP2200 :: uint64 where [params]: "SstoreResetGasEIP2200 = 5000"
definition ColdAccountAccessCostEIP2929 :: uint64 where
  [params]: "ColdAccountAccessCostEIP2929 = 2600"
definition ColdSloadCostEIP2929 :: uint64 where [params]: "ColdSloadCostEIP2929 = 2100"
definition WarmStorageReadCostEIP2929 :: uint64 where
  [params]: "WarmStorageReadCostEIP2929 = 100"
definition TxDataNonZeroGasEIP2028 :: uint64 where [params]: "TxDataNonZeroGasEIP2028 = 16"
definition TxAccessListAddressGas :: uint64 where [params]: "TxAccessListAddressGas = 2400"
definition TxAccessListStorageKeyGas :: uint64 where
  [params]: "TxAccessListStorageKeyGas = 1900"
definition SstoreClearsScheduleRefundEIP3529 :: uint64 where
  [params]: "SstoreClearsScheduleRefundEIP3529 =
     SstoreResetGasEIP2200 - ColdSloadCostEIP2929 + TxAccessListStorageKeyGas"
definition JumpdestGas :: uint64 where [params]: "JumpdestGas = 1"
definition CreateDataGas :: uint64 where [params]: "CreateDataGas = 200"
definition CallCreateDepth :: uint64 where [params]: "CallCreateDepth = 1024"
definition ExpGas :: uint64 where [params]: "ExpGas = 10"
definition LogGas :: uint64 where [params]: "LogGas = 375"
definition CopyGas :: uint64 where [params]: "CopyGas = 3"
definition StackLimit :: uint64 where [params]: "StackLimit = 1024"
definition LogTopicGas :: uint64 where [params]: "LogTopicGas = 375"
definition CreateGas :: uint64 where [params]: "CreateGas = 32000"
definition Create2Gas :: uint64 where [params]: "Create2Gas = 32000"
definition MemoryGas :: uint64 where [params]: "MemoryGas = 3"
definition ExpByteEIP158 :: uint64 where [params]: "ExpByteEIP158 = 50"
definition MaxCodeSize :: nat where [params]: "MaxCodeSize = 24576"
definition MaxInitCodeSize :: nat where [params]: "MaxInitCodeSize = 2 * MaxCodeSize"
definition RefundQuotientEIP3529 :: uint64 where [params]: "RefundQuotientEIP3529 = 5"

definition GasQuickStep :: uint64 where [params]: "GasQuickStep = 2"
definition GasFastestStep :: uint64 where [params]: "GasFastestStep = 3"
definition GasFastStep :: uint64 where [params]: "GasFastStep = 5"
definition GasMidStep :: uint64 where [params]: "GasMidStep = 8"
definition GasSlowStep :: uint64 where [params]: "GasSlowStep = 10"
definition GasExtStep :: uint64 where [params]: "GasExtStep = 20"

section \<open>Errors\<close>

text \<open>
  The error values of \<open>core/vm/errors.go\<close>, the reentrancy-sentry error of
  \<open>operations_acl.go\<close>, and the errors a precompiled contract returns
  (\<open>core/vm/contracts.go\<close>), which no caller tells apart.
\<close>

datatype vmerror =
    ErrOutOfGas
  | ErrCodeStoreOutOfGas
  | ErrDepth
  | ErrInsufficientBalance
  | ErrContractAddressCollision
  | ErrExecutionReverted
  | ErrMaxInitCodeSizeExceeded
  | ErrMaxCodeSizeExceeded
  | ErrInvalidJump
  | ErrWriteProtection
  | ErrReturnDataOutOfBounds
  | ErrGasUintOverflow
  | ErrInvalidCode
  | ErrNonceUintOverflow
  | errStopToken
  | ErrStackUnderflow int int
  | ErrStackOverflow int int
  | ErrInvalidOpCode byte
  | errReentrancySentry
  | ErrPrecompile string

section \<open>Checked 64-bit arithmetic\<close>

definition SafeSub :: "uint64 \<Rightarrow> uint64 \<Rightarrow> uint64 \<times> bool" where
  "SafeSub x y = (x - y, x < y)"

definition SafeAdd :: "uint64 \<Rightarrow> uint64 \<Rightarrow> uint64 \<times> bool" where
  "SafeAdd x y = (x + y, 2 ^ 64 \<le> unat x + unat y)"

definition SafeMul :: "uint64 \<Rightarrow> uint64 \<Rightarrow> uint64 \<times> bool" where
  "SafeMul x y = (x * y, 2 ^ 64 \<le> unat x * unat y)"

lemma SafeAdd_eq:
  "SafeAdd x y = (z, False) \<longleftrightarrow> unat z = unat x + unat y"
  using unat_u64_less [of z]
  by (auto simp: SafeAdd_def u64_eq_iff unat_word_ariths)

lemma SafeMul_eq:
  "SafeMul x y = (z, False) \<longleftrightarrow> unat z = unat x * unat y"
  using unat_u64_less [of z]
  by (auto simp: SafeMul_def u64_eq_iff unat_word_ariths)

lemma SafeSub_eq:
  "SafeSub x y = (z, False) \<longleftrightarrow> unat x = unat z + unat y"
  by (auto simp: SafeSub_def u64_eq_iff u64_order not_less unat_u64_sub)

section \<open>Sizes and padding\<close>

definition calcMemSize64WithUint :: "uint256 \<Rightarrow> uint64 \<Rightarrow> uint64 \<times> bool" where
  "calcMemSize64WithUint off length64 =
     (if length64 = 0 then (0, False)
      else if \<not> IsUint64 off then (0, True)
      else let offset64 = Uint64 off; val = offset64 + length64
           in (val, val < offset64))"

definition calcMemSize64 :: "uint256 \<Rightarrow> uint256 \<Rightarrow> uint64 \<times> bool" where
  "calcMemSize64 off l =
     (if \<not> IsUint64 l then (0, True) else calcMemSize64WithUint off (Uint64 l))"

definition RightPadBytes :: "bytes \<Rightarrow> int \<Rightarrow> bytes" where
  "RightPadBytes b l =
     (if l \<le> int (length b) then b
      else b @ replicate (nat l - length b) 0)"

definition LeftPadBytes :: "bytes \<Rightarrow> int \<Rightarrow> bytes" where
  "LeftPadBytes b l =
     (if l \<le> int (length b) then b
      else replicate (nat l - length b) 0 @ b)"

definition TrimLeftZeroes :: "bytes \<Rightarrow> bytes" where
  "TrimLeftZeroes s = dropWhile (\<lambda>b. b = 0) s"

definition getData :: "bytes \<Rightarrow> uint64 \<Rightarrow> uint64 \<Rightarrow> bytes go" where
  "getData data start sz =
     (let len = of_nat (length data);
          start = (if len < start then len else start);
          end = start + sz;
          end = (if len < end then len else end)
      in andThen (go_slice data (uint start) (uint end)) (\<lambda>part.
         Inr (RightPadBytes part (sint sz))))"

definition toWordSize :: "uint64 \<Rightarrow> uint64" where
  "toWordSize sz =
     (if MaxUint64 - 31 < sz then MaxUint64 div 32 + 1 else (sz + 31) div 32)"

lemma calcMemSize64WithUint_ok:
  "calcMemSize64WithUint off l = (n, False) \<longleftrightarrow>
     (if l = 0 then n = 0 else unat off + unat l < 2 ^ 64 \<and> unat n = unat off + unat l)"
proof (cases "l = 0 \<or> \<not> IsUint64 off")
  case True
  then show ?thesis
    using unat_u64_less [of l]
    by (auto simp: calcMemSize64WithUint_def IsUint64_def)
next
  case False
  then have off: "unat (Uint64 off) = unat off"
    by (simp add: unat_Uint64)
  show ?thesis
    using False off unat_u64_less [of l] unat_u64_less [of "Uint64 off"]
    by (auto simp: calcMemSize64WithUint_def Let_def u64_eq_iff u64_order unat_plus_if'
        split: if_splits)
qed

lemma calcMemSize64_ok:
  "calcMemSize64 off l = (n, False) \<longleftrightarrow>
     (if l = 0 then n = 0 else unat off + unat l < 2 ^ 64 \<and> unat n = unat off + unat l)"
proof (cases "IsUint64 l")
  case True
  then have "Uint64 l = 0 \<longleftrightarrow> l = 0"
    by (metis unat_Uint64 unat_0_iff)
  with True show ?thesis
    by (simp add: calcMemSize64_def calcMemSize64WithUint_ok unat_Uint64)
next
  case False
  then show ?thesis
    by (auto simp: calcMemSize64_def IsUint64_def)
qed

lemma unat_toWordSize: "unat (toWordSize s) = (unat s + 31) div 32"
proof (cases "unat s \<le> 18446744073709551584")
  case True
  then have "\<not> MaxUint64 - 31 < s"
    by (simp add: u64_order MaxUint64_def not_less)
  moreover have "unat (s + 31) = unat s + 31"
    using True by (simp add: unat_u64_add)
  ultimately show ?thesis
    by (simp add: toWordSize_def unat_div)
next
  case False
  then have "MaxUint64 - 31 < s"
    by (simp add: u64_order MaxUint64_def)
  moreover have "(unat s + 31) div 32 = 576460752303423488"
    using False unat_u64_less [of s] by linarith
  ultimately show ?thesis
    by (simp add: toWordSize_def MaxUint64_def)
qed

lemma length_RightPadBytes: "length (RightPadBytes s l) = max (length s) (nat l)"
  by (auto simp: RightPadBytes_def)

lemma length_LeftPadBytes: "length (LeftPadBytes s l) = max (length s) (nat l)"
  by (auto simp: LeftPadBytes_def)

lemma be_nat_LeftPadBytes [simp]: "be_nat (LeftPadBytes s l) = be_nat s"
  by (simp add: LeftPadBytes_def be_nat_append)

lemma be_nat_TrimLeftZeroes [simp]: "be_nat (TrimLeftZeroes s) = be_nat s"
  by (induction s) (auto simp: TrimLeftZeroes_def)

lemma sint_u64_small: "unat (x :: uint64) < 2 ^ 63 \<Longrightarrow> sint x = int (unat x)"
proof -
  assume "unat x < 2 ^ 63"
  then have "uint x < 2 ^ 63"
    using uint_less_of_unat [of x "2 ^ 63"] by simp
  moreover have "- (2 ^ 63) \<le> uint x"
    by (rule order_trans [OF _ unsigned_greater_eq]) simp
  ultimately show ?thesis
    unfolding sint_uint by (subst signed_take_bit_int_eq_self) simp_all
qed

lemma getData_ok:
  assumes len: "length data < 2 ^ 63" and sz: "unat sz < 2 ^ 63"
  shows "getData data start sz =
    Inr (RightPadBytes (take (unat sz) (drop (unat start) data)) (int (unat sz)))"
proof -
  let ?len = "of_nat (length data) :: uint64"
  let ?s = "if ?len < start then ?len else start"
  let ?e = "if ?len < ?s + sz then ?len else ?s + sz"
  have ulen: "unat ?len = length data"
    using len by (simp add: unat_of_nat)
  have us: "unat ?s = min (unat start) (length data)"
    using ulen by (auto simp: u64_order)
  have add: "unat (?s + sz) = unat ?s + unat sz"
    using us len sz by (intro unat_u64_add) simp
  have ue: "unat ?e = min (unat ?s + unat sz) (length data)"
    using ulen add by (auto simp: u64_order)
  have "go_slice data (uint ?s) (uint ?e) =
      Inr (take (unat ?e - unat ?s) (drop (unat ?s) data))"
    unfolding go_slice_def uint_nat using us ue by (simp add: nat_diff_distrib del: of_nat_unat)
  also have "take (unat ?e - unat ?s) (drop (unat ?s) data) = take (unat sz) (drop (unat start) data)"
    unfolding ue us by (cases "unat start \<le> length data") (auto simp: min_def)
  finally show ?thesis
    using sz by (simp add: getData_def Let_def sint_u64_small)
qed

section \<open>The 63/64 rule\<close>

definition callGas :: "uint64 \<Rightarrow> uint64 \<Rightarrow> uint256 \<Rightarrow> uint64" where
  "callGas availableGas base callCost =
     (let availableGas = availableGas - base;
          gas = availableGas - availableGas div 64
      in if \<not> IsUint64 callCost \<or> gas < Uint64 callCost then gas else Uint64 callCost)"

lemma callGas_exact:
  assumes "unat base \<le> unat avail"
  shows "unat (callGas avail base cost) =
    min (unat cost) ((unat avail - unat base) - (unat avail - unat base) div 64)"
proof -
  let ?a = "avail - base"
  have a: "unat ?a = unat avail - unat base"
    using assms by (rule unat_u64_sub)
  have g: "unat (?a - ?a div 64) = unat ?a - unat ?a div 64"
    by (subst unat_u64_sub) (simp_all add: unat_div)
  show ?thesis
  proof (cases "IsUint64 cost")
    case True
    then show ?thesis
      using a g by (auto simp: callGas_def Let_def u64_order unat_Uint64 min_def)
  next
    case False
    then have "unat (?a - ?a div 64) \<le> unat cost"
      using unat_u64_less [of "?a - ?a div 64"] by (simp add: IsUint64_def)
    with False show ?thesis
      using a g by (simp add: callGas_def Let_def min_def)
  qed
qed

end
