(* ===== verification/ZVM_Machine.thy ===== *)
theory ZVM_Machine
  imports ZVM_Common
begin

text \<open>
  The operand stack (\<open>core/vm/stack.go\<close>, \<open>stack_table.go\<close>), the byte-addressed memory
  (\<open>memory.go\<close>) and the price of growing it (\<open>memoryGasCost\<close> in \<open>gas_table.go\<close>).

  A stack is the Go slice reversed: the head of the list is the top of the stack.
  A write through the pointer that \<open>peek\<close> returns is \<open>setTop\<close>.
  Every slice bound the Go runtime checks is checked here, so the lemmas that an
  access returns \<open>Inr\<close> are memory safety facts.
\<close>

section \<open>Stack\<close>

type_synonym stack = "uint256 list"

definition push :: "uint256 \<Rightarrow> stack \<Rightarrow> stack" where
  "push d st = d # st"

definition pop :: "stack \<Rightarrow> (uint256 \<times> stack) go" where
  "pop st = (case st of [] \<Rightarrow> Inl IndexOutOfRange | x # xs \<Rightarrow> Inr (x, xs))"

definition swap :: "nat \<Rightarrow> stack \<Rightarrow> stack go" where
  "swap n st =
     (if 1 \<le> n \<and> n \<le> length st then Inr (st[n - 1 := st ! 0, 0 := st ! (n - 1)])
      else Inl IndexOutOfRange)"

definition dup :: "nat \<Rightarrow> stack \<Rightarrow> stack go" where
  "dup n st = (if 1 \<le> n \<and> n \<le> length st then Inr (push (st ! (n - 1)) st) else Inl IndexOutOfRange)"

definition Back :: "stack \<Rightarrow> nat \<Rightarrow> uint256 go" where
  "Back st n = (if n < length st then Inr (st ! n) else Inl IndexOutOfRange)"

definition peek :: "stack \<Rightarrow> uint256 go" where
  "peek st = Back st 0"

definition setTop :: "uint256 \<Rightarrow> stack \<Rightarrow> stack" where
  "setTop v st = st[0 := v]"

definition minStack :: "nat \<Rightarrow> nat \<Rightarrow> int" where
  "minStack pops psh = int pops"

definition maxStack :: "nat \<Rightarrow> nat \<Rightarrow> int" where
  "maxStack pops psh = int (unat StackLimit) + int pops - int psh"

definition minSwapStack :: "nat \<Rightarrow> int" where
  "minSwapStack n = minStack n n"

definition maxSwapStack :: "nat \<Rightarrow> int" where
  "maxSwapStack n = maxStack n n"

definition minDupStack :: "nat \<Rightarrow> int" where
  "minDupStack n = minStack n (n + 1)"

definition maxDupStack :: "nat \<Rightarrow> int" where
  "maxDupStack n = maxStack n (n + 1)"

lemmas stack_table_defs =
  minStack_def maxStack_def minSwapStack_def maxSwapStack_def minDupStack_def maxDupStack_def

lemma pop_Cons [simp]: "pop (x # xs) = Inr (x, xs)"
  by (simp add: pop_def)

lemma peek_Cons [simp]: "peek (x # xs) = Inr x"
  by (simp add: peek_def Back_def)

lemma setTop_Cons [simp]: "setTop v (x # xs) = v # xs"
  by (simp add: setTop_def)

lemma length_setTop [simp]: "length (setTop v st) = length st"
  by (simp add: setTop_def)

lemma length_push [simp]: "length (push d st) = Suc (length st)"
  by (simp add: push_def)

lemma pop_ok: "0 < length st \<Longrightarrow> pop st = Inr (hd st, tl st)"
  by (cases st) auto

lemma swap_ok:
  "0 < n \<Longrightarrow> n \<le> length st \<Longrightarrow> swap n st = Inr (st[n - 1 := st ! 0, 0 := st ! (n - 1)])"
  by (simp add: swap_def)

section \<open>Memory\<close>

record memory =
  store :: bytes
  lastGasCost :: uint64

definition NewMemory :: memory where
  "NewMemory = \<lparr>store = [], lastGasCost = 0\<rparr>"

definition Mem_Len :: "memory \<Rightarrow> uint64" where
  "Mem_Len m = of_nat (length (store m))"

definition Mem_Set :: "memory \<Rightarrow> uint64 \<Rightarrow> uint64 \<Rightarrow> bytes \<Rightarrow> memory go" where
  "Mem_Set m offset sz val =
     (if 0 < sz then
        if Mem_Len m < offset + sz then Inl (PanicMsg ''invalid memory: store empty'')
        else andThen (go_slice (store m) (uint offset) (uint (offset + sz))) (\<lambda>_.
             Inr (m\<lparr>store := copy_at (store m) (unat offset) (take (unat sz) val)\<rparr>))
      else Inr m)"

definition Mem_Set32 :: "memory \<Rightarrow> uint64 \<Rightarrow> uint256 \<Rightarrow> memory go" where
  "Mem_Set32 m offset val =
     (if Mem_Len m < offset + 32 then Inl (PanicMsg ''invalid memory: store empty'')
      else andThen (go_slice (store m) (uint offset) (int (length (store m)))) (\<lambda>_.
           Inr (m\<lparr>store := copy_at (store m) (unat offset) (HashBytes val)\<rparr>)))"

definition Mem_Set8 :: "memory \<Rightarrow> uint64 \<Rightarrow> byte \<Rightarrow> memory go" where
  "Mem_Set8 m offset val =
     andThen (go_index (store m) (uint offset)) (\<lambda>_.
     Inr (m\<lparr>store := (store m)[unat offset := val]\<rparr>))"

definition Mem_Resize :: "memory \<Rightarrow> uint64 \<Rightarrow> memory" where
  "Mem_Resize m sz =
     (if Mem_Len m < sz
      then m\<lparr>store := store m @ replicate (unat (sz - Mem_Len m)) 0\<rparr> else m)"

definition Mem_GetCopy :: "memory \<Rightarrow> int \<Rightarrow> int \<Rightarrow> bytes go" where
  "Mem_GetCopy m offset sz =
     (if sz = 0 then Inr []
      else if offset < int (length (store m)) then go_slice (store m) offset (offset + sz)
      else Inr [])"

definition Mem_GetPtr :: "memory \<Rightarrow> int \<Rightarrow> int \<Rightarrow> bytes go" where
  "Mem_GetPtr m offset sz =
     (if sz = 0 then Inr []
      else if offset < int (length (store m)) then go_slice (store m) offset (offset + sz)
      else Inr [])"

definition Mem_Copy :: "memory \<Rightarrow> uint64 \<Rightarrow> uint64 \<Rightarrow> uint64 \<Rightarrow> memory go" where
  "Mem_Copy m dst src len =
     (if len = 0 then Inr m
      else andThen (go_slice (store m) (uint dst) (int (length (store m)))) (\<lambda>_.
           andThen (go_slice (store m) (uint src) (uint (src + len))) (\<lambda>part.
           Inr (m\<lparr>store := copy_at (store m) (unat dst) part\<rparr>))))"

section \<open>The price of memory\<close>

definition memoryGasCost :: "memory \<Rightarrow> uint64 \<Rightarrow> vmerror + (uint64 \<times> memory)" where
  "memoryGasCost mem newMemSize =
     (if newMemSize = 0 then Inr (0, mem)
      else if 0x1FFFFFFFE0 < newMemSize then Inl ErrGasUintOverflow
      else let newMemSizeWords = toWordSize newMemSize;
               newMemSize = newMemSizeWords * 32
           in if Mem_Len mem < newMemSize
              then let square = newMemSizeWords * newMemSizeWords;
                       linCoef = newMemSizeWords * MemoryGas;
                       quadCoef = square div QuadCoeffDiv;
                       newTotalFee = linCoef + quadCoef;
                       fee = newTotalFee - lastGasCost mem
                   in Inr (fee, mem\<lparr>lastGasCost := newTotalFee\<rparr>)
              else Inr (0, mem))"

text \<open>The total price of \<open>w\<close> words, and the invariant that the memory of a frame keeps:
  its size is a whole number of words, within what the gas formula can price, and
  \<open>lastGasCost\<close> is the price of that size.\<close>

definition mem_fee :: "nat \<Rightarrow> nat" where
  "mem_fee w = 3 * w + w * w div 512"

definition mem_ok :: "memory \<Rightarrow> bool" where
  "mem_ok m \<longleftrightarrow>
     32 dvd length (store m) \<and> length (store m) \<le> 0x1FFFFFFFE0 \<and>
     unat (lastGasCost m) = mem_fee (length (store m) div 32)"

lemma mem_ok_NewMemory [simp]: "mem_ok NewMemory"
  by (simp add: mem_ok_def NewMemory_def mem_fee_def)

lemma unat_Mem_Len: "length (store m) < 2 ^ 64 \<Longrightarrow> unat (Mem_Len m) = length (store m)"
  by (simp add: Mem_Len_def unat_of_nat)

lemma mem_ok_Len: "mem_ok m \<Longrightarrow> unat (Mem_Len m) = length (store m)"
  by (simp add: mem_ok_def unat_Mem_Len)

lemma mem_fee_mono: "v \<le> w \<Longrightarrow> mem_fee v \<le> mem_fee w"
  unfolding mem_fee_def by (intro add_mono div_le_mono mult_le_mono) auto

lemma mem_fee_bound:
  assumes "w \<le> 4294967295"
  shows "mem_fee w \<le> 36028809887088637"
proof -
  have "mem_fee w \<le> mem_fee 4294967295"
    using assms by (rule mem_fee_mono)
  then show ?thesis
    by (simp add: mem_fee_def)
qed

text \<open>The words charged for a request of \<open>n\<close> bytes.\<close>

abbreviation words_of :: "uint64 \<Rightarrow> nat" where
  "words_of n \<equiv> (unat n + 31) div 32"

lemma unat_fee_words:
  assumes "unat w \<le> 4294967295"
  shows "unat (w * MemoryGas + w * w div QuadCoeffDiv) = mem_fee (unat w)"
    and "unat (w * 32) = unat w * 32"
proof -
  have le: "unat w * unat w \<le> 4294967295 * 4294967295"
    using assms by (intro mult_le_mono)
  have sq: "unat (w * w) = unat w * unat w"
    using le by (intro unat_u64_mult) linarith
  have lin: "unat (w * 3) = unat w * 3"
    using assms by (subst unat_u64_mult) simp_all
  have "unat w * unat w div 512 \<le> 4294967295 * 4294967295 div 512"
    using le by (rule div_le_mono)
  then show "unat (w * MemoryGas + w * w div QuadCoeffDiv) = mem_fee (unat w)"
    using assms
    by (subst unat_u64_add) (simp_all add: params sq lin unat_div mem_fee_def)
  show "unat (w * 32) = unat w * 32"
    using assms by (subst unat_u64_mult) simp_all
qed

lemma memoryGasCost_exact:
  assumes ok: "mem_ok m"
  shows "memoryGasCost m n =
    (if 0x1FFFFFFFE0 < unat n then Inl ErrGasUintOverflow
     else if length (store m) div 32 < words_of n
     then Inr (of_nat (mem_fee (words_of n) - mem_fee (length (store m) div 32)),
               m\<lparr>lastGasCost := of_nat (mem_fee (words_of n))\<rparr>)
     else Inr (0, m))"
proof (cases "n = 0 \<or> 0x1FFFFFFFE0 < unat n")
  case True
  then show ?thesis
    by (auto simp: memoryGasCost_def u64_order)
next
  case False
  let ?w = "toWordSize n"
  have le: "unat n \<le> 137438953440" and n0: "n \<noteq> 0"
    using False by auto
  have w: "unat ?w = words_of n"
    by (rule unat_toWordSize)
  have wb: "unat ?w \<le> 4294967295"
    using le w by simp
  have fee: "?w * MemoryGas + ?w * ?w div QuadCoeffDiv = of_nat (mem_fee (words_of n))"
    using unat_fee_words(1) [OF wb] w mem_fee_bound [OF wb]
    by (simp add: u64_eq_iff unat_of_nat)
  have grow: "Mem_Len m < ?w * 32 \<longleftrightarrow> length (store m) div 32 < words_of n"
    using ok unat_fee_words(2) [OF wb] w
    by (auto simp: u64_order mem_ok_Len mem_ok_def elim!: dvdE)
  have diff: "(of_nat (mem_fee (words_of n)) :: uint64) - lastGasCost m =
      of_nat (mem_fee (words_of n) - mem_fee (length (store m) div 32))"
    if "length (store m) div 32 < words_of n"
  proof -
    have "lastGasCost m = of_nat (unat (lastGasCost m))"
      by simp
    then have "lastGasCost m = of_nat (mem_fee (length (store m) div 32))"
      using ok by (simp add: mem_ok_def del: of_nat_unat)
    then show ?thesis
      using that mem_fee_mono [of "length (store m) div 32" "words_of n"] by (simp add: of_nat_diff)
  qed
  show ?thesis
    using False le fee grow diff
    by (auto simp: memoryGasCost_def Let_def u64_order)
qed

lemma length_Mem_Resize:
  "length (store m) < 2 ^ 64 \<Longrightarrow> length (store (Mem_Resize m sz)) = max (length (store m)) (unat sz)"
  by (auto simp: Mem_Resize_def u64_order unat_Mem_Len unat_u64_sub)

lemma lastGasCost_Mem_Resize [simp]: "lastGasCost (Mem_Resize m sz) = lastGasCost m"
  by (simp add: Mem_Resize_def)

lemma memoryGasCost_Resize_words:
  assumes ok: "mem_ok m" and b: "unat n \<le> 0x1FFFFFFFE0"
    and le: "length (store m) div 32 \<le> words_of n"
  shows "\<exists>f m'. memoryGasCost m n = Inr (f, m') \<and>
    mem_ok (Mem_Resize m' (toWordSize n * 32)) \<and>
    length (store (Mem_Resize m' (toWordSize n * 32))) = 32 * words_of n \<and>
    unat f = mem_fee (words_of n) - mem_fee (length (store m) div 32)"
proof -
  have wb: "words_of n \<le> 4294967295"
    using b by simp
  have tw: "unat (toWordSize n * 32) = words_of n * 32"
    using unat_fee_words(2) [of "toWordSize n"] wb by (simp add: unat_toWordSize)
  have fb: "mem_fee (words_of n) < 2 ^ 64"
    using mem_fee_bound [OF wb] by simp
  have len: "length (store m) = 32 * (length (store m) div 32)" "length (store m) < 2 ^ 64"
    using ok by (auto simp: mem_ok_def)
  show ?thesis
  proof (cases "length (store m) div 32 < words_of n")
    case True
    let ?m' = "m\<lparr>lastGasCost := of_nat (mem_fee (words_of n))\<rparr>"
    have "length (store (Mem_Resize ?m' (toWordSize n * 32))) = 32 * words_of n"
      using length_Mem_Resize [of ?m'] len le tw by simp
    moreover from this have "mem_ok (Mem_Resize ?m' (toWordSize n * 32))"
      using wb fb by (simp add: mem_ok_def unat_of_nat)
    moreover have "memoryGasCost m n =
      Inr (of_nat (mem_fee (words_of n) - mem_fee (length (store m) div 32)), ?m')"
      using memoryGasCost_exact [OF ok, of n] b True by simp
    ultimately show ?thesis
      using fb by (simp add: unat_of_nat)
  next
    case False
    then have eq: "length (store m) div 32 = words_of n"
      using le by simp
    then have "length (store m) = 32 * words_of n"
      using len by simp
    moreover from this have "Mem_Resize m (toWordSize n * 32) = m"
      using tw ok by (simp add: Mem_Resize_def u64_order mem_ok_Len)
    ultimately show ?thesis
      using memoryGasCost_exact [OF ok, of n] b ok eq by simp
  qed
qed

section \<open>Properties\<close>

text \<open>C24: Memory expansion is charged exactly, without 64-bit overflow, and independently of
  the path taken: growing to \<open>n1\<close> bytes and then to \<open>n2\<close> bytes costs in total what the
  words of the larger size cost beyond the words already paid for.\<close>

theorem memoryGasCost_path_independent:
  assumes ok: "mem_ok m" and b1: "unat n1 \<le> 0x1FFFFFFFE0" and b2: "unat n2 \<le> 0x1FFFFFFFE0"
    and le: "length (store m) \<le> unat n1" "unat n1 \<le> unat n2"
  shows "\<exists>f1 m1 f2 m2.
      memoryGasCost m n1 = Inr (f1, m1) \<and>
      memoryGasCost (Mem_Resize m1 (toWordSize n1 * 32)) n2 = Inr (f2, m2) \<and>
      mem_ok (Mem_Resize m2 (toWordSize n2 * 32)) \<and>
      unat f1 + unat f2 = mem_fee (words_of n2) - mem_fee (length (store m) div 32)"
proof -
  obtain f1 m1 where g1: "memoryGasCost m n1 = Inr (f1, m1)"
    "mem_ok (Mem_Resize m1 (toWordSize n1 * 32))"
    "length (store (Mem_Resize m1 (toWordSize n1 * 32))) = 32 * words_of n1"
    "unat f1 = mem_fee (words_of n1) - mem_fee (length (store m) div 32)"
    using memoryGasCost_Resize_words [OF ok b1] le(1) by (auto simp: div_le_mono)
  have "length (store (Mem_Resize m1 (toWordSize n1 * 32))) div 32 \<le> words_of n2"
    using g1(3) le(2) by (simp add: div_le_mono)
  then obtain f2 m2 where "memoryGasCost (Mem_Resize m1 (toWordSize n1 * 32)) n2 = Inr (f2, m2)"
    "mem_ok (Mem_Resize m2 (toWordSize n2 * 32))"
    "unat f2 = mem_fee (words_of n2) - mem_fee (words_of n1)"
    using memoryGasCost_Resize_words [OF g1(2) b2] g1(3) by auto
  moreover have "mem_fee (length (store m) div 32) \<le> mem_fee (words_of n1)"
    "mem_fee (words_of n1) \<le> mem_fee (words_of n2)"
    using le by (auto intro!: mem_fee_mono div_le_mono)
  ultimately show ?thesis
    using g1 by auto
qed

theorem memoryGasCost_path_independent_witness:
  "\<exists>f1 m1 f2 m2.
      memoryGasCost NewMemory 33 = Inr (f1, m1) \<and>
      memoryGasCost (Mem_Resize m1 (toWordSize 33 * 32)) 100 = Inr (f2, m2) \<and>
      mem_ok (Mem_Resize m2 (toWordSize 100 * 32)) \<and> unat f1 + unat f2 = 12"
  using memoryGasCost_path_independent [of NewMemory 33 100]
  by (simp add: NewMemory_def mem_ok_def mem_fee_def)

end
