(* ===== verification/ZVM_Contract.thy ===== *)
theory ZVM_Contract
  imports ZVM_Machine
begin

text \<open>
  The execution context of one call (\<open>core/vm/contract.go\<close>) and the jump-destination
  analysis (\<open>core/vm/analysis.go\<close>).

  The analysis fills a bit vector several bits at a time; \<open>opcode_starts\<close> is the
  reference: the positions reached from 0 by stepping over each instruction and its
  immediate data. The main lemma is that the bit vector computes exactly the
  reference and that no write of the analysis is out of bounds.

  The map \<open>jumpdests\<close> is shared by a contract and all contracts it calls, so it is
  passed to and returned from the operations instead of being a field.
\<close>

section \<open>Jump-destination analysis\<close>

type_synonym bitvec = bytes

definition set1 :: "bitvec \<Rightarrow> nat \<Rightarrow> bitvec go" where
  "set1 bits pos =
     andThen (go_index bits (int (pos div 8))) (\<lambda>b.
     Inr (bits[pos div 8 := b OR push_bit (pos mod 8) 1]))"

definition setN :: "bitvec \<Rightarrow> 16 word \<Rightarrow> nat \<Rightarrow> bitvec go" where
  "setN bits flag pos =
     (let a = push_bit (pos mod 8) flag in
      andThen (go_index bits (int (pos div 8))) (\<lambda>b.
      let bits = bits[pos div 8 := b OR ucast a];
          hi = ucast (drop_bit 8 a) :: byte
      in if hi \<noteq> 0
         then andThen (go_index bits (int (pos div 8 + 1))) (\<lambda>_.
              Inr (bits[pos div 8 + 1 := hi]))
         else Inr bits))"

definition set8 :: "bitvec \<Rightarrow> nat \<Rightarrow> bitvec go" where
  "set8 bits pos =
     (let a = push_bit (pos mod 8) 0xFF :: byte in
      andThen (go_index bits (int (pos div 8))) (\<lambda>b.
      andThen (go_index bits (int (pos div 8 + 1))) (\<lambda>_.
      Inr (bits[pos div 8 := b OR a, pos div 8 + 1 := NOT a]))))"

definition set16 :: "bitvec \<Rightarrow> nat \<Rightarrow> bitvec go" where
  "set16 bits pos =
     (let a = push_bit (pos mod 8) 0xFF :: byte in
      andThen (go_index bits (int (pos div 8))) (\<lambda>b.
      andThen (go_index bits (int (pos div 8 + 1))) (\<lambda>_.
      andThen (go_index bits (int (pos div 8 + 2))) (\<lambda>_.
      Inr (bits[pos div 8 := b OR a, pos div 8 + 1 := 0xFF, pos div 8 + 2 := NOT a])))))"

definition codeSegment :: "bitvec \<Rightarrow> nat \<Rightarrow> bool go" where
  "codeSegment bits pos =
     andThen (go_index bits (int (pos div 8))) (\<lambda>b.
     Inr (drop_bit (pos mod 8) b AND 1 = 0))"

text \<open>The three loops of \<open>codeBitmapInternal\<close> over \<open>numbits\<close>.\<close>

fun mark16 :: "bitvec \<Rightarrow> nat \<Rightarrow> nat \<Rightarrow> (bitvec \<times> nat \<times> nat) go" where
  "mark16 bits pc numbits =
     (if 16 \<le> numbits
      then andThen (set16 bits pc) (\<lambda>bits. mark16 bits (pc + 16) (numbits - 16))
      else Inr (bits, pc, numbits))"

fun mark8 :: "bitvec \<Rightarrow> nat \<Rightarrow> nat \<Rightarrow> (bitvec \<times> nat \<times> nat) go" where
  "mark8 bits pc numbits =
     (if 8 \<le> numbits
      then andThen (set8 bits pc) (\<lambda>bits. mark8 bits (pc + 8) (numbits - 8))
      else Inr (bits, pc, numbits))"

definition markRest :: "bitvec \<Rightarrow> nat \<Rightarrow> nat \<Rightarrow> (bitvec \<times> nat) go" where
  "markRest bits pc numbits =
     (if numbits = 1 then andThen (set1 bits pc) (\<lambda>b. Inr (b, pc + 1))
      else if numbits = 2 then andThen (setN bits 0b11 pc) (\<lambda>b. Inr (b, pc + 2))
      else if numbits = 3 then andThen (setN bits 0b111 pc) (\<lambda>b. Inr (b, pc + 3))
      else if numbits = 4 then andThen (setN bits 0b1111 pc) (\<lambda>b. Inr (b, pc + 4))
      else if numbits = 5 then andThen (setN bits 0b11111 pc) (\<lambda>b. Inr (b, pc + 5))
      else if numbits = 6 then andThen (setN bits 0b111111 pc) (\<lambda>b. Inr (b, pc + 6))
      else if numbits = 7 then andThen (setN bits 0b1111111 pc) (\<lambda>b. Inr (b, pc + 7))
      else Inr (bits, pc))"

definition markPush :: "bitvec \<Rightarrow> nat \<Rightarrow> nat \<Rightarrow> (bitvec \<times> nat) go" where
  "markPush bits pc numbits =
     andThen (if 8 \<le> numbits
              then andThen (mark16 bits pc numbits) (\<lambda>(bits, pc, numbits). mark8 bits pc numbits)
              else Inr (bits, pc, numbits)) (\<lambda>(bits, pc, numbits).
     markRest bits pc numbits)"

definition PUSH1 :: byte where "PUSH1 = 0x60"
definition JUMPDEST :: byte where "JUMPDEST = 0x5b"


declare mark16.simps [simp del] mark8.simps [simp del]

text \<open>Bit \<open>k\<close> of byte \<open>j\<close> stands for code position \<open>8 * j + k\<close>.
  \<open>marks\<close>: exactly \<open>n\<close> positions from \<open>pos\<close> on are added.\<close>

definition bits_clean :: "bitvec \<Rightarrow> nat \<Rightarrow> bool" where
  "bits_clean bits pos \<longleftrightarrow> (\<forall>j k. j < length bits \<longrightarrow> k < 8 \<longrightarrow> pos \<le> 8 * j + k \<longrightarrow> \<not> bit (bits ! j) k)"

definition marks :: "bitvec \<Rightarrow> bitvec \<Rightarrow> nat \<Rightarrow> nat \<Rightarrow> bool" where
  "marks bits bits' pos n \<longleftrightarrow> length bits' = length bits \<and>
     (\<forall>j k. j < length bits \<longrightarrow> k < 8 \<longrightarrow>
        bit (bits' ! j) k = (bit (bits ! j) k \<or> pos \<le> 8 * j + k \<and> 8 * j + k < pos + n))"

lemma bit_FF: "bit (0xFF :: byte) k \<longleftrightarrow> k < 8"
proof -
  have "(0xFF :: byte) = mask 8"
    by (simp add: mask_eq_exp_minus_1)
  then show ?thesis by (simp only: bit_mask_iff) simp
qed

lemma bit_push_FF:
  assumes "k < 8"
  shows "bit (push_bit r 0xFF :: byte) k \<longleftrightarrow> r \<le> k" "bit (NOT (push_bit r 0xFF :: byte)) k \<longleftrightarrow> k < r"
  using assms by (auto simp: bit_not_iff bit_push_bit_iff bit_FF simp del: bit_numeral_word_iff)

lemma pos_split: "pos = 8 * (pos div 8) + pos mod 8" "pos mod 8 < (8 :: nat)"
  by simp_all

lemma set8_marks:
  assumes "bits_clean bits pos" "pos div 8 + 1 < length bits"
  shows "\<exists>bits'. set8 bits pos = Inr bits' \<and> marks bits bits' pos 8"
proof -
  define q r where "q = pos div 8" and "r = pos mod 8"
  have p: "pos = 8 * q + r" "r < 8" by (simp_all add: q_def r_def)
  define a :: byte where "a = push_bit r 0xFF"
  have a: "bit a k \<longleftrightarrow> r \<le> k" "bit (NOT a) k \<longleftrightarrow> k < r" if "k < 8" for k
    unfolding a_def using that by (rule bit_push_FF)+
  let ?b = "bits[q := bits ! q OR a, q + 1 := NOT a]"
  have "set8 bits pos = Inr ?b"
    using assms(2) by (simp add: set8_def go_index_def q_def r_def a_def Let_def)
  moreover have "marks bits ?b pos 8"
    unfolding marks_def
  proof (intro conjI allI impI)
    fix j k assume jk: "j < length bits" "k < (8 :: nat)"
    consider "j = q" | "j = q + 1" | "j < q" | "q + 1 < j" by linarith
    then show "bit (?b ! j) k = (bit (bits ! j) k \<or> pos \<le> 8 * j + k \<and> 8 * j + k < pos + 8)"
    proof cases
      case 2
      have "\<not> bit (bits ! j) k"
        using assms(1) jk 2 p unfolding bits_clean_def by auto
      then show ?thesis
        using jk p 2 by (simp add: nth_list_update a)
    qed (use jk p in \<open>auto simp: nth_list_update bit_or_iff a bit_FF simp del: bit_numeral_word_iff\<close>)
  qed simp
  ultimately show ?thesis by blast
qed

lemma set16_marks:
  assumes "bits_clean bits pos" "pos div 8 + 2 < length bits"
  shows "\<exists>bits'. set16 bits pos = Inr bits' \<and> marks bits bits' pos 16"
proof -
  define q r where "q = pos div 8" and "r = pos mod 8"
  have p: "pos = 8 * q + r" "r < 8" by (simp_all add: q_def r_def)
  define a :: byte where "a = push_bit r 0xFF"
  have a: "bit a k \<longleftrightarrow> r \<le> k" "bit (NOT a) k \<longleftrightarrow> k < r" if "k < 8" for k
    unfolding a_def using that by (rule bit_push_FF)+
  let ?b = "bits[q := bits ! q OR a, q + 1 := 0xFF, q + 2 := NOT a]"
  have "set16 bits pos = Inr ?b"
    using assms(2) by (simp add: set16_def go_index_def q_def r_def a_def Let_def)
  moreover have "marks bits ?b pos 16"
    unfolding marks_def
  proof (intro conjI allI impI)
    fix j k assume jk: "j < length bits" "k < (8 :: nat)"
    consider "j = q" | "j = q + 1" | "j = q + 2" | "j < q" | "q + 2 < j" by linarith
    then show "bit (?b ! j) k = (bit (bits ! j) k \<or> pos \<le> 8 * j + k \<and> 8 * j + k < pos + 16)"
    proof cases
      case 3
      have "\<not> bit (bits ! j) k"
        using assms(1) jk 3 p unfolding bits_clean_def by auto
      then show ?thesis
        using jk p 3 by (simp add: nth_list_update a)
    qed (use jk p in \<open>auto simp: nth_list_update bit_or_iff a bit_FF simp del: bit_numeral_word_iff\<close>)
  qed simp
  ultimately show ?thesis by blast
qed

lemma set1_marks:
  assumes "pos div 8 < length bits"
  shows "\<exists>bits'. set1 bits pos = Inr bits' \<and> marks bits bits' pos 1"
proof -
  define q r where "q = pos div 8" and "r = pos mod 8"
  have p: "pos = 8 * q + r" "r < 8" by (simp_all add: q_def r_def)
  let ?b = "bits[q := bits ! q OR push_bit r 1]"
  have "set1 bits pos = Inr ?b"
    using assms by (simp add: set1_def go_index_def q_def r_def Let_def)
  moreover have "marks bits ?b pos 1"
    unfolding marks_def
  proof (intro conjI allI impI)
    fix j k assume jk: "j < length bits" "k < (8 :: nat)"
    consider "j = q" | "j < q" | "q < j" by linarith
    then show "bit (?b ! j) k = (bit (bits ! j) k \<or> pos \<le> 8 * j + k \<and> 8 * j + k < pos + 1)"
      using jk p by cases (auto simp: nth_list_update bit_or_iff bit_push_bit_iff bit_1_iff bit_exp_iff)
  qed simp
  ultimately show ?thesis by blast
qed

lemma setN_marks:
  assumes clean: "bits_clean bits pos" and len: "pos div 8 + 1 < length bits" and n: "0 < n" "n \<le> 8"
  shows "\<exists>bits'. setN bits (mask n) pos = Inr bits' \<and> marks bits bits' pos n"
proof -
  define q r where "q = pos div 8" and "r = pos mod 8"
  have p: "pos = 8 * q + r" "r < 8" by (simp_all add: q_def r_def)
  let ?a = "push_bit r (mask n) :: 16 word"
  let ?hi = "ucast (drop_bit 8 ?a) :: byte"
  let ?b1 = "bits[q := bits ! q OR ucast ?a]"
  let ?b = "if ?hi \<noteq> 0 then ?b1[q + 1 := ?hi] else ?b1"
  have "setN bits (mask n) pos = Inr ?b"
    using len by (simp add: setN_def go_index_def q_def r_def Let_def)
  moreover have hi: "bit ?hi k \<longleftrightarrow> k < 8 \<and> r \<le> k + 8 \<and> k + 8 < r + n" for k
    using p n by (auto simp: bit_unsigned_iff bit_drop_bit_eq bit_push_bit_iff bit_mask_iff)
  have lo: "bit (ucast ?a :: byte) k \<longleftrightarrow> k < 8 \<and> r \<le> k \<and> k < r + n" for k
    using p n by (auto simp: bit_unsigned_iff bit_push_bit_iff bit_mask_iff)
  have "marks bits ?b pos n"
    unfolding marks_def
  proof (intro conjI allI impI)
    fix j k assume jk: "j < length bits" "k < (8 :: nat)"
    have hi0: "?hi = 0 \<Longrightarrow> \<not> (k < 8 \<and> r \<le> k + 8 \<and> k + 8 < r + n)"
      using hi [of k] by (metis bit_0_eq bot_apply bot_bool_def)
    consider "j = q" | "j = q + 1" | "j < q" | "q + 1 < j" by linarith
    then show "bit (?b ! j) k = (bit (bits ! j) k \<or> pos \<le> 8 * j + k \<and> 8 * j + k < pos + n)"
    proof cases
      case 2
      have "\<not> bit (bits ! j) k"
        using clean jk 2 p unfolding bits_clean_def by auto
      then show ?thesis
        using jk p 2 n hi0 by (auto simp: nth_list_update hi)
    qed (use jk p n in \<open>auto simp: nth_list_update bit_or_iff lo\<close>)
  qed simp
  ultimately show ?thesis by blast
qed

lemma marks_trans:
  "marks b b1 p n \<Longrightarrow> marks b1 b2 (p + n) m \<Longrightarrow> marks b b2 p (n + m)"
  unfolding marks_def by (auto 0 3)

lemma marks_refl: "marks b b p 0"
  by (auto simp: marks_def)

lemma marks_length: "marks b b1 p n \<Longrightarrow> length b1 = length b"
  by (simp add: marks_def)

lemma marks_clean: "bits_clean b p \<Longrightarrow> marks b b1 p n \<Longrightarrow> bits_clean b1 (p + n)"
  unfolding marks_def bits_clean_def by (auto 0 3)

lemma mark16_marks:
  assumes "bits_clean bits pc" "(pc + n) div 8 < length bits"
  shows "\<exists>bits'. mark16 bits pc n = Inr (bits', pc + (n - n mod 16), n mod 16) \<and>
    marks bits bits' pc (n - n mod 16)"
  using assms
proof (induction bits pc n rule: mark16.induct)
  case (1 bits pc n)
  show ?case
  proof (cases "16 \<le> n")
    case False
    then show ?thesis by (subst mark16.simps) (simp add: marks_refl)
  next
    case True
    have "(pc + 16) div 8 \<le> (pc + n) div 8"
      using True by (intro div_le_mono) simp
    then have "pc div 8 + 2 < length bits"
      using "1.prems"(2) by simp
    then obtain b1 where b1: "set16 bits pc = Inr b1" "marks bits b1 pc 16"
      using set16_marks "1.prems"(1) by blast
    have "(pc + 16 + (n - 16)) div 8 < length b1"
      using "1.prems"(2) True marks_length [OF b1(2)] by simp
    then obtain b2 where b2: "mark16 b1 (pc + 16) (n - 16) =
          Inr (b2, pc + 16 + ((n - 16) - (n - 16) mod 16), (n - 16) mod 16)"
        "marks b1 b2 (pc + 16) ((n - 16) - (n - 16) mod 16)"
      using "1.IH" [OF True b1(1)] marks_clean [OF "1.prems"(1) b1(2)] by blast
    have m: "(n - 16) mod 16 = n mod 16"
      using True by (metis le_mod_geq)
    have k: "16 + ((n - 16) - n mod 16) = n - n mod 16"
      using True m by (metis Nat.add_diff_assoc le_add_diff_inverse mod_less_eq_dividend)
    have "mark16 bits pc n = Inr (b2, pc + (n - n mod 16), n mod 16)"
      using True b1(1) b2(1) m k by (subst mark16.simps) simp
    moreover have "marks bits b2 pc (n - n mod 16)"
      using marks_trans [OF b1(2) b2(2)] m k by simp
    ultimately show ?thesis by blast
  qed
qed

lemma mark8_marks:
  assumes "bits_clean bits pc" "(pc + n) div 8 < length bits"
  shows "\<exists>bits'. mark8 bits pc n = Inr (bits', pc + (n - n mod 8), n mod 8) \<and>
    marks bits bits' pc (n - n mod 8)"
  using assms
proof (induction bits pc n rule: mark8.induct)
  case (1 bits pc n)
  show ?case
  proof (cases "8 \<le> n")
    case False
    then show ?thesis by (subst mark8.simps) (simp add: marks_refl)
  next
    case True
    have "(pc + 8) div 8 \<le> (pc + n) div 8"
      using True by (intro div_le_mono) simp
    then have "pc div 8 + 1 < length bits"
      using "1.prems"(2) by simp
    then obtain b1 where b1: "set8 bits pc = Inr b1" "marks bits b1 pc 8"
      using set8_marks "1.prems"(1) by blast
    have "(pc + 8 + (n - 8)) div 8 < length b1"
      using "1.prems"(2) True marks_length [OF b1(2)] by simp
    then obtain b2 where b2: "mark8 b1 (pc + 8) (n - 8) =
          Inr (b2, pc + 8 + ((n - 8) - (n - 8) mod 8), (n - 8) mod 8)"
        "marks b1 b2 (pc + 8) ((n - 8) - (n - 8) mod 8)"
      using "1.IH" [OF True b1(1)] marks_clean [OF "1.prems"(1) b1(2)] by blast
    have m: "(n - 8) mod 8 = n mod 8"
      using True by (metis le_mod_geq)
    have k: "8 + ((n - 8) - n mod 8) = n - n mod 8"
      using True m by (metis Nat.add_diff_assoc le_add_diff_inverse mod_less_eq_dividend)
    have "mark8 bits pc n = Inr (b2, pc + (n - n mod 8), n mod 8)"
      using True b1(1) b2(1) m k by (subst mark8.simps) simp
    moreover have "marks bits b2 pc (n - n mod 8)"
      using marks_trans [OF b1(2) b2(2)] m k by simp
    ultimately show ?thesis by blast
  qed
qed

lemma mask_flags:
  "(0b11 :: 16 word) = mask 2" "(0b111 :: 16 word) = mask 3" "(0b1111 :: 16 word) = mask 4"
  "(0b11111 :: 16 word) = mask 5" "(0b111111 :: 16 word) = mask 6" "(0b1111111 :: 16 word) = mask 7"
  by (simp_all add: mask_eq_exp_minus_1)

lemma markRest_marks:
  assumes "bits_clean bits pc" "n < 8" "n \<noteq> 0 \<Longrightarrow> pc div 8 + 1 < length bits"
  shows "\<exists>bits'. markRest bits pc n = Inr (bits', pc + n) \<and> marks bits bits' pc n"
proof -
  consider "n = 0" | "n = 1" | "1 < n" by linarith
  then show ?thesis
  proof cases
    case 1
    then show ?thesis by (simp add: markRest_def marks_refl)
  next
    case 2
    with assms set1_marks [of pc bits] show ?thesis
      by (auto simp: markRest_def)
  next
    case 3
    then obtain b where b: "setN bits (mask n) pc = Inr b" "marks bits b pc n"
      using setN_marks [of bits pc n] assms by auto
    have "n = 2 \<or> n = 3 \<or> n = 4 \<or> n = 5 \<or> n = 6 \<or> n = 7"
      using 3 assms(2) by linarith
    then have "markRest bits pc n = andThen (setN bits (mask n) pc) (\<lambda>b. Inr (b, pc + n))"
      unfolding markRest_def mask_flags by (elim disjE) simp_all
    then show ?thesis
      using b by simp
  qed
qed

lemma markPush_marks:
  assumes "bits_clean bits pc" "pc \<le> len" "n \<le> 32" "length bits = len div 8 + 5"
  shows "\<exists>bits'. markPush bits pc n = Inr (bits', pc + n) \<and> marks bits bits' pc n"
proof (cases "8 \<le> n")
  case False
  then show ?thesis
    using markRest_marks [of bits pc n] assms by (simp add: markPush_def div_le_mono less_Suc_eq_le le_SucI)
next
  case True
  let ?r = "n mod 16" and ?m = "n mod 8"
  have r8: "?r mod 8 = ?m"
    by (rule mod_mod_cancel) simp
  then have mm: "?r mod 8 = ?m" "?m \<le> ?r" "?r \<le> n"
    by (metis mod_less_eq_dividend)+
  have bound: "(pc + k) div 8 < length bits" if "k \<le> 32" for k
  proof -
    have "(pc + k) div 8 \<le> (len + 32) div 8"
      using assms(2) that by (intro div_le_mono) simp
    then show ?thesis using assms(4) by simp
  qed
  obtain b1 where b1: "mark16 bits pc n = Inr (b1, pc + (n - ?r), ?r)" "marks bits b1 pc (n - ?r)"
    using mark16_marks [OF assms(1), of n] bound [OF assms(3)] by blast
  have "(pc + (n - ?r) + ?r) div 8 < length b1"
    using bound [OF assms(3)] mm marks_length [OF b1(2)] by simp
  then obtain b2 where b2: "mark8 b1 (pc + (n - ?r)) ?r = Inr (b2, pc + (n - ?r) + (?r - ?m), ?m)"
      "marks b1 b2 (pc + (n - ?r)) (?r - ?m)"
    using mark8_marks [OF marks_clean [OF assms(1) b1(2)], of ?r] mm by auto
  have eq: "pc + (n - ?r) + (?r - ?m) = pc + (n - ?m)" "(n - ?r) + (?r - ?m) = n - ?m"
    using mm by simp_all
  have m2: "marks bits b2 pc (n - ?m)"
    using marks_trans [OF b1(2) b2(2)] eq by simp
  have "(pc + (n - ?m)) div 8 + 1 < length b2" if "?m \<noteq> 0"
  proof -
    have "n div 8 < 4"
      using that assms(3) by (intro less_mult_imp_div_less) (cases "n = 32"; simp)
    then have "n - ?m \<le> 24"
      by (simp add: minus_mod_eq_div_mult)
    then have "(pc + (n - ?m)) div 8 \<le> (len + 24) div 8"
      using assms(2) by (intro div_le_mono) simp
    moreover have "(len + 24) div 8 = len div 8 + 3"
      by (simp add: div_add1_eq)
    ultimately show ?thesis using assms(4) marks_length [OF m2] by linarith
  qed
  then obtain b3 where b3: "markRest b2 (pc + (n - ?m)) ?m = Inr (b3, pc + (n - ?m) + ?m)"
      "marks b2 b3 (pc + (n - ?m)) ?m"
    using markRest_marks [OF marks_clean [OF assms(1) m2], of ?m] by auto
  have "markPush bits pc n = Inr (b3, pc + n)"
    using True b1(1) b2(1) b3(1) mm eq by (simp add: markPush_def)
  moreover have "marks bits b3 pc n"
    using marks_trans [OF m2 b3(2)] mm by simp
  ultimately show ?thesis by blast
qed

lemma mark16_pc: "mark16 bits pc n = Inr (b, pc', n') \<Longrightarrow> pc \<le> pc'"
proof (induction bits pc n rule: mark16.induct)
  case (1 bits pc n)
  from "1.prems" show ?case
    by (subst (asm) mark16.simps) (auto split: if_splits dest!: "1.IH")
qed

lemma mark8_pc: "mark8 bits pc n = Inr (b, pc', n') \<Longrightarrow> pc \<le> pc'"
proof (induction bits pc n rule: mark8.induct)
  case (1 bits pc n)
  from "1.prems" show ?case
    by (subst (asm) mark8.simps) (auto split: if_splits dest!: "1.IH")
qed

lemma markPush_pc: "markPush bits pc n = Inr (b, pc') \<Longrightarrow> pc \<le> pc'"
  by (auto simp: markPush_def markRest_def split: if_splits dest!: mark16_pc mark8_pc)

text \<open>The loop over the code. An opcode is a PUSH exactly when, as a signed byte, it is
  not below PUSH1.\<close>

function codeBitmapInternal :: "bytes \<Rightarrow> bitvec \<Rightarrow> nat \<Rightarrow> bitvec go" where
  "codeBitmapInternal code bits pc =
     (if pc < length code then
        let op = code ! pc in
        if sint op < sint PUSH1 then codeBitmapInternal code bits (pc + 1)
        else andThen (markPush bits (pc + 1) (unat (op - PUSH1 + 1))) (\<lambda>(bits, pc).
             codeBitmapInternal code bits pc)
      else Inr bits)"
  by pat_completeness auto
termination
  by (relation "measure (\<lambda>(code, bits, pc). length code - pc)") (auto dest: markPush_pc)

declare codeBitmapInternal.simps [simp del]

definition codeBitmap :: "bytes \<Rightarrow> bitvec go" where
  "codeBitmap code = codeBitmapInternal code (replicate (length code div 8 + 1 + 4) 0) 0"

text \<open>The reference: the positions of the instructions of \<open>code\<close> from \<open>pc\<close> on.\<close>

definition push_len :: "byte \<Rightarrow> nat" where
  "push_len op = (if 0x60 \<le> unat op \<and> unat op \<le> 0x7f then unat op - 0x5f else 0)"

function opcode_starts :: "bytes \<Rightarrow> nat \<Rightarrow> nat list" where
  "opcode_starts code pc =
     (if pc < length code then pc # opcode_starts code (pc + 1 + push_len (code ! pc)) else [])"
  by pat_completeness auto
termination
  by (relation "measure (\<lambda>(code, pc). length code - pc)") auto

declare opcode_starts.simps [simp del]

lemma sint_PUSH1: "sint (op :: byte) < sint PUSH1 \<longleftrightarrow> push_len op = 0"
proof (cases "unat op < 128")
  case True
  have "uint op < 2 ^ 7"
    using uint_less_of_unat [OF True] by simp
  moreover have "- (2 ^ 7) \<le> uint op"
    by (rule order_trans [OF _ unsigned_greater_eq]) simp
  ultimately have "sint op = uint op"
    unfolding sint_uint by (subst signed_take_bit_int_eq_self) simp_all
  also have "\<dots> = int (unat op)"
    by (rule uint_nat)
  finally show ?thesis
    using True by (auto simp: PUSH1_def push_len_def simp del: of_nat_unat)
next
  case False
  have u: "uint op = int (unat op)"
    by (rule uint_nat)
  have "2 ^ 7 \<le> uint op"
    unfolding u using False by (simp del: of_nat_unat)
  then have "sint op \<le> uint op - 2 ^ Suc 7"
    unfolding sint_uint using signed_take_bit_int_less_eq [of 7 "uint op"] by simp
  then have "sint op < 0"
    unfolding u using unat_byte_less [of op] by (simp del: of_nat_unat)
  then show ?thesis
    using False by (auto simp: PUSH1_def push_len_def)
qed

lemma unat_push_len: "push_len op \<noteq> 0 \<Longrightarrow> unat (op - PUSH1 + 1) = push_len op"
proof -
  assume "push_len op \<noteq> 0"
  then have op: "0x60 \<le> unat op" "unat op \<le> 0x7f"
    by (auto simp: push_len_def split: if_splits)
  have "unat (op - PUSH1) = unat op - 0x60"
    using op by (subst unat_sub) (simp_all add: word_le_nat_alt PUSH1_def)
  then show ?thesis
    using op by (simp add: unat_word_ariths push_len_def)
qed

lemma opcode_starts_ge: "i \<in> set (opcode_starts code pc) \<Longrightarrow> pc \<le> i"
proof (induction code pc rule: opcode_starts.induct)
  case (1 code pc)
  from "1.prems" show ?case
    by (subst (asm) opcode_starts.simps) (auto split: if_splits dest!: "1.IH")
qed

text \<open>The invariant of the loop: below \<open>pc\<close> the set bits are exactly the positions that
  are not instruction starts; from \<open>pc\<close> on no bit is set.\<close>

lemma codeBitmapInternal_correct:
  assumes "bits_clean bits pc" "length bits = length code div 8 + 5"
    and "\<forall>i < min pc (length code). \<not> bit (bits ! (i div 8)) (i mod 8) \<longleftrightarrow> i \<in> S"
    and "\<forall>i \<in> S. i < pc"
  shows "\<exists>bm. codeBitmapInternal code bits pc = Inr bm \<and> length bm = length code div 8 + 5 \<and>
    (\<forall>i < length code. \<not> bit (bm ! (i div 8)) (i mod 8) \<longleftrightarrow> i \<in> S \<union> set (opcode_starts code pc))"
  using assms
proof (induction code bits pc arbitrary: S rule: codeBitmapInternal.induct)
  case (1 code bits pc)
  show ?case
  proof (cases "pc < length code")
    case False
    then show ?thesis
      using "1.prems" by (simp add: codeBitmapInternal.simps opcode_starts.simps)
  next
    case True
    let ?op = "code ! pc" and ?n = "push_len (code ! pc)"
    have nle: "?n \<le> 32"
      by (auto simp: push_len_def)
    have clean1: "bits_clean bits (pc + 1)"
      using "1.prems"(1) by (auto simp: bits_clean_def)
    have free: "\<not> bit (bits ! (pc div 8)) (pc mod 8)"
      using "1.prems"(1,2) True by (auto simp: bits_clean_def)
    show ?thesis
    proof (cases "?n = 0")
      case n0: True
      have inv: "\<forall>i < min (pc + 1) (length code). \<not> bit (bits ! (i div 8)) (i mod 8) \<longleftrightarrow> i \<in> insert pc S"
        using "1.prems"(3) True free by (auto simp: less_Suc_eq)
      have "\<forall>i \<in> insert pc S. i < pc + 1"
        using "1.prems"(4) by auto
      from "1.IH"(1) [OF True refl _ clean1 "1.prems"(2) inv this] n0
      show ?thesis
        using True by (simp add: codeBitmapInternal.simps [of code bits pc] opcode_starts.simps [of code pc]
            sint_PUSH1)
    next
      case False
      obtain b where b: "markPush bits (pc + 1) ?n = Inr (b, pc + 1 + ?n)" "marks bits b (pc + 1) ?n"
        using markPush_marks [OF clean1 _ nle "1.prems"(2)] True by auto
      have un: "unat (?op - PUSH1 + 1) = ?n"
        using False by (rule unat_push_len)
      have bit_b: "bit (b ! (i div 8)) (i mod 8) \<longleftrightarrow>
          bit (bits ! (i div 8)) (i mod 8) \<or> pc + 1 \<le> i \<and> i < pc + 1 + ?n" if "i < length code" for i
      proof -
        have "i div 8 < length bits"
          using that "1.prems"(2) div_le_mono [of i "length code" 8] by simp
        then show ?thesis
          using b(2) unfolding marks_def by (metis mod_less_divisor mult_div_mod_eq zero_less_numeral)
      qed
      have inv: "\<forall>i < min (pc + 1 + ?n) (length code).
          \<not> bit (b ! (i div 8)) (i mod 8) \<longleftrightarrow> i \<in> insert pc S"
      proof (intro allI impI)
        fix i assume i: "i < min (pc + 1 + ?n) (length code)"
        consider "i < pc" | "i = pc" | "pc < i" by linarith
        then show "\<not> bit (b ! (i div 8)) (i mod 8) \<longleftrightarrow> i \<in> insert pc S"
          using i "1.prems"(3,4) True free bit_b by cases auto
      qed
      have "\<forall>i \<in> insert pc S. i < pc + 1 + ?n"
        using "1.prems"(4) by auto
      from "1.IH"(2) [OF True refl _ _ refl marks_clean [OF clean1 b(2)] _ inv this] False b un
        marks_length [OF b(2)] "1.prems"(2)
      show ?thesis
        using True by (simp add: codeBitmapInternal.simps [of code bits pc] opcode_starts.simps [of code pc]
            sint_PUSH1)
    qed
  qed
qed

lemma codeBitmap_correct:
  "\<exists>bm. codeBitmap code = Inr bm \<and> length bm = length code div 8 + 5 \<and>
    (\<forall>i < length code. \<not> bit (bm ! (i div 8)) (i mod 8) \<longleftrightarrow> i \<in> set (opcode_starts code 0))"
  using codeBitmapInternal_correct [of "replicate (length code div 8 + 1 + 4) 0" 0 code "{}"]
  by (auto simp: codeBitmap_def bits_clean_def)

lemma codeSegment_codeBitmap:
  assumes "codeBitmap code = Inr bm" "pos < length code"
  shows "codeSegment bm pos = Inr (pos \<in> set (opcode_starts code 0))"
proof -
  have len: "length bm = length code div 8 + 5"
    and iff: "\<not> bit (bm ! (pos div 8)) (pos mod 8) \<longleftrightarrow> pos \<in> set (opcode_starts code 0)"
    using codeBitmap_correct [of code] assms by auto
  have idx: "pos div 8 < length bm"
    using len assms(2) div_le_mono [of pos "length code" 8] by simp
  have "drop_bit (pos mod 8) b AND 1 = 0 \<longleftrightarrow> \<not> bit b (pos mod 8)" for b :: byte
    by (simp add: bit_iff_odd_drop_bit and_one_eq even_iff_mod_2_eq_zero)
  then show ?thesis
    using idx iff by (simp add: codeSegment_def go_index_def)
qed

section \<open>Contracts\<close>

text \<open>What a contract reads of the \<open>ContractRef\<close> that called it: its address and, when the
  caller is itself a contract, that contract's caller and value (for DELEGATECALL).\<close>

datatype contractRef =
    AccountRef address
  | ContractCaller address address int

fun ref_Address :: "contractRef \<Rightarrow> address" where
  "ref_Address (AccountRef a) = a"
| "ref_Address (ContractCaller a _ _) = a"

type_synonym jumpdests = "hash \<Rightarrow> bitvec option"

record contract =
  CallerAddress :: address
  caller :: contractRef
  self :: address
  analysis :: "bitvec option"
  Code :: bytes
  CodeHash :: hash
  CodeAddr :: "address option"
  Input :: bytes
  Gas :: uint64
  con_value :: int

definition NewContract :: "contractRef \<Rightarrow> address \<Rightarrow> int \<Rightarrow> uint64 \<Rightarrow> contract" where
  "NewContract clr object val gas =
     \<lparr>CallerAddress = ref_Address clr, caller = clr, self = object, analysis = None,
      Code = [], CodeHash = 0, CodeAddr = None, Input = [], Gas = gas, con_value = val\<rparr>"

text \<open>The \<open>jumpdests\<close> map of a new contract: the parent's, or a fresh one.\<close>

definition NewContract_jumpdests :: "contractRef \<Rightarrow> jumpdests \<Rightarrow> jumpdests" where
  "NewContract_jumpdests clr parent =
     (case clr of AccountRef _ \<Rightarrow> Map.empty | ContractCaller _ _ _ \<Rightarrow> parent)"

definition con_ref :: "contract \<Rightarrow> contractRef" where
  "con_ref c = ContractCaller (self c) (CallerAddress c) (con_value c)"

definition AsDelegate :: "contract \<Rightarrow> contract go" where
  "AsDelegate c =
     (case caller c of
        AccountRef _ \<Rightarrow> Inl NilDereference
      | ContractCaller _ parentCaller parentValue \<Rightarrow>
          Inr (c\<lparr>CallerAddress := parentCaller, con_value := parentValue\<rparr>))"

definition SetCallCode :: "contract \<Rightarrow> address \<Rightarrow> hash \<Rightarrow> bytes \<Rightarrow> contract" where
  "SetCallCode c addr h code = c\<lparr>Code := code, CodeHash := h, CodeAddr := Some addr\<rparr>"

definition GetOp :: "contract \<Rightarrow> uint64 \<Rightarrow> byte" where
  "GetOp c n = (if n < of_nat (length (Code c)) then Code c ! unat n else 0)"

definition UseGas :: "contract \<Rightarrow> uint64 \<Rightarrow> (contract \<times> bool)" where
  "UseGas c gas = (if Gas c < gas then (c, False) else (c\<lparr>Gas := Gas c - gas\<rparr>, True))"

definition isCode :: "contract \<Rightarrow> jumpdests \<Rightarrow> nat \<Rightarrow> (bool \<times> contract \<times> jumpdests) go" where
  "isCode c jd udest =
     (case analysis c of
        Some bm \<Rightarrow> andThen (codeSegment bm udest) (\<lambda>r. Inr (r, c, jd))
      | None \<Rightarrow>
          if CodeHash c \<noteq> 0 then
            andThen (case jd (CodeHash c) of
                       Some bm \<Rightarrow> Inr (bm, jd)
                     | None \<Rightarrow> andThen (codeBitmap (Code c)) (\<lambda>bm. Inr (bm, jd(CodeHash c \<mapsto> bm))))
              (\<lambda>(bm, jd). let c = c\<lparr>analysis := Some bm\<rparr> in
               andThen (codeSegment bm udest) (\<lambda>r. Inr (r, c, jd)))
          else
            andThen (codeBitmap (Code c)) (\<lambda>bm. let c = c\<lparr>analysis := Some bm\<rparr> in
            andThen (codeSegment bm udest) (\<lambda>r. Inr (r, c, jd))))"

definition validJumpdest :: "contract \<Rightarrow> jumpdests \<Rightarrow> uint256 \<Rightarrow> (bool \<times> contract \<times> jumpdests) go" where
  "validJumpdest c jd dest =
     (if \<not> IsUint64 dest \<or> of_nat (length (Code c)) \<le> Uint64 dest then Inr (False, c, jd)
      else if Code c ! unat (Uint64 dest) \<noteq> JUMPDEST then Inr (False, c, jd)
      else isCode c jd (unat (Uint64 dest)))"

text \<open>The caches of the analysis are consistent: a stored bit vector is the one the
  analysis would compute.\<close>

definition analysis_ok :: "contract \<Rightarrow> jumpdests \<Rightarrow> bool" where
  "analysis_ok c jd \<longleftrightarrow>
     (\<forall>bm. analysis c = Some bm \<longrightarrow> codeBitmap (Code c) = Inr bm) \<and>
     (\<forall>bm. CodeHash c \<noteq> 0 \<longrightarrow> jd (CodeHash c) = Some bm \<longrightarrow> codeBitmap (Code c) = Inr bm)"

lemma isCode_ok:
  assumes "analysis_ok c jd" "udest < length (Code c)"
  shows "\<exists>c' jd'. isCode c jd udest = Inr (udest \<in> set (opcode_starts (Code c) 0), c', jd') \<and>
    c'\<lparr>analysis := None\<rparr> = c\<lparr>analysis := None\<rparr> \<and> analysis_ok c' jd' \<and>
    (\<forall>h. h \<noteq> CodeHash c \<or> CodeHash c = 0 \<longrightarrow> jd' h = jd h)"
proof -
  obtain bm where bm: "codeBitmap (Code c) = Inr bm"
    using codeBitmap_correct by blast
  note seg = codeSegment_codeBitmap [OF bm assms(2)]
  have an: "analysis c = Some x \<Longrightarrow> x = bm" and jdh: "CodeHash c \<noteq> 0 \<Longrightarrow> jd (CodeHash c) = Some x \<Longrightarrow> x = bm" for x
    using assms(1) bm by (auto simp: analysis_ok_def)
  show ?thesis
    using bm seg an jdh
    by (cases "analysis c"; cases "jd (CodeHash c)"; cases "CodeHash c = 0")
      (auto simp: isCode_def analysis_ok_def Let_def)
qed

lemma validJumpdest_ok:
  assumes "analysis_ok c jd" "length (Code c) < 2 ^ 63"
  shows "\<exists>c' jd'. validJumpdest c jd dest =
      Inr (unat dest < length (Code c) \<and> Code c ! unat dest = JUMPDEST \<and>
           unat dest \<in> set (opcode_starts (Code c) 0), c', jd') \<and>
    c'\<lparr>analysis := None\<rparr> = c\<lparr>analysis := None\<rparr> \<and> analysis_ok c' jd' \<and>
    (\<forall>h. h \<noteq> CodeHash c \<or> CodeHash c = 0 \<longrightarrow> jd' h = jd h)"
proof (cases "unat dest < length (Code c)")
  case True
  then have u: "IsUint64 dest" and ud: "unat (Uint64 dest) = unat dest"
    using assms(2) by (auto simp: IsUint64_def unat_Uint64)
  have "\<not> of_nat (length (Code c)) \<le> Uint64 dest"
    using True ud assms(2) by (simp add: u64_order unat_of_nat not_le)
  then show ?thesis
    using True u ud isCode_ok [OF assms(1) True] assms(1)
    by (cases "Code c ! unat dest = JUMPDEST") (auto simp: validJumpdest_def)
next
  case False
  have "of_nat (length (Code c)) \<le> Uint64 dest" if "IsUint64 dest"
    using False that assms(2) by (simp add: u64_order unat_of_nat unat_Uint64)
  then show ?thesis
    using False assms(1) by (auto simp: validJumpdest_def)
qed

lemma UseGas_exact:
  "UseGas c g = (if unat (Gas c) < unat g then (c, False)
     else (c\<lparr>Gas := of_nat (unat (Gas c) - unat g)\<rparr>, True))"
  by (auto simp: UseGas_def u64_order of_nat_diff)

section \<open>Properties\<close>

text \<open>C22: The jump-destination analysis, which marks immediate data several bits at a time,
  never writes outside its bit vector, and afterwards a position of the code is
  classified as code exactly when decoding from the start of the code reaches it as
  the first byte of an instruction.\<close>

theorem codeBitmap_reference:
  "\<exists>bm. codeBitmap code = Inr bm \<and>
     (\<forall>pos < length code. codeSegment bm pos = Inr (pos \<in> set (opcode_starts code 0)))"
proof -
  obtain bm where "codeBitmap code = Inr bm"
    using codeBitmap_correct by blast
  then show ?thesis
    using codeSegment_codeBitmap by blast
qed

theorem codeBitmap_reference_witness:
  "\<exists>bm. codeBitmap [0x61, 0x5B, 0x5B, 0x5B] = Inr bm \<and> codeSegment bm 0 = Inr True \<and>
     codeSegment bm 2 = Inr False \<and> codeSegment bm 3 = Inr True"
proof -
  have "set (opcode_starts [0x61, 0x5B, 0x5B, 0x5B] 0) = {0, 3}"
    by (simp add: opcode_starts.simps push_len_def) (simp add: numeral_eq_Suc)
  then show ?thesis
    using codeBitmap_reference [of "[0x61, 0x5B, 0x5B, 0x5B]"] by auto
qed

text \<open>C23: With consistent caches, \<open>validJumpdest\<close> accepts a destination exactly when it is a
  JUMPDEST byte inside the code at an instruction boundary; it changes nothing of the
  contract but its cached analysis, keeps the caches consistent, and leaves the shared
  analyses of all other code hashes alone.\<close>

theorem validJumpdest_exact:
  assumes "analysis_ok c jd" and "length (Code c) < 2 ^ 63"
  shows "\<exists>c' jd'. validJumpdest c jd dest =
      Inr (unat dest < length (Code c) \<and> Code c ! unat dest = JUMPDEST \<and>
           unat dest \<in> set (opcode_starts (Code c) 0), c', jd') \<and>
    c'\<lparr>analysis := None\<rparr> = c\<lparr>analysis := None\<rparr> \<and> analysis_ok c' jd' \<and>
    (\<forall>h. h \<noteq> CodeHash c \<or> CodeHash c = 0 \<longrightarrow> jd' h = jd h)"
  using assms by (rule validJumpdest_ok)

theorem validJumpdest_exact_witness:
  "\<exists>c' jd'. validJumpdest
      ((NewContract (AccountRef 1) 2 0 100)\<lparr>Code := [0x60, 0x5B, 0x5B]\<rparr>) Map.empty 2 = Inr (True, c', jd')"
proof -
  let ?c = "(NewContract (AccountRef 1) 2 0 100)\<lparr>Code := [0x60, 0x5B, 0x5B]\<rparr>"
  have "analysis_ok ?c Map.empty" "length (Code ?c) < 2 ^ 63"
    by (simp_all add: analysis_ok_def NewContract_def)
  moreover have "set (opcode_starts [0x60, 0x5B, 0x5B] 0) = {0, 2}"
    by (simp add: opcode_starts.simps push_len_def) (simp add: numeral_eq_Suc)
  ultimately show ?thesis
    using validJumpdest_exact [of ?c Map.empty 2] by (auto simp: JUMPDEST_def)
qed

end
