(* ===== verification/Rlp_Codec.thy ===== *)
theory Rlp_Codec
  imports Zond_Prelude
begin

text \<open>
  The RLP codec: the sizes and integer encodings of \<open>rlp/encode.go\<close>, the two-pass
  encoder buffer of \<open>rlp/encbuffer.go\<close>, and the splitting functions of \<open>rlp/raw.go\<close>.

  \<open>enc\<close> is the reference encoding of a tree of strings and lists. The lemmas show that
  the encoder buffer, which keeps list headers apart from the string data and merges
  them at the end, produces exactly the reference encoding, that splitting inverts it,
  and that splitting accepts canonical encodings only.
\<close>

section \<open>Sizes and integers\<close>

text \<open>The byte that the conversion \<open>byte(i >> n)\<close> reads of an integer.\<close>

abbreviation byte_at :: "uint64 \<Rightarrow> nat \<Rightarrow> byte" where
  "byte_at i n \<equiv> ucast (drop_bit n i)"

function intsize_from :: "nat \<Rightarrow> uint64 \<Rightarrow> nat" where
  "intsize_from sz i = (let i = drop_bit 8 i in if i = 0 then sz else intsize_from (sz + 1) i)"
  by pat_completeness auto

lemma unat_drop_bit: "unat (drop_bit n (i :: uint64)) = unat i div 2 ^ n"
proof -
  have "take_bit 64 (unat i) = unat i"
    using unsigned_less [of i, where ?'a = nat] by (intro take_bit_nat_eq_self) simp
  then show ?thesis
    unfolding unsigned_drop_bit_eq by (simp add: drop_bit_eq_div)
qed

termination intsize_from
  by (relation "measure (\<lambda>(sz, i). unat i)")
    (auto simp: unat_drop_bit u64_eq_iff)

declare intsize_from.simps [simp del]

definition intsize :: "uint64 \<Rightarrow> nat" where
  "intsize i = intsize_from 1 i"

definition headsize :: "uint64 \<Rightarrow> nat" where
  "headsize sz = (if sz < 56 then 1 else 1 + intsize sz)"

text \<open>The bytes that \<open>putint\<close> stores; the Go function returns their number.\<close>

definition putint :: "uint64 \<Rightarrow> bytes" where
  "putint i =
     (if i < 2 ^ 8 then [ucast i]
      else if i < 2 ^ 16 then [byte_at i 8, ucast i]
      else if i < 2 ^ 24 then [byte_at i 16, byte_at i 8, ucast i]
      else if i < 2 ^ 32 then [byte_at i 24, byte_at i 16, byte_at i 8, ucast i]
      else if i < 2 ^ 40 then [byte_at i 32, byte_at i 24, byte_at i 16, byte_at i 8, ucast i]
      else if i < 2 ^ 48 then
        [byte_at i 40, byte_at i 32, byte_at i 24, byte_at i 16, byte_at i 8, ucast i]
      else if i < 2 ^ 56 then
        [byte_at i 48, byte_at i 40, byte_at i 32, byte_at i 24, byte_at i 16, byte_at i 8, ucast i]
      else
        [byte_at i 56, byte_at i 48, byte_at i 40, byte_at i 32, byte_at i 24, byte_at i 16,
         byte_at i 8, ucast i])"

definition AppendUint64 :: "bytes \<Rightarrow> uint64 \<Rightarrow> bytes" where
  "AppendUint64 b i =
     (if i = 0 then b @ [0x80]
      else if i < 128 then b @ [ucast i]
      else if i < 2 ^ 8 then b @ [0x81, ucast i]
      else if i < 2 ^ 16 then b @ [0x82, byte_at i 8, ucast i]
      else if i < 2 ^ 24 then b @ [0x83, byte_at i 16, byte_at i 8, ucast i]
      else if i < 2 ^ 32 then b @ [0x84, byte_at i 24, byte_at i 16, byte_at i 8, ucast i]
      else if i < 2 ^ 40 then
        b @ [0x85, byte_at i 32, byte_at i 24, byte_at i 16, byte_at i 8, ucast i]
      else if i < 2 ^ 48 then
        b @ [0x86, byte_at i 40, byte_at i 32, byte_at i 24, byte_at i 16, byte_at i 8, ucast i]
      else if i < 2 ^ 56 then
        b @ [0x87, byte_at i 48, byte_at i 40, byte_at i 32, byte_at i 24, byte_at i 16, byte_at i 8,
             ucast i]
      else
        b @ [0x88, byte_at i 56, byte_at i 48, byte_at i 40, byte_at i 32, byte_at i 24,
             byte_at i 16, byte_at i 8, ucast i])"

text \<open>The bytes of a string or list header of \<open>puthead\<close>.\<close>

definition puthead :: "byte \<Rightarrow> byte \<Rightarrow> uint64 \<Rightarrow> bytes" where
  "puthead smalltag largetag sz =
     (if sz < 56 then [smalltag + ucast sz]
      else let s = putint sz in (largetag + of_nat (length s)) # s)"

definition BytesSize :: "bytes \<Rightarrow> uint64" where
  "BytesSize b =
     (if length b = 0 then 1
      else if length b = 1 then (if b ! 0 \<le> 0x7F then 1 else 2)
      else of_nat (headsize (of_nat (length b)) + length b))"

definition ListSize :: "uint64 \<Rightarrow> uint64" where
  "ListSize contentSize = of_nat (headsize contentSize) + contentSize"

definition IntSize :: "uint64 \<Rightarrow> nat" where
  "IntSize x = (if x < 0x80 then 1 else 1 + intsize x)"

lemma ucast_byte_eq: "(ucast (i :: uint64) :: byte) = of_nat (unat i)"
  by (rule word_unat_eq_iff [THEN iffD2])
    (simp add: unsigned_ucast_eq take_bit_eq_mod del: of_nat_unat)

lemma byte_at_eq: "byte_at i n = of_nat (unat i div 2 ^ n)"
  unfolding ucast_byte_eq unat_drop_bit ..

lemma putint_be: "putint i = be_bytes (length (putint i)) (unat i)"
  unfolding putint_def byte_at_eq unfolding ucast_byte_eq
  by (simp add: eval_nat_numeral(3) del: of_nat_unat)

text \<open>\<open>n\<close> is the number of significant bytes of \<open>x\<close>, at least one.\<close>

definition sig_bytes :: "nat \<Rightarrow> nat \<Rightarrow> bool" where
  "sig_bytes n x \<longleftrightarrow> 0 < n \<and> x < 256 ^ n \<and> (n = 1 \<or> 256 ^ (n - 1) \<le> x)"

lemma sig_bytes_putint: "sig_bytes (length (putint i)) (unat i)"
  using unat_u64_less [of i]
  by (auto simp: sig_bytes_def putint_def u64_order not_less)

lemma length_putint: "0 < length (putint i)" "length (putint i) \<le> 8"
  by (simp_all add: putint_def)

lemma sig_bytes_step:
  assumes "sig_bytes (Suc (Suc n)) x"
  shows "sig_bytes (Suc n) (x div 256)"
proof -
  have "x div 256 < 256 ^ Suc n"
    using assms by (intro less_mult_imp_div_less) (simp add: sig_bytes_def mult.commute)
  moreover have "256 ^ n * 256 div 256 \<le> x div 256"
    using assms by (intro div_le_mono) (simp add: sig_bytes_def mult.commute)
  ultimately show ?thesis
    by (simp add: sig_bytes_def)
qed

lemma sig_bytes_unique:
  assumes "sig_bytes m x" "sig_bytes n x"
  shows "m = n"
proof -
  have "\<not> a < b" if "sig_bytes a x" "sig_bytes b x" for a b
  proof
    assume "a < b"
    then have "(256 :: nat) ^ a \<le> 256 ^ (b - 1)"
      by (intro power_increasing) auto
    moreover have "x < 256 ^ a" "256 ^ (b - 1) \<le> x"
      using that \<open>a < b\<close> by (auto simp: sig_bytes_def)
    ultimately show False
      by linarith
  qed
  from this [of m n] this [of n m] assms show ?thesis
    by (meson linorder_neqE_nat)
qed

lemma intsize_from_sig: "sig_bytes n (unat i) \<Longrightarrow> intsize_from sz i + 1 = sz + n"
proof (induction n arbitrary: sz i)
  case 0
  then show ?case by (simp add: sig_bytes_def)
next
  case (Suc n)
  let ?j = "drop_bit 8 i"
  have j: "unat ?j = unat i div 256"
    by (simp add: unat_drop_bit)
  show ?case
  proof (cases "n = 0")
    case True
    then have "?j = 0"
      using Suc.prems j by (simp add: sig_bytes_def u64_eq_iff)
    with True show ?thesis
      by (simp add: intsize_from.simps [of sz i] Let_def)
  next
    case False
    then have sj: "sig_bytes n (unat ?j)"
      using sig_bytes_step [of "n - 1" "unat i"] Suc.prems j by simp
    have "256 ^ 1 \<le> (256 :: nat) ^ n"
      using False by (intro power_increasing) auto
    then have "?j \<noteq> 0"
      using Suc.prems False j by (simp add: sig_bytes_def u64_eq_iff div_eq_0_iff)
    then show ?thesis
      using Suc.IH [OF sj, of "sz + 1"] by (simp add: intsize_from.simps [of sz i] Let_def)
  qed
qed

lemma intsize_eq: "intsize i = length (putint i)"
  using intsize_from_sig [OF sig_bytes_putint, of 1 i] by (simp add: intsize_def)

lemma length_puthead: "length (puthead s l n) = headsize n"
  by (simp add: puthead_def headsize_def Let_def intsize_eq)

section \<open>Splitting\<close>

datatype kind = Byte | String | List

datatype rlperror =
    ErrUnexpectedEOF
  | ErrExpectedString
  | ErrExpectedList
  | ErrCanonInt
  | ErrCanonSize
  | ErrElemTooLarge
  | ErrValueTooLarge
  | ErrMoreThanOneValue
  | ErrNegativeBigInt
  | errNotInList
  | errNotAtEOL
  | errUintOverflow
  | EOL
  | EOF
  | decodeError string

abbreviation shl :: "byte \<Rightarrow> nat \<Rightarrow> uint64" where
  "shl b n \<equiv> push_bit n (ucast b)"

definition readSize :: "bytes \<Rightarrow> byte \<Rightarrow> rlperror + uint64" where
  "readSize b slen =
     (if length b < unat slen then Inl ErrUnexpectedEOF
      else let s =
        (if slen = 1 then ucast (b ! 0)
         else if slen = 2 then shl (b ! 0) 8 OR ucast (b ! 1)
         else if slen = 3 then shl (b ! 0) 16 OR shl (b ! 1) 8 OR ucast (b ! 2)
         else if slen = 4 then shl (b ! 0) 24 OR shl (b ! 1) 16 OR shl (b ! 2) 8 OR ucast (b ! 3)
         else if slen = 5 then
           shl (b ! 0) 32 OR shl (b ! 1) 24 OR shl (b ! 2) 16 OR shl (b ! 3) 8 OR ucast (b ! 4)
         else if slen = 6 then
           shl (b ! 0) 40 OR shl (b ! 1) 32 OR shl (b ! 2) 24 OR shl (b ! 3) 16 OR shl (b ! 4) 8
             OR ucast (b ! 5)
         else if slen = 7 then
           shl (b ! 0) 48 OR shl (b ! 1) 40 OR shl (b ! 2) 32 OR shl (b ! 3) 24 OR shl (b ! 4) 16
             OR shl (b ! 5) 8 OR ucast (b ! 6)
         else if slen = 8 then
           shl (b ! 0) 56 OR shl (b ! 1) 48 OR shl (b ! 2) 40 OR shl (b ! 3) 32 OR shl (b ! 4) 24
             OR shl (b ! 5) 16 OR shl (b ! 6) 8 OR ucast (b ! 7)
         else 0)
      in if s < 56 \<or> b ! 0 = 0 then Inl ErrCanonSize else Inr s)"

definition readKind :: "bytes \<Rightarrow> rlperror + (kind \<times> uint64 \<times> uint64)" where
  "readKind buf =
     (case buf of
        [] \<Rightarrow> Inl ErrUnexpectedEOF
      | b # bs \<Rightarrow>
          (case (if b < 0x80 then Inr (Byte, 0, 1)
                 else if b < 0xB8 then
                   let contentsize = ucast (b - 0x80)
                   in if contentsize = 1 \<and> 1 < length buf \<and> buf ! 1 < 128 then Inl ErrCanonSize
                      else Inr (String, 1, contentsize)
                 else if b < 0xC0 then
                   (case readSize bs (b - 0xB7) of
                      Inl e \<Rightarrow> Inl e
                    | Inr contentsize \<Rightarrow> Inr (String, ucast (b - 0xB7) + 1, contentsize))
                 else if b < 0xF8 then Inr (List, 1, ucast (b - 0xC0))
                 else
                   (case readSize bs (b - 0xF7) of
                      Inl e \<Rightarrow> Inl e
                    | Inr contentsize \<Rightarrow> Inr (List, ucast (b - 0xF7) + 1, contentsize))) of
             Inl e \<Rightarrow> Inl e
           | Inr (k, tagsize, contentsize) \<Rightarrow>
               if of_nat (length buf) - tagsize < contentsize then Inl ErrValueTooLarge
               else Inr (k, tagsize, contentsize)))"

definition Split :: "bytes \<Rightarrow> (rlperror + (kind \<times> bytes \<times> bytes)) go" where
  "Split b =
     (case readKind b of
        Inl e \<Rightarrow> Inr (Inl e)
      | Inr (k, ts, cs) \<Rightarrow>
          andThen (go_slice b (uint ts) (uint (ts + cs))) (\<lambda>content.
          andThen (go_slice b (uint (ts + cs)) (int (length b))) (\<lambda>rest.
          Inr (Inr (k, content, rest)))))"

definition SplitString :: "bytes \<Rightarrow> (rlperror + (bytes \<times> bytes)) go" where
  "SplitString b =
     andThen (Split b) (\<lambda>r. Inr (case r of
        Inl e \<Rightarrow> Inl e
      | Inr (k, content, rest) \<Rightarrow> if k = List then Inl ErrExpectedString else Inr (content, rest)))"

definition SplitList :: "bytes \<Rightarrow> (rlperror + (bytes \<times> bytes)) go" where
  "SplitList b =
     andThen (Split b) (\<lambda>r. Inr (case r of
        Inl e \<Rightarrow> Inl e
      | Inr (k, content, rest) \<Rightarrow> if k \<noteq> List then Inl ErrExpectedList else Inr (content, rest)))"

definition SplitUint64 :: "bytes \<Rightarrow> (rlperror + (uint64 \<times> bytes)) go" where
  "SplitUint64 b =
     andThen (SplitString b) (\<lambda>r. Inr (case r of
        Inl e \<Rightarrow> Inl e
      | Inr (content, rest) \<Rightarrow>
          if length content = 0 then Inr (0, rest)
          else if length content = 1 then
            (if content ! 0 = 0 then Inl ErrCanonInt else Inr (ucast (content ! 0), rest))
          else if 8 < length content then Inl errUintOverflow
          else (case readSize content (of_nat (length content)) of
                  Inl _ \<Rightarrow> Inl ErrCanonInt
                | Inr x \<Rightarrow> Inr (x, rest))))"

text \<open>A big-endian byte string as a 64-bit word, one byte at a time.\<close>

lemma be_word_snoc:
  "(of_nat (be_nat (bs @ [b])) :: uint64) = push_bit 8 (of_nat (be_nat bs)) OR ucast b"
proof -
  have "\<not> bit (push_bit 8 w) n \<or> \<not> bit (ucast b :: uint64) n" for n and w :: uint64
    using bit_imp_le_length [of b n] by (auto simp: bit_push_bit_iff bit_ucast_iff)
  then have "push_bit 8 w + ucast b = push_bit 8 w OR (ucast b :: uint64)" for w
    by (rule disjunctive_add)
  from this [of "of_nat (be_nat bs)"] show ?thesis
    by (simp add: be_nat_append push_bit_eq_mult mult.commute)
qed

lemma be_word_single: "(of_nat (be_nat [b]) :: uint64) = ucast b"
  by simp

lemma be_word_pushes:
  "(of_nat (be_nat [b0, b1]) :: uint64) = shl b0 8 OR ucast b1"
  "(of_nat (be_nat [b0, b1, b2]) :: uint64) = shl b0 16 OR shl b1 8 OR ucast b2"
  "(of_nat (be_nat [b0, b1, b2, b3]) :: uint64) = shl b0 24 OR shl b1 16 OR shl b2 8 OR ucast b3"
  "(of_nat (be_nat [b0, b1, b2, b3, b4]) :: uint64) =
     shl b0 32 OR shl b1 24 OR shl b2 16 OR shl b3 8 OR ucast b4"
  "(of_nat (be_nat [b0, b1, b2, b3, b4, b5]) :: uint64) =
     shl b0 40 OR shl b1 32 OR shl b2 24 OR shl b3 16 OR shl b4 8 OR ucast b5"
  "(of_nat (be_nat [b0, b1, b2, b3, b4, b5, b6]) :: uint64) =
     shl b0 48 OR shl b1 40 OR shl b2 32 OR shl b3 24 OR shl b4 16 OR shl b5 8 OR ucast b6"
  "(of_nat (be_nat [b0, b1, b2, b3, b4, b5, b6, b7]) :: uint64) =
     shl b0 56 OR shl b1 48 OR shl b2 40 OR shl b3 32 OR shl b4 24 OR shl b5 16 OR shl b6 8
       OR ucast b7"
  using be_word_snoc [of "[b0]" b1] be_word_snoc [of "[b0, b1]" b2]
    be_word_snoc [of "[b0, b1, b2]" b3] be_word_snoc [of "[b0, b1, b2, b3]" b4]
    be_word_snoc [of "[b0, b1, b2, b3, b4]" b5] be_word_snoc [of "[b0, b1, b2, b3, b4, b5]" b6]
    be_word_snoc [of "[b0, b1, b2, b3, b4, b5, b6]" b7]
  by (simp_all only: be_word_single append.simps push_bit_or push_bit_push_bit or.assoc
      add_numeral_left arith_simps numeral_plus_numeral)

lemma length_ge_Cons: "Suc n \<le> length xs \<longleftrightarrow> (\<exists>y ys. xs = y # ys \<and> n \<le> length ys)"
  by (cases xs) auto

lemma numeral_Suc_le:
  "(8 :: nat) = Suc 7" "(7 :: nat) = Suc 6" "(6 :: nat) = Suc 5" "(5 :: nat) = Suc 4"
  "(4 :: nat) = Suc 3" "(3 :: nat) = Suc 2" "(2 :: nat) = Suc 1" "(1 :: nat) = Suc 0"
  by simp_all

lemma readSize_be:
  assumes "0 < n" "n \<le> 8" "n \<le> length b"
  shows "readSize b (of_nat n) =
    (if be_nat (take n b) < 56 \<or> b ! 0 = 0 then Inl ErrCanonSize
     else Inr (of_nat (be_nat (take n b))))"
proof -
  have len: "length (take n b) = n"
    using assms by simp
  have "be_nat (take n b) < 256 ^ n"
    using be_nat_less [of "take n b"] len by simp
  also have "(256 :: nat) ^ n \<le> 256 ^ 8"
    using assms by (intro power_increasing) auto
  finally have small: "(of_nat (be_nat (take n b)) :: uint64) < 56 \<longleftrightarrow> be_nat (take n b) < 56"
    by (simp add: u64_order unat_of_nat)
  consider "n = 1" | "n = 2" | "n = 3" | "n = 4" | "n = 5" | "n = 6" | "n = 7" | "n = 8"
    using assms by linarith
  then have "readSize b (of_nat n) =
    (if (of_nat (be_nat (take n b)) :: uint64) < 56 \<or> b ! 0 = 0 then Inl ErrCanonSize
     else Inr (of_nat (be_nat (take n b))))"
  proof cases
    case 1
    then obtain b0 bs where "b = b0 # bs"
      using assms(3) by (cases b) auto
    with 1 show ?thesis by (simp add: readSize_def)
  next
    case 2
    then obtain b0 b1 bs where "b = b0 # b1 # bs"
      using assms(3) by (auto simp: numeral_Suc_le length_ge_Cons)
    with 2 show ?thesis by (simp add: readSize_def be_word_pushes del: be_nat.simps)
  next
    case 3
    then obtain b0 b1 b2 bs where "b = b0 # b1 # b2 # bs"
      using assms(3) by (auto simp: numeral_Suc_le length_ge_Cons)
    with 3 show ?thesis by (simp add: readSize_def be_word_pushes del: be_nat.simps)
  next
    case 4
    then obtain b0 b1 b2 b3 bs where "b = b0 # b1 # b2 # b3 # bs"
      using assms(3) by (auto simp: numeral_Suc_le length_ge_Cons)
    with 4 show ?thesis by (simp add: readSize_def be_word_pushes del: be_nat.simps)
  next
    case 5
    then obtain b0 b1 b2 b3 b4 bs where "b = b0 # b1 # b2 # b3 # b4 # bs"
      using assms(3) by (auto simp: numeral_Suc_le length_ge_Cons)
    with 5 show ?thesis by (simp add: readSize_def be_word_pushes del: be_nat.simps)
  next
    case 6
    then obtain b0 b1 b2 b3 b4 b5 bs where "b = b0 # b1 # b2 # b3 # b4 # b5 # bs"
      using assms(3) by (auto simp: numeral_Suc_le length_ge_Cons)
    with 6 show ?thesis by (simp add: readSize_def be_word_pushes del: be_nat.simps)
  next
    case 7
    then obtain b0 b1 b2 b3 b4 b5 b6 bs where "b = b0 # b1 # b2 # b3 # b4 # b5 # b6 # bs"
      using assms(3) by (auto simp: numeral_Suc_le length_ge_Cons)
    with 7 show ?thesis by (simp add: readSize_def be_word_pushes del: be_nat.simps)
  next
    case 8
    then obtain b0 b1 b2 b3 b4 b5 b6 b7 bs where "b = b0 # b1 # b2 # b3 # b4 # b5 # b6 # b7 # bs"
      using assms(3) by (auto simp: numeral_Suc_le length_ge_Cons)
    with 8 show ?thesis by (simp add: readSize_def be_word_pushes del: be_nat.simps)
  qed
  then show ?thesis
    unfolding small .
qed

section \<open>The reference encoding\<close>

fun be_min :: "nat \<Rightarrow> bytes" where
  "be_min x = (if x < 256 then [of_nat x] else be_min (x div 256) @ [of_nat x])"

declare be_min.simps [simp del]

definition head :: "byte \<Rightarrow> byte \<Rightarrow> nat \<Rightarrow> bytes" where
  "head small large n =
     (if n < 56 then [small + of_nat n]
      else let s = be_min n in (large + of_nat (length s)) # s)"

datatype item = Str bytes | Lst "item list"

definition enc_str :: "bytes \<Rightarrow> bytes" where
  "enc_str b = (if length b = 1 \<and> b ! 0 \<le> 0x7F then b else head 0x80 0xB7 (length b) @ b)"

definition enc_list :: "bytes \<Rightarrow> bytes" where
  "enc_list c = head 0xC0 0xF7 (length c) @ c"

fun enc :: "item \<Rightarrow> bytes" where
  "enc (Str b) = enc_str b"
| "enc (Lst xs) = enc_list (concat (map enc xs))"

fun content_of :: "item \<Rightarrow> bytes" where
  "content_of (Str b) = b"
| "content_of (Lst xs) = concat (map enc xs)"

fun kind_of :: "item \<Rightarrow> kind" where
  "kind_of (Str b) = (if length b = 1 \<and> b ! 0 \<le> 0x7F then Byte else String)"
| "kind_of (Lst xs) = List"

lemma be_bytes_snoc: "be_bytes (Suc n) x = be_bytes n (x div 256) @ [of_nat x]"
  by (induction n) (simp_all add: div_mult2_eq [symmetric])

lemma be_min_sig: "sig_bytes n x \<Longrightarrow> be_min x = be_bytes n x"
proof (induction n arbitrary: x)
  case 0
  then show ?case by (simp add: sig_bytes_def)
next
  case (Suc n)
  show ?case
  proof (cases n)
    case 0
    with Suc.prems show ?thesis
      by (simp add: sig_bytes_def be_min.simps)
  next
    case (Suc m)
    have sx: "sig_bytes n (x div 256)"
      using sig_bytes_step [of m x] Suc.prems Suc by simp
    have "(256 :: nat) ^ 1 \<le> 256 ^ n"
      using Suc by (intro power_increasing) auto
    moreover have "256 ^ n \<le> x"
      using Suc.prems Suc by (simp add: sig_bytes_def)
    ultimately have "\<not> x < 256"
      by simp
    then show ?thesis
      using Suc.IH [OF sx] by (subst be_min.simps) (simp add: be_bytes_snoc del: be_bytes.simps)
  qed
qed

lemma putint_be_min: "putint i = be_min (unat i)"
  using be_min_sig [OF sig_bytes_putint [of i]] putint_be by metis

lemma puthead_head:
  assumes "n < 2 ^ 64"
  shows "puthead s l (of_nat n) = head s l n"
  using assms
  by (simp add: puthead_def head_def u64_order unat_of_nat putint_be_min ucast_byte_eq)

lemma sig_bytes_be_min:
  assumes "x < 2 ^ 64"
  shows "sig_bytes (length (be_min x)) x" "be_nat (be_min x) = x" "length (be_min x) \<le> 8"
    "56 \<le> x \<Longrightarrow> be_min x ! 0 \<noteq> 0"
proof -
  define i :: uint64 where "i = of_nat x"
  have i: "unat i = x"
    using assms by (simp add: i_def unat_of_nat)
  show sig: "sig_bytes (length (be_min x)) x" and "length (be_min x) \<le> 8"
    using sig_bytes_putint [of i] length_putint(2) [of i] by (simp_all add: putint_be_min i)
  have be: "be_min x = be_bytes (length (be_min x)) x"
    using be_min_sig [OF sig] .
  show nat: "be_nat (be_min x) = x"
    using sig by (subst be) (simp add: be_nat_be_bytes sig_bytes_def)
  show "be_min x ! 0 \<noteq> 0" if "56 \<le> x"
  proof
    assume z: "be_min x ! 0 = 0"
    from sig obtain b bs where bs: "be_min x = b # bs"
      by (cases "be_min x") (auto simp: sig_bytes_def)
    with z nat have "x = be_nat bs" by simp
    then have "x < 256 ^ length bs"
      using be_nat_less by blast
    moreover have "bs = [] \<or> 256 ^ length bs \<le> x"
      using sig bs by (simp add: sig_bytes_def)
    ultimately show False
      using \<open>56 \<le> x\<close> by auto
  qed
qed

lemma length_head:
  "n < 2 ^ 64 \<Longrightarrow> length (head s l n) \<le> 9" "0 < length (head s l n)"
  using sig_bytes_be_min(3) [of n] by (auto simp: head_def Let_def)

section \<open>Splitting inverts the encoding\<close>

lemma unat_tag:
  assumes "n \<le> 55" "t = 0x80 \<or> t = 0xB7 \<or> t = 0xC0 \<or> t = 0xF7" "t = 0xF7 \<Longrightarrow> n \<le> 8"
  shows "unat (t + of_nat n :: byte) = unat t + n" "unat ((t + of_nat n :: byte) - t) = n"
proof -
  have "unat t + n < 256"
    using assms by auto
  then show "unat (t + of_nat n :: byte) = unat t + n"
    using assms(1) by (simp add: unat_word_ariths)
  show "unat ((t + of_nat n :: byte) - t) = n"
    using assms(1) by simp
qed

lemma ucast_u64_byte: "(ucast (b :: byte) :: uint64) = of_nat (unat b)"
  by simp

lemma room_less:
  assumes "m \<le> Suc l" "l < 2 ^ 63" "n < 2 ^ 64"
  shows "(of_nat (Suc l) - of_nat m :: uint64) < of_nat n \<longleftrightarrow> Suc l - m < n"
proof -
  have "(of_nat (Suc l) - of_nat m :: uint64) = of_nat (Suc l - m)"
    using assms(1) by (simp only: of_nat_diff)
  then show ?thesis
    using assms(2,3) by (simp add: u64_order unat_of_nat del: of_nat_Suc)
qed

lemma room_less_1:
  "l < 2 ^ 63 \<Longrightarrow> n < 2 ^ 64 \<Longrightarrow> (of_nat (Suc l) - 1 :: uint64) < of_nat n \<longleftrightarrow> l < n"
  using room_less [of 1 l n] by simp

lemmas byte_less = word_less_nat_alt [where ?'a = 8]

text \<open>\<open>readKind\<close> by the range of the first byte.\<close>

lemma readKind_byte: "unat b < 128 \<Longrightarrow> length bs < 2 ^ 63 \<Longrightarrow> readKind (b # bs) = Inr (Byte, 0, 1)"
  using room_less [of 0 "length bs" 1] by (simp add: readKind_def byte_less)

lemma readKind_string:
  assumes b: "unat b = 128 + n" "n < 56" and len: "length bs < 2 ^ 63"
  shows "readKind (b # bs) =
    (if n = 1 \<and> bs \<noteq> [] \<and> unat (bs ! 0) < 128 then Inl ErrCanonSize
     else if length bs < n then Inl ErrValueTooLarge else Inr (String, 1, of_nat n))"
proof -
  have "unat (b - 0x80) = n"
    using b by (simp add: unat_sub_if')
  then have c: "(ucast (b - 0x80) :: uint64) = of_nat n"
    unfolding ucast_u64_byte by simp
  have c1: "(of_nat n :: uint64) = 1 \<longleftrightarrow> n = 1"
    using b by (simp add: u64_eq_iff unat_of_nat)
  show ?thesis
    using b len room_less_1 [of "length bs" n]
    by (auto simp: readKind_def Let_def c c1 byte_less simp del: of_nat_Suc)
qed

lemma readKind_list:
  assumes b: "unat b = 192 + n" "n < 56" and len: "length bs < 2 ^ 63"
  shows "readKind (b # bs) =
    (if length bs < n then Inl ErrValueTooLarge else Inr (List, 1, of_nat n))"
proof -
  have "unat (b - 0xC0) = n"
    using b by (simp add: unat_sub_if')
  then have c: "(ucast (b - 0xC0) :: uint64) = of_nat n"
    unfolding ucast_u64_byte by simp
  show ?thesis
    using b len room_less_1 [of "length bs" n]
    by (auto simp: readKind_def Let_def c byte_less simp del: of_nat_Suc)
qed

lemma readKind_long:
  assumes b: "unat b = unat (large :: byte) + m" "0 < m" "m \<le> 8"
    and t: "(large, k) = (0xB7, String) \<or> (large, k) = (0xF7, List)"
    and len: "length bs < 2 ^ 63"
  shows "readKind (b # bs) =
    (case readSize bs (of_nat m) of
       Inl e \<Rightarrow> Inl e
     | Inr c \<Rightarrow> if length bs - m < unat c then Inl ErrValueTooLarge
               else Inr (k, of_nat (m + 1), c))"
proof -
  have d: "b - large = of_nat m"
    using b t by (auto simp: word_unat_eq_iff unat_sub_if')
  then have c: "(ucast (b - large) :: uint64) + 1 = of_nat (m + 1)"
    using b(3) unfolding ucast_u64_byte by simp
  have r: "(of_nat (Suc (length bs)) - of_nat (m + 1) :: uint64) < c \<longleftrightarrow> length bs - m < unat c"
    if "readSize bs (of_nat m) = Inr c" for c
  proof -
    have "m \<le> length bs"
      using that b(3) by (simp add: readSize_def split: if_splits)
    then show ?thesis
      using room_less [of "m + 1" "length bs" "unat c"] len unat_u64_less [of c] by simp
  qed
  show ?thesis
    using t
  proof (elim disjE)
    assume "(large, k) = (0xB7, String)"
    then show ?thesis
      using b c d r by (auto simp: readKind_def byte_less simp del: of_nat_Suc of_nat_add split: sum.split)
  next
    assume "(large, k) = (0xF7, List)"
    then show ?thesis
      using b c d r by (auto simp: readKind_def byte_less simp del: of_nat_Suc of_nat_add split: sum.split)
  qed
qed

lemma byte_ranges:
  obtains "unat (b :: byte) < 128" | n where "n < 56" "unat b = 128 + n"
  | m where "0 < m" "m \<le> 8" "unat b = unat (0xB7 :: byte) + m"
  | n where "n < 56" "unat b = 192 + n"
  | m where "0 < m" "m \<le> 8" "unat b = unat (0xF7 :: byte) + m"
proof -
  have "unat b < 128 \<or> (\<exists>n. n < 56 \<and> unat b = 128 + n) \<or> (\<exists>m. 0 < m \<and> m \<le> 8 \<and> unat b = 183 + m) \<or>
    (\<exists>n. n < 56 \<and> unat b = 192 + n) \<or> (\<exists>m. 0 < m \<and> m \<le> 8 \<and> unat b = 247 + m)"
    using unat_byte_less [of b] by presburger
  then show thesis
    using that by auto
qed

lemma readSize_canon:
  assumes "readSize bs (of_nat m) = Inr c" "0 < m" "m \<le> 8"
  shows "m \<le> length bs" "take m bs = be_min (unat c)" "56 \<le> unat c"
proof -
  show ml: "m \<le> length bs"
    using assms by (simp add: readSize_def split: if_splits)
  have be: "56 \<le> be_nat (take m bs)" "bs ! 0 \<noteq> 0" "c = of_nat (be_nat (take m bs))"
    using assms ml readSize_be [of m bs] by (simp_all add: not_less split: if_splits)
  have lt: "be_nat (take m bs) < 256 ^ m"
    using be_nat_less [of "take m bs"] ml by simp
  also have "(256 :: nat) ^ m \<le> 256 ^ 8"
    using assms by (intro power_increasing) auto
  finally have c: "unat c = be_nat (take m bs)"
    by (simp add: be(3) unat_of_nat)
  obtain b bt where bt: "take m bs = b # bt" "length bt = m - 1" "b \<noteq> 0"
    using ml assms(2) be(2) by (cases bs; cases m) auto
  have "1 * 256 ^ (m - 1) \<le> unat b * 256 ^ (m - 1)"
    using bt(3) by (intro mult_right_mono) (simp_all add: Suc_le_eq unat_gt_0)
  then have "256 ^ (m - 1) \<le> be_nat (take m bs)"
    unfolding bt(1) be_nat.simps bt(2) by linarith
  then have "sig_bytes m (be_nat (take m bs))"
    using lt assms(2) by (simp add: sig_bytes_def)
  then have "be_min (be_nat (take m bs)) = be_bytes m (be_nat (take m bs))"
    by (rule be_min_sig)
  then show "take m bs = be_min (unat c)"
    using be_bytes_be_nat [of "take m bs"] ml c by simp
  show "56 \<le> unat c"
    using be c by simp
qed

definition enc_kind :: "kind \<Rightarrow> bytes \<Rightarrow> bytes" where
  "enc_kind k c = (if k = List then enc_list c else enc_str c)"

text \<open>Whatever \<open>readKind\<close> accepts starts with the canonical encoding of its content.\<close>

definition canon_split :: "bytes \<Rightarrow> bytes \<Rightarrow> bytes \<Rightarrow> bytes \<Rightarrow> kind \<Rightarrow> nat \<Rightarrow> nat \<Rightarrow> bool" where
  "canon_split buf h c rest k ts cs \<longleftrightarrow>
     buf = h @ c @ rest \<and> enc_kind k c = h @ c \<and> length h = ts \<and> length c = cs \<and>
     (k = Byte \<longleftrightarrow> length c = 1 \<and> unat (c ! 0) < 128 \<and> k \<noteq> List)"

lemma readKind_canon:
  assumes r: "readKind buf = Inr (k, ts, cs)" and len: "length buf < 2 ^ 63"
  shows "\<exists>h c rest. canon_split buf h c rest k (unat ts) (unat cs)"
proof -
  obtain b bs where buf: "buf = b # bs" and lbs: "length bs < 2 ^ 63"
    using r len by (cases buf) (auto simp: readKind_def)
  have long: ?thesis
    if m: "0 < m" "m \<le> 8" "unat b = unat large + m"
      and t: "(small, large, k') = (0x80, 0xB7, String) \<or> (small, large, k') = (0xC0, 0xF7, List)"
    for m k' and small large :: byte
  proof -
    have t': "(large, k') = (0xB7, String) \<or> (large, k') = (0xF7, List)"
      using t by auto
    have rs: "readSize bs (of_nat m) = Inr cs" "unat cs \<le> length bs - m" "ts = of_nat (m + 1)" "k = k'"
      using r readKind_long [OF m(3,1,2) t' lbs] by (auto simp: buf split: sum.splits if_splits)
    note sc = readSize_canon [OF rs(1) m(1,2)]
    have "b = large + of_nat m"
      using m t by (auto simp: word_unat_eq_iff unat_word_ariths)
    then have eq: "b # take m bs = head small large (unat cs)"
      using sc by (simp add: head_def Let_def flip: sc(2))
    moreover have "length (head small large (unat cs)) = Suc m"
      using sc(1) by (simp flip: eq)
    moreover have "buf = (b # take m bs) @ take (unat cs) (drop m bs) @ drop (unat cs) (drop m bs)"
      by (simp add: buf append_take_drop_id del: drop_drop)
    moreover have "unat ts = m + 1"
      using m unfolding rs(3) unat_of_nat by simp
    ultimately have "canon_split buf (b # take m bs) (take (unat cs) (drop m bs))
        (drop (unat cs) (drop m bs)) k (unat ts) (unat cs)"
      using rs(2,4) sc(1,3) t by (auto simp: canon_split_def enc_kind_def enc_str_def enc_list_def)
    then show ?thesis
      by blast
  qed
  show ?thesis
  proof (rule byte_ranges [of b])
    assume "unat b < 128"
    then have "canon_split buf [] [b] bs k (unat ts) (unat cs)"
      using r lbs readKind_byte [of b bs]
      by (auto simp: buf canon_split_def enc_kind_def enc_str_def word_le_nat_alt)
    then show ?thesis
      by blast
  next
    fix n assume n: "n < 56" "unat b = 128 + n"
    then have "b = 0x80 + of_nat n"
      by (simp add: word_unat_eq_iff unat_word_ariths)
    then have "canon_split buf [b] (take n bs) (drop n bs) k (unat ts) (unat cs)"
      using r n readKind_string [OF n(2,1) lbs]
      by (auto simp: buf canon_split_def enc_kind_def enc_str_def head_def word_le_nat_alt unat_of_nat
          split: if_splits)
    then show ?thesis
      by blast
  next
    fix n assume n: "n < 56" "unat b = 192 + n"
    then have "b = 0xC0 + of_nat n"
      by (simp add: word_unat_eq_iff unat_word_ariths)
    then have "canon_split buf [b] (take n bs) (drop n bs) k (unat ts) (unat cs)"
      using r n readKind_list [OF n(2,1) lbs]
      by (auto simp: buf canon_split_def enc_kind_def enc_list_def head_def unat_of_nat split: if_splits)
    then show ?thesis
      by blast
  next
    fix m :: nat assume "0 < m" "m \<le> 8" "unat b = unat (0xB7 :: byte) + m"
    then show ?thesis
      by (rule long [where small = "0x80" and k' = String]) simp
  next
    fix m :: nat assume "0 < m" "m \<le> 8" "unat b = unat (0xF7 :: byte) + m"
    then show ?thesis
      by (rule long [where small = "0xC0" and k' = List]) simp
  qed
qed

lemma Split_readKind:
  assumes len: "length b < 2 ^ 63"
  shows "Split b = (case readKind b of
      Inl e \<Rightarrow> Inr (Inl e)
    | Inr (k, ts, cs) \<Rightarrow>
        Inr (Inr (k, take (unat cs) (drop (unat ts) b), drop (unat ts + unat cs) b)))"
proof (cases "readKind b")
  case (Inl e)
  then show ?thesis by (simp add: Split_def)
next
  case (Inr r)
  obtain k ts cs where r: "r = (k, ts, cs)"
    by (cases r)
  have b: "unat ts + unat cs \<le> length b"
    using readKind_canon [OF Inr [unfolded r] len] by (auto simp: canon_split_def)
  then have sum: "unat (ts + cs) = unat ts + unat cs"
    using len by (intro unat_u64_add) simp
  have "go_slice b (uint ts) (uint (ts + cs)) = Inr (take (unat cs) (drop (unat ts) b))"
    and "go_slice b (uint (ts + cs)) (int (length b)) = Inr (drop (unat ts + unat cs) b)"
    unfolding go_slice_def uint_u64_eq sum using b
    by (simp_all add: nat_diff_distrib nat_int_add del: of_nat_unat)
  then show ?thesis
    by (simp add: Split_def Inr r)
qed

text \<open>The content that \<open>Split\<close> returns, without the slice checks of the Go runtime:
  they cannot fail.\<close>

definition Split_content :: "bytes \<Rightarrow> rlperror + bytes" where
  "Split_content b =
     (case readKind b of
        Inl e \<Rightarrow> Inl e
      | Inr (k, ts, cs) \<Rightarrow> Inr (take (unat cs) (drop (unat ts) b)))"

lemma Split_content_eq:
  "length b < 2 ^ 63 \<Longrightarrow>
     Split_content b = (case Split b of Inr (Inr (k, c, rest)) \<Rightarrow> Inr c | Inr (Inl e) \<Rightarrow> Inl e)"
  by (auto simp: Split_content_def Split_readKind split: sum.split)

lemma Split_enc_kind:
  assumes hd: "buf = h @ c @ rest" "length buf < 2 ^ 63"
    and r: "readKind buf = Inr (k, of_nat (length h), of_nat (length c))"
  shows "Split buf = Inr (Inr (k, c, rest))"
  using hd r by (simp add: Split_readKind unat_of_nat)

lemma readKind_head:
  assumes t: "(small, large, k) = (0x80, 0xB7, String) \<or> (small, large, k) = (0xC0, 0xF7, List)"
    and n: "n \<le> length bs" and len: "length (head small large n @ bs) < 2 ^ 63"
    and canon: "k = String \<Longrightarrow> n = 1 \<Longrightarrow> \<not> unat (bs ! 0) < 128"
  shows "readKind (head small large n @ bs) = Inr (k, of_nat (length (head small large n)), of_nat n)"
proof (cases "n < 56")
  case True
  have h: "head small large n = [small + of_nat n]"
    using True by (simp add: head_def)
  have u: "unat (small + of_nat n :: byte) = unat small + n"
    using True t by (auto intro!: unat_tag)
  show ?thesis
    using t True n canon u len readKind_string [of "small + of_nat n" n bs]
      readKind_list [of "small + of_nat n" n bs] unfolding h by auto
next
  case False
  let ?s = "be_min n"
  have n64: "n < 2 ^ 64"
    using n len by simp
  note sb = sig_bytes_be_min [OF n64]
  have l0: "0 < length ?s"
    using sb(1) by (simp add: sig_bytes_def)
  have h: "head small large n = (large + of_nat (length ?s)) # ?s"
    using False by (simp add: head_def Let_def)
  have t': "(large, k) = (0xB7, String) \<or> (large, k) = (0xF7, List)"
    using t by auto
  have u: "unat (large + of_nat (length ?s) :: byte) = unat large + length ?s"
    using sb(3) t by (auto intro!: unat_tag)
  have "readSize (?s @ bs) (of_nat (length ?s)) = Inr (of_nat n)"
    using readSize_be [of "length ?s" "?s @ bs"] False sb l0 by (simp add: nth_append)
  moreover have "length (?s @ bs) < 2 ^ 63"
    using len h by simp
  ultimately show ?thesis
    using readKind_long [OF u l0 sb(3) t', of "?s @ bs"] n n64 unfolding h
    by (simp add: unat_of_nat del: of_nat_Suc of_nat_add)
qed

lemma Split_enc:
  assumes len: "length (enc x @ rest) < 2 ^ 63"
  shows "Split (enc x @ rest) = Inr (Inr (kind_of x, content_of x, rest))"
proof (cases x)
  case (Lst xs)
  let ?c = "concat (map enc xs)"
  have e: "enc x @ rest = head 0xC0 0xF7 (length ?c) @ ?c @ rest"
    by (simp add: Lst enc_list_def)
  show ?thesis
    using Split_enc_kind [OF e len] readKind_head [of "0xC0" "0xF7" List "length ?c" "?c @ rest"] len e
    by (simp add: Lst)
next
  case (Str b)
  show ?thesis
  proof (cases "length b = 1 \<and> b ! 0 \<le> 0x7F")
    case True
    then obtain y where y: "b = [y]" "unat y < 128"
      by (cases b) (auto simp: word_le_nat_alt)
    have e: "enc x @ rest = [] @ [y] @ rest"
      using True by (simp add: Str y enc_str_def)
    show ?thesis
      using Split_enc_kind [OF e len] readKind_byte [OF y(2), of rest] len e True
      by (simp add: Str y)
  next
    case False
    have e: "enc x @ rest = head 0x80 0xB7 (length b) @ b @ rest"
      using False by (auto simp: Str enc_str_def)
    have "\<not> unat ((b @ rest) ! 0) < 128" if "length b = 1"
      using that False by (cases b) (auto simp: word_le_nat_alt)
    then have "Split (head 0x80 0xB7 (length b) @ b @ rest) = Inr (Inr (String, b, rest))"
      using len unfolding e by (intro Split_enc_kind [OF refl] readKind_head) auto
    then show ?thesis
      unfolding e using False by (auto simp: Str)
  qed
qed

text \<open>The minimal big-endian bytes of an integer, none for zero.\<close>

definition uint_bytes :: "nat \<Rightarrow> bytes" where
  "uint_bytes x = (if x = 0 then [] else be_min x)"

lemma AppendUint64_putint:
  "AppendUint64 b i = b @ (if i = 0 then [0x80] else if i < 128 then [ucast i]
     else (0x80 + of_nat (length (putint i))) # putint i)"
  by (auto simp: AppendUint64_def putint_def u64_order)

lemma be_min_byte: "x < 256 \<Longrightarrow> be_min x = [of_nat x]"
  by (simp add: be_min.simps)

lemma length_be_min_1: "x < 2 ^ 64 \<Longrightarrow> length (be_min x) = 1 \<longleftrightarrow> x < 256"
  using sig_bytes_be_min(1) [of x] be_min_byte [of x] by (auto simp: sig_bytes_def)

lemma enc_str_uint:
  "enc_str (uint_bytes (unat (i :: uint64))) =
     (if i = 0 then [0x80] else if i < 128 then [ucast i]
      else (0x80 + of_nat (length (putint i))) # putint i)"
proof -
  have "length (putint i) = 1 \<longleftrightarrow> unat i < 256"
    using length_be_min_1 [of "unat i"] unat_u64_less [of i] by (simp add: putint_be_min)
  moreover have "putint i = [of_nat (unat i)]" if "unat i < 256"
    using that be_min_byte by (simp add: putint_be_min)
  ultimately show ?thesis
    using length_putint [of i]
    by (auto simp: uint_bytes_def enc_str_def head_def putint_be_min [symmetric] u64_order
        word_le_nat_alt ucast_byte_eq u64_eq_iff simp del: of_nat_unat)
qed

lemma AppendUint64_enc: "AppendUint64 b i = b @ enc (Str (uint_bytes (unat i)))"
  by (simp only: AppendUint64_putint enc.simps enc_str_uint)

lemma SplitString_enc:
  "length (enc (Str s) @ rest) < 2 ^ 63 \<Longrightarrow> SplitString (enc (Str s) @ rest) = Inr (Inr (s, rest))"
  using Split_enc [of "Str s" rest] by (simp add: SplitString_def)

lemma SplitList_enc:
  "length (enc (Lst xs) @ rest) < 2 ^ 63 \<Longrightarrow>
    SplitList (enc (Lst xs) @ rest) = Inr (Inr (concat (map enc xs), rest))"
  using Split_enc [of "Lst xs" rest] by (simp add: SplitList_def)

lemma SplitUint64_Append:
  assumes "length (AppendUint64 [] i @ rest) < 2 ^ 63"
  shows "SplitUint64 (AppendUint64 [] i @ rest) = Inr (Inr (i, rest))"
proof -
  let ?s = "uint_bytes (unat i)"
  have n64: "unat i < 2 ^ 64"
    using unat_u64_less [of i] by simp
  note sb = sig_bytes_be_min [OF n64]
  have str: "SplitString (AppendUint64 [] i @ rest) = Inr (Inr (?s, rest))"
    using assms SplitString_enc [of ?s rest] by (simp add: AppendUint64_enc)
  consider "i = 0" | "i \<noteq> 0" "unat i < 256" | "256 \<le> unat i"
    by linarith
  then show ?thesis
  proof cases
    case 1
    then show ?thesis using str by (simp add: SplitUint64_def uint_bytes_def)
  next
    case 2
    then have "be_min (unat i) = [of_nat (unat i)]"
      by (simp add: be_min_byte)
    moreover have "(of_nat (unat i) :: byte) \<noteq> 0"
      using 2 by (simp add: word_unat_eq_iff u64_eq_iff del: of_nat_unat)
    moreover have "(ucast (of_nat (unat i) :: byte) :: uint64) = i"
      using 2 by (simp add: u64_eq_iff ucast_u64_byte unat_of_nat del: of_nat_unat)
    ultimately show ?thesis
      using str 2 by (simp add: SplitUint64_def uint_bytes_def u64_eq_iff del: of_nat_unat)
  next
    case 3
    then have "length (be_min (unat i)) \<noteq> 1" "0 < length (be_min (unat i))"
      using length_be_min_1 [OF n64] sb(1) unfolding sig_bytes_def by auto
    then have l: "1 < length (be_min (unat i))"
      by linarith
    have "readSize (be_min (unat i)) (of_nat (length (be_min (unat i)))) = Inr i"
      using l sb 3 by (subst readSize_be) auto
    then show ?thesis
      using str 3 l sb(3) by (auto simp: SplitUint64_def uint_bytes_def)
  qed
qed

section \<open>The encoder buffer\<close>

record listhead =
  offset :: int
  hsize :: int

record encBuffer =
  str :: bytes
  lheads :: "listhead list"
  lhsize :: int

definition getEncBuffer :: encBuffer where
  "getEncBuffer = \<lparr>str = [], lheads = [], lhsize = 0\<rparr>"

definition buf_size :: "encBuffer \<Rightarrow> int" where
  "buf_size buf = int (length (str buf)) + lhsize buf"

definition listhead_encode :: "listhead \<Rightarrow> bytes" where
  "listhead_encode h = puthead 0xC0 0xF7 (of_int (hsize h))"

definition encodeStringHeader :: "nat \<Rightarrow> encBuffer \<Rightarrow> encBuffer" where
  "encodeStringHeader sz buf =
     (if sz < 56 then buf\<lparr>str := str buf @ [0x80 + of_nat sz]\<rparr>
      else let s = putint (of_nat sz) in
           buf\<lparr>str := str buf @ (0xB7 + of_nat (length s)) # s\<rparr>)"

definition writeBytes :: "bytes \<Rightarrow> encBuffer \<Rightarrow> encBuffer" where
  "writeBytes b buf =
     (if length b = 1 \<and> b ! 0 \<le> 0x7F then buf\<lparr>str := str buf @ [b ! 0]\<rparr>
      else let buf = encodeStringHeader (length b) buf in buf\<lparr>str := str buf @ b\<rparr>)"

definition writeUint64 :: "uint64 \<Rightarrow> encBuffer \<Rightarrow> encBuffer" where
  "writeUint64 i buf =
     (if i = 0 then buf\<lparr>str := str buf @ [0x80]\<rparr>
      else if i < 128 then buf\<lparr>str := str buf @ [ucast i]\<rparr>
      else let s = putint i in buf\<lparr>str := str buf @ (0x80 + of_nat (length s)) # s\<rparr>)"

definition writeBool :: "bool \<Rightarrow> encBuffer \<Rightarrow> encBuffer" where
  "writeBool b buf = buf\<lparr>str := str buf @ [if b then 0x01 else 0x80]\<rparr>"

definition buf_list :: "encBuffer \<Rightarrow> nat \<times> encBuffer" where
  "buf_list buf =
     (length (lheads buf),
      buf\<lparr>lheads := lheads buf @ [\<lparr>offset = int (length (str buf)), hsize = lhsize buf\<rparr>]\<rparr>)"

definition listEnd :: "nat \<Rightarrow> encBuffer \<Rightarrow> encBuffer go" where
  "listEnd index buf =
     andThen (go_index (lheads buf) (int index)) (\<lambda>lh.
     let sz = buf_size buf - offset lh - hsize lh;
         buf = buf\<lparr>lheads := (lheads buf)[index := lh\<lparr>hsize := sz\<rparr>]\<rparr>
     in Inr (if sz < 56 then buf\<lparr>lhsize := lhsize buf + 1\<rparr>
             else buf\<lparr>lhsize := lhsize buf + (1 + int (intsize (of_int sz)))\<rparr>))"

text \<open>The writer of strings and slices: \<open>makeSliceWriter\<close> for elements that are
  themselves strings or slices.\<close>

fun writeItem :: "item \<Rightarrow> encBuffer \<Rightarrow> encBuffer go"
  and writeItems :: "item list \<Rightarrow> encBuffer \<Rightarrow> encBuffer go" where
  "writeItem (Str b) buf = Inr (writeBytes b buf)"
| "writeItem (Lst xs) buf =
     (if xs = [] then Inr (buf\<lparr>str := str buf @ [0xC0]\<rparr>)
      else let (listOffset, buf) = buf_list buf in
           andThen (writeItems xs buf) (listEnd listOffset))"
| "writeItems [] buf = Inr buf"
| "writeItems (x # xs) buf = andThen (writeItem x buf) (writeItems xs)"

text \<open>The loop of \<open>copyTo\<close> over the list headers.\<close>

primrec copyHeads :: "listhead list \<Rightarrow> bytes \<Rightarrow> bytes \<Rightarrow> nat \<Rightarrow> nat \<Rightarrow> (bytes \<times> nat \<times> nat) go" where
  "copyHeads [] s dst pos strpos = Inr (dst, pos, strpos)"
| "copyHeads (h # hs) s dst pos strpos =
     andThen (go_slice dst (int pos) (int (length dst))) (\<lambda>_.
     andThen (go_slice s (int strpos) (offset h)) (\<lambda>part.
     let n = min (length dst - pos) (length part);
         dst = copy_at dst pos part; pos = pos + n; strpos = strpos + n in
     andThen (go_slice dst (int pos) (int (length dst))) (\<lambda>_.
     let e = listhead_encode h in
     if length dst - pos < length e then Inl IndexOutOfRange
     else copyHeads hs s (copy_at dst pos e) (pos + length e) strpos)))"

definition copyTo :: "encBuffer \<Rightarrow> bytes \<Rightarrow> bytes go" where
  "copyTo buf dst =
     andThen (copyHeads (lheads buf) (str buf) dst 0 0) (\<lambda>(dst, pos, strpos).
     andThen (go_slice dst (int pos) (int (length dst))) (\<lambda>_.
     andThen (go_slice (str buf) (int strpos) (int (length (str buf)))) (\<lambda>part.
     Inr (copy_at dst pos part))))"

definition makeBytes :: "encBuffer \<Rightarrow> bytes go" where
  "makeBytes buf = copyTo buf (replicate (nat (buf_size buf)) 0)"

text \<open>What the buffer stands for: its string data with the headers inserted.\<close>

primrec render :: "bytes \<Rightarrow> listhead list \<Rightarrow> nat \<Rightarrow> bytes" where
  "render s [] p = drop p s"
| "render s (h # hs) p =
     take (nat (offset h) - p) (drop p s) @ listhead_encode h @ render s hs (nat (offset h))"

primrec heads_ok :: "bytes \<Rightarrow> listhead list \<Rightarrow> nat \<Rightarrow> bool" where
  "heads_ok s [] p \<longleftrightarrow> p \<le> length s"
| "heads_ok s (h # hs) p \<longleftrightarrow> int p \<le> offset h \<and> heads_ok s hs (nat (offset h))"

lemma heads_ok_le: "heads_ok s hs p \<Longrightarrow> p \<le> length s"
proof (induction hs arbitrary: p)
  case (Cons h hs)
  then have "nat (offset h) \<le> length s" by simp
  moreover have "int p \<le> offset h"
    using Cons.prems by simp
  ultimately show ?case by linarith
qed simp

lemma copy_at_end:
  "length rest = length part + n \<Longrightarrow>
    copy_at (out @ rest) (length out) part = (out @ part) @ drop (length part) rest"
  by (simp add: copy_at_def)

lemma go_slice_tail: "p \<le> length xs \<Longrightarrow> go_slice xs (int p) (int (length xs)) = Inr (drop p xs)"
  by (simp add: go_slice_def nat_diff_distrib)

lemma copyHeads_step:
  assumes sl: "go_slice s (int strpos) (offset h) = Inr part"
    and lr: "length part + length (listhead_encode h) \<le> length rest"
  shows "copyHeads (h # hs) s (out @ rest) (length out) strpos =
    copyHeads hs s (((out @ part) @ listhead_encode h) @
        drop (length (listhead_encode h)) (drop (length part) rest))
      (length ((out @ part) @ listhead_encode h)) (strpos + length part)"
proof -
  let ?e = "listhead_encode h"
  let ?r1 = "drop (length part) rest"
  have c1: "copy_at (out @ rest) (length out) part = (out @ part) @ ?r1"
    and c2: "copy_at ((out @ part) @ ?r1) (length (out @ part)) ?e =
      ((out @ part) @ ?e) @ drop (length ?e) ?r1"
    using lr by (intro copy_at_end [where n = "length rest - length part"]
        copy_at_end [where n = "length rest - length part - length ?e"]; simp)+
  have n: "min (length (out @ rest) - length out) (length part) = length part"
    using lr by simp
  have p: "length out + length part = length (out @ part)"
    "length (out @ part) + length ?e = length ((out @ part) @ ?e)"
    by simp_all
  have g1: "go_slice (out @ rest) (int (length out)) (int (length (out @ rest))) = Inr (drop (length out) (out @ rest))"
    and g2: "go_slice ((out @ part) @ ?r1) (int (length (out @ part))) (int (length ((out @ part) @ ?r1)))
      = Inr (drop (length (out @ part)) ((out @ part) @ ?r1))"
    by (rule go_slice_tail; simp)+
  have room: "\<not> length ((out @ part) @ ?r1) - length (out @ part) < length ?e"
    using lr by simp
  show ?thesis
    unfolding copyHeads.simps Let_def n sl g1 andThen_Inr c1 p g2 c2 if_not_P [OF room] ..
qed

lemma copyHeads_render:
  assumes "heads_ok s hs strpos" "length rest = length (render s hs strpos)"
  shows "\<exists>out' rest' strpos'. copyHeads hs s (out @ rest) (length out) strpos =
      Inr (out' @ rest', length out', strpos') \<and> strpos' \<le> length s \<and>
    length rest' = length s - strpos' \<and> out' @ drop strpos' s = out @ render s hs strpos"
  using assms
proof (induction hs arbitrary: out rest strpos)
  case Nil
  then show ?case by (intro exI [of _ out] exI [of _ rest]) auto
next
  case (Cons h hs)
  let ?o = "nat (offset h)"
  let ?part = "take (?o - strpos) (drop strpos s)"
  let ?e = "listhead_encode h"
  have o: "int strpos \<le> offset h" "?o \<le> length s" "heads_ok s hs ?o"
    using Cons.prems heads_ok_le by auto
  have lp: "strpos + length ?part = ?o"
    using o by auto
  have sl: "go_slice s (int strpos) (offset h) = Inr ?part"
    using o by (simp add: go_slice_def nat_diff_distrib)
  have l: "length rest = length ?part + length ?e + length (render s hs ?o)"
    using Cons.prems by simp
  have "length (drop (length ?e) (drop (length ?part) rest)) = length (render s hs ?o)"
    unfolding length_drop l by simp
  from Cons.IH [OF o(3) this, of "(out @ ?part) @ ?e"] l show ?case
    by (subst copyHeads_step [OF sl]) (auto simp only: lp render.simps append_assoc)
qed

lemma copyTo_render:
  assumes "heads_ok (str buf) (lheads buf) 0"
  shows "copyTo buf (replicate (length (render (str buf) (lheads buf) 0)) 0) =
    Inr (render (str buf) (lheads buf) 0)"
proof -
  let ?r = "render (str buf) (lheads buf) 0"
  obtain out rest strpos where
    c: "copyHeads (lheads buf) (str buf) (replicate (length ?r) 0) 0 0 = Inr (out @ rest, length out, strpos)"
    "strpos \<le> length (str buf)" "length rest = length (str buf) - strpos" "out @ drop strpos (str buf) = ?r"
    using copyHeads_render [OF assms, of "replicate (length ?r) 0" "[]"] by auto
  show ?thesis
    using c copy_at_end [of rest "drop strpos (str buf)" 0 out]
    by (simp add: copyTo_def go_slice_tail) (simp add: go_slice_def)
qed

text \<open>A write that leaves no list open appends some string data and some complete
  headers; \<open>out\<close> is the encoding it adds.\<close>

definition shift :: "nat \<Rightarrow> listhead list \<Rightarrow> listhead list" where
  "shift n hs = map (\<lambda>h. h\<lparr>offset := offset h + int n\<rparr>) hs"

definition heads_len :: "listhead list \<Rightarrow> nat" where
  "heads_len hs = sum_list (map (\<lambda>h. length (listhead_encode h)) hs)"

definition adds :: "encBuffer \<Rightarrow> encBuffer \<Rightarrow> bytes \<Rightarrow> bool" where
  "adds buf buf' out \<longleftrightarrow>
     (\<exists>s hs. str buf' = str buf @ s \<and> lheads buf' = lheads buf @ shift (length (str buf)) hs \<and>
        lhsize buf' = lhsize buf + int (heads_len hs) \<and> heads_ok s hs 0 \<and> render s hs 0 = out)"

lemma shift_simps [simp]:
  "shift n [] = []" "shift n (h # hs) = h\<lparr>offset := offset h + int n\<rparr> # shift n hs"
  "shift n (hs @ hs') = shift n hs @ shift n hs'" "shift m (shift n hs) = shift (n + m) hs"
  "heads_len (shift n hs) = heads_len hs"
  by (simp_all add: shift_def heads_len_def listhead_encode_def o_def)

lemma heads_len_simps [simp]:
  "heads_len [] = 0" "heads_len (h # hs) = length (listhead_encode h) + heads_len hs"
  "heads_len (hs @ hs') = heads_len hs + heads_len hs'"
  by (simp_all add: heads_len_def)

lemma listhead_encode_shift [simp]: "listhead_encode (h\<lparr>offset := n\<rparr>) = listhead_encode h"
  by (simp add: listhead_encode_def)

lemma length_render: "heads_ok s hs p \<Longrightarrow> length (render s hs p) = length s - p + heads_len hs"
proof (induction hs arbitrary: p)
  case (Cons h hs)
  have "nat (offset h) \<le> length s" "p \<le> nat (offset h)"
    using Cons.prems heads_ok_le by auto
  then have "length (take (nat (offset h) - p) (drop p s)) = nat (offset h) - p"
    "(nat (offset h) - p) + (length s - nat (offset h)) = length s - p"
    by simp_all
  with Cons show ?case by simp
qed simp

lemma render_shift:
  "heads_ok s2 hs q \<Longrightarrow> render (s1 @ s2) (shift (length s1) hs) (length s1 + q) = render s2 hs q"
  "heads_ok s2 hs q \<Longrightarrow> heads_ok (s1 @ s2) (shift (length s1) hs) (length s1 + q)"
proof (induction hs arbitrary: q)
  case (Cons h hs)
  have n: "nat (offset h + int (length s1)) = length s1 + nat (offset h)" if "0 \<le> offset h"
    using that by auto
  {
    case 1
    then have "0 \<le> offset h" by auto
    then show ?case using 1 n Cons.IH(1) [of "nat (offset h)"] by simp
  next
    case 2
    then have "0 \<le> offset h" by auto
    then show ?case using 2 n Cons.IH(2) [of "nat (offset h)"] by auto
  }
qed auto

lemma render_shift_first:
  assumes "heads_ok s2 hs 0" "p \<le> length s1"
  shows "render (s1 @ s2) (shift (length s1) hs) p = drop p s1 @ render s2 hs 0"
    "heads_ok (s1 @ s2) (shift (length s1) hs) p"
proof -
  show "render (s1 @ s2) (shift (length s1) hs) p = drop p s1 @ render s2 hs 0"
  proof (cases hs)
    case (Cons h hs')
    have "nat (offset h + int (length s1)) = length s1 + nat (offset h)"
      using assms Cons by auto
    then show ?thesis
      using assms Cons render_shift(1) [of s2 hs' "nat (offset h)" s1] by (simp add: drop_append)
  qed (use assms in simp)
  show "heads_ok (s1 @ s2) (shift (length s1) hs) p"
    using assms render_shift(2) [of s2 hs 0 s1] by (cases hs) auto
qed

lemma render_append:
  assumes "heads_ok s1 hs1 p" "heads_ok s2 hs2 0"
  shows "render (s1 @ s2) (hs1 @ shift (length s1) hs2) p = render s1 hs1 p @ render s2 hs2 0"
    "heads_ok (s1 @ s2) (hs1 @ shift (length s1) hs2) p"
  using assms
proof (induction hs1 arbitrary: p)
  case Nil
  {
    case 1
    then show ?case by (simp add: render_shift_first)
  next
    case 2
    then show ?case by (simp add: render_shift_first)
  }
next
  case (Cons h hs1)
  {
    case 1
    then show ?case using Cons.IH(1) heads_ok_le [of s1 hs1 "nat (offset h)"] by auto
  next
    case 2
    then show ?case using Cons.IH(2) by auto
  }
qed

lemma adds_refl: "adds buf buf []"
  unfolding adds_def by (rule exI [of _ "[]"], rule exI [of _ "[]"]) simp

lemma adds_str: "adds buf (buf\<lparr>str := str buf @ s\<rparr>) s"
  unfolding adds_def by (rule exI [of _ s], rule exI [of _ "[]"]) simp

lemma adds_trans:
  assumes "adds a b x" "adds b c y"
  shows "adds a c (x @ y)"
proof -
  obtain s1 h1 where 1: "str b = str a @ s1" "lheads b = lheads a @ shift (length (str a)) h1"
    "lhsize b = lhsize a + int (heads_len h1)" "heads_ok s1 h1 0" "render s1 h1 0 = x"
    using assms(1) unfolding adds_def by blast
  obtain s2 h2 where 2: "str c = str b @ s2" "lheads c = lheads b @ shift (length (str b)) h2"
    "lhsize c = lhsize b + int (heads_len h2)" "heads_ok s2 h2 0" "render s2 h2 0 = y"
    using assms(2) unfolding adds_def by blast
  show ?thesis
    unfolding adds_def using 1 2 render_append [OF 1(4) 2(4)]
    by (intro exI [of _ "s1 @ s2"], intro exI [of _ "h1 @ shift (length s1) h2"])
      (simp add: add.commute)
qed

lemma adds_size: "adds a b x \<Longrightarrow> buf_size b = buf_size a + int (length x)"
  by (auto simp: adds_def buf_size_def length_render)

lemma writeBytes_adds:
  assumes "length b < 2 ^ 63"
  shows "adds buf (writeBytes b buf) (enc_str b)"
proof (cases "length b = 1 \<and> b ! 0 \<le> 0x7F")
  case True
  then have "b = [b ! 0]"
    by (cases b) auto
  then show ?thesis
    using True adds_str [of buf "[b ! 0]"] by (simp add: writeBytes_def enc_str_def)
next
  case False
  have "encodeStringHeader (length b) buf = buf\<lparr>str := str buf @ head 0x80 0xB7 (length b)\<rparr>"
    using assms by (simp add: encodeStringHeader_def head_def putint_be_min unat_of_nat Let_def)
  then show ?thesis
    using False adds_str [of buf "head 0x80 0xB7 (length b) @ b"]
    by (auto simp: writeBytes_def enc_str_def)
qed

text \<open>Closing a list turns its placeholder into a header of the right size.\<close>

lemma listEnd_adds:
  assumes c: "length c < 2 ^ 63" and ch: "adds (snd (buf_list buf)) b2 c"
  shows "\<exists>b3. listEnd (fst (buf_list buf)) b2 = Inr b3 \<and> adds buf b3 (enc_list c)"
proof -
  let ?ph = "\<lparr>offset = int (length (str buf)), hsize = lhsize buf\<rparr>"
  let ?b1 = "snd (buf_list buf)"
  have b1: "str ?b1 = str buf" "lheads ?b1 = lheads buf @ [?ph]" "lhsize ?b1 = lhsize buf"
    by (simp_all add: buf_list_def)
  obtain s hs where sh: "str b2 = str buf @ s"
    "lheads b2 = lheads buf @ ?ph # shift (length (str buf)) hs"
    "lhsize b2 = lhsize buf + int (heads_len hs)" "heads_ok s hs 0" "render s hs 0 = c"
    using ch b1 unfolding adds_def by auto
  have sz: "buf_size b2 - offset ?ph - hsize ?ph = int (length c)"
    using sh length_render [OF sh(4)] by (simp add: buf_size_def)
  define h0 where "h0 = \<lparr>offset = 0, hsize = int (length c)\<rparr>"
  have e0: "listhead_encode h0 = head 0xC0 0xF7 (length c)"
    using c by (simp add: h0_def listhead_encode_def puthead_head)
  have i: "int (length c) < 56 \<longleftrightarrow> length c < 56"
    by simp
  have l0: "length (head 0xC0 0xF7 (length c)) = (if length c < 56 then 1 else 1 + intsize (of_nat (length c)))"
    using c by (simp add: head_def Let_def intsize_eq putint_be_min unat_of_nat)
  let ?b3 = "\<lparr>str = str b2, lheads = lheads buf @ shift (length (str buf)) (h0 # hs),
    lhsize = lhsize buf + int (heads_len (h0 # hs))\<rparr>"
  have idx: "go_index (lheads b2) (int (length (lheads buf))) = Inr ?ph"
    by (simp add: sh(2) go_index_def)
  have "listEnd (fst (buf_list buf)) b2 = Inr ?b3"
    unfolding listEnd_def buf_list_def fst_conv idx andThen_Inr Let_def sz i
    using e0 l0 by (simp add: sh(2,3) h0_def)
  moreover have "adds buf ?b3 (enc_list c)"
    unfolding adds_def using sh e0
    by (intro exI [of _ s], intro exI [of _ "h0 # hs"]) (simp add: enc_list_def, simp add: h0_def)
  ultimately show ?thesis by blast
qed

lemma length_enc_mem: "y \<in> set xs \<Longrightarrow> length (enc y) \<le> length (concat (map enc xs))"
  by (auto simp: length_concat intro: member_le_sum_list)

lemma length_concat_enc: "length (concat (map enc xs)) < length (enc (Lst xs))"
  using length_head(2) by (simp add: enc_list_def)

lemma length_enc_str: "length b \<le> length (enc (Str b))"
  by (simp add: enc_str_def)

lemma writeItem_adds:
  "length (enc x) < 2 ^ 63 \<Longrightarrow> \<exists>buf'. writeItem x buf = Inr buf' \<and> adds buf buf' (enc x)"
  "length (concat (map enc xs)) < 2 ^ 63 \<Longrightarrow>
     \<exists>buf'. writeItems xs buf = Inr buf' \<and> adds buf buf' (concat (map enc xs))"
proof (induction x buf and xs buf rule: writeItem_writeItems.induct)
  case (1 b buf)
  then show ?case
    using writeBytes_adds [of b buf] length_enc_str [of b] by simp
next
  case (2 xs buf)
  show ?case
  proof (cases "xs = []")
    case True
    then show ?thesis
      using adds_str [of buf "[0xC0]"] by (simp add: enc_list_def head_def)
  next
    case False
    have c: "length (concat (map enc xs)) < 2 ^ 63"
      using 2(2) length_concat_enc [of xs] by linarith
    obtain b2 where b2: "writeItems xs (snd (buf_list buf)) = Inr b2"
      "adds (snd (buf_list buf)) b2 (concat (map enc xs))"
      using 2(1) [OF False _ prod.collapse [symmetric] c] False by (auto simp: buf_list_def)
    then show ?thesis
      using listEnd_adds [OF c b2(2)] False by (auto simp: case_prod_beta)
  qed
next
  case (3 buf)
  then show ?case by (simp add: adds_refl)
next
  case (4 x xs buf)
  obtain b1 where b1: "writeItem x buf = Inr b1" "adds buf b1 (enc x)"
    using 4 by auto
  then obtain b2 where "writeItems xs b1 = Inr b2" "adds b1 b2 (concat (map enc xs))"
    using 4 by auto
  then show ?case
    using b1 adds_trans by auto
qed

lemma makeBytes_adds:
  assumes "adds getEncBuffer buf out"
  shows "makeBytes buf = Inr out"
proof -
  have h: "heads_ok (str buf) (lheads buf) 0" "render (str buf) (lheads buf) 0 = out"
    using assms by (auto simp: adds_def getEncBuffer_def shift_def)
  have "buf_size buf = int (length out)"
    using adds_size [OF assms] by (simp add: getEncBuffer_def buf_size_def)
  then show ?thesis
    using copyTo_render [OF h(1)] h(2) by (simp add: makeBytes_def)
qed

section \<open>Properties\<close>

text \<open>C25: The encoder buffer, which appends string data, records list headers in a side table
  with sizes fixed up when a list ends, and merges both into an exactly sized output,
  never indexes out of range and produces the reference encoding of every value.\<close>

theorem encBuffer_encodes:
  assumes "length (enc x) < 2 ^ 63"
  shows "andThen (writeItem x getEncBuffer) makeBytes = Inr (enc x)"
  using writeItem_adds(1) [OF assms, of getEncBuffer] makeBytes_adds by auto

theorem encBuffer_encodes_witness:
  "andThen (writeItem (Lst [Str [1], Lst [Str [0x80]], Lst []]) getEncBuffer) makeBytes =
     Inr [0xC5, 1, 0xC2, 0x81, 0x80, 0xC0]"
  using encBuffer_encodes [of "Lst [Str [1], Lst [Str [0x80]], Lst []]"]
  by (simp add: enc_str_def enc_list_def head_def)

text \<open>C26: Splitting inverts encoding: the first value of an input that starts with the encoding
  of a string or list is returned with its kind, its content and the untouched rest,
  and no slice bound is exceeded.\<close>

theorem Split_roundtrip:
  assumes "length (enc x @ rest) < 2 ^ 63"
  shows "Split (enc x @ rest) = Inr (Inr (kind_of x, content_of x, rest))"
  using assms by (rule Split_enc)

theorem Split_roundtrip_witness:
  "Split (enc (Lst [Str [1, 2]]) @ [7]) = Inr (Inr (List, [0x82, 1, 2], [7]))"
  using Split_roundtrip [of "Lst [Str [1, 2]]" "[7]"]
  by (simp add: enc_str_def enc_list_def head_def)

text \<open>C27: Splitting accepts canonical encodings only: whenever it returns a value, the input is
  the reference encoding of the returned content followed by the returned rest, so no
  value has two accepted encodings; and it never panics, whatever the input.\<close>

theorem Split_canonical:
  assumes "length b < 2 ^ 63"
  shows "\<exists>r. Split b = Inr r \<and>
    (\<forall>k c rest. r = Inr (k, c, rest) \<longrightarrow>
       b = (if k = List then enc_list c else enc_str c) @ rest)"
proof (cases "readKind b")
  case (Inl e)
  then show ?thesis
    using assms by (simp add: Split_readKind)
next
  case (Inr r)
  obtain k ts cs where r: "r = (k, ts, cs)"
    by (cases r)
  obtain h c rest where "canon_split b h c rest k (unat ts) (unat cs)"
    using readKind_canon [OF Inr [unfolded r] assms] by blast
  then show ?thesis
    using assms Inr r by (auto simp: Split_readKind canon_split_def enc_kind_def)
qed

theorem Split_canonical_witness:
  "Split [0x82, 1, 2, 9] = Inr (Inr (String, [1, 2], [9])) \<and>
   [0x82, 1, 2, 9] = enc_str [1, 2] @ [9] \<and> Split [0x81, 5] = Inr (Inl ErrCanonSize)"
proof -
  have s: "Split [0x82, 1, 2, 9] = Inr (Inr (String, [1, 2], [9]))"
    and e: "Split [0x81, 5] = Inr (Inl ErrCanonSize)"
    by code_simp+
  then show ?thesis
    using Split_canonical [of "[0x82, 1, 2, 9]"] by simp
qed

text \<open>C28: Integers survive a round trip: decoding what \<open>AppendUint64\<close> wrote returns the integer
  and the rest, for every 64-bit value.\<close>

theorem Uint64_roundtrip:
  assumes "length (AppendUint64 [] i @ rest) < 2 ^ 63"
  shows "SplitUint64 (AppendUint64 [] i @ rest) = Inr (Inr (i, rest))"
  using assms by (rule SplitUint64_Append)

theorem Uint64_roundtrip_witness:
  "SplitUint64 (AppendUint64 [] 1024 @ [3]) = Inr (Inr (1024, [3]))"
  using Uint64_roundtrip [of 1024 "[3]"] by (simp add: AppendUint64_def)

end
