(* ===== verification/State_Access.thy ===== *)
theory State_Access
  imports Zond_Prelude
begin

text \<open>
  The per-transaction access list of \<open>core/state/access_list.go\<close>: a map from addresses
  to an index into a slice of slot sets, \<open>-1\<close> for an address without slots.

  \<open>al_ok\<close> is the representation invariant; \<open>al_addrs\<close> and \<open>al_slots\<close> are the two sets the
  list stands for. The lemmas show that every operation implements the set operation
  it names, and that the deletions used by the journal undo the additions exactly.
\<close>

record accessList =
  addresses :: "address \<Rightarrow> int option"
  slots :: "hash set list"

definition newAccessList :: accessList where
  "newAccessList = \<lparr>addresses = Map.empty, slots = []\<rparr>"

definition ContainsAddress :: "accessList \<Rightarrow> address \<Rightarrow> bool" where
  "ContainsAddress al a \<longleftrightarrow> addresses al a \<noteq> None"

definition Contains :: "accessList \<Rightarrow> address \<Rightarrow> hash \<Rightarrow> (bool \<times> bool) go" where
  "Contains al a s =
     (case addresses al a of
        None \<Rightarrow> Inr (False, False)
      | Some idx \<Rightarrow>
          if idx = -1 then Inr (True, False)
          else andThen (go_index (slots al) idx) (\<lambda>m. Inr (True, s \<in> m)))"

definition AddAddress :: "accessList \<Rightarrow> address \<Rightarrow> bool \<times> accessList" where
  "AddAddress al a =
     (case addresses al a of
        Some _ \<Rightarrow> (False, al)
      | None \<Rightarrow> (True, al\<lparr>addresses := (addresses al)(a \<mapsto> -1)\<rparr>))"

definition AddSlot :: "accessList \<Rightarrow> address \<Rightarrow> hash \<Rightarrow> ((bool \<times> bool) \<times> accessList) go" where
  "AddSlot al a s =
     (let idx = addresses al a in
      if idx = None \<or> idx = Some (-1) then
        Inr ((idx = None, True),
             al\<lparr>addresses := (addresses al)(a \<mapsto> int (length (slots al))),
                slots := slots al @ [{s}]\<rparr>)
      else
        andThen (go_index (slots al) (the idx)) (\<lambda>m.
        if s \<notin> m then
          Inr ((False, True), al\<lparr>slots := (slots al)[nat (the idx) := insert s m]\<rparr>)
        else Inr ((False, False), al)))"

definition DeleteSlot :: "accessList \<Rightarrow> address \<Rightarrow> hash \<Rightarrow> accessList go" where
  "DeleteSlot al a s =
     (case addresses al a of
        None \<Rightarrow> Inl (PanicMsg ''reverting slot change, address not present in list'')
      | Some idx \<Rightarrow>
          andThen (go_index (slots al) idx) (\<lambda>m.
          let m = m - {s};
              al = al\<lparr>slots := (slots al)[nat idx := m]\<rparr> in
          if m = {} then
            Inr (al\<lparr>slots := take (nat idx) (slots al), addresses := (addresses al)(a \<mapsto> -1)\<rparr>)
          else Inr al))"

definition DeleteAddress :: "accessList \<Rightarrow> address \<Rightarrow> accessList" where
  "DeleteAddress al a = al\<lparr>addresses := (addresses al)(a := None)\<rparr>"

section \<open>Invariant and abstraction\<close>

definition al_ok :: "accessList \<Rightarrow> bool" where
  "al_ok al \<longleftrightarrow>
     (\<forall>a i. addresses al a = Some i \<longrightarrow> i = -1 \<or> (0 \<le> i \<and> i < int (length (slots al)))) \<and>
     (\<forall>a b i. addresses al a = Some i \<longrightarrow> addresses al b = Some i \<longrightarrow> i \<noteq> -1 \<longrightarrow> a = b) \<and>
     {} \<notin> set (slots al)"

definition al_addrs :: "accessList \<Rightarrow> address set" where
  "al_addrs al = dom (addresses al)"

definition al_slots :: "accessList \<Rightarrow> (address \<times> hash) set" where
  "al_slots al =
     {(a, s). \<exists>i. addresses al a = Some (int i) \<and> i < length (slots al) \<and> s \<in> slots al ! i}"

lemma al_ok_new [simp]: "al_ok newAccessList" "al_addrs newAccessList = {}" "al_slots newAccessList = {}"
  by (auto simp: al_ok_def newAccessList_def al_addrs_def al_slots_def)

lemma al_ok_index:
  assumes "al_ok al" "addresses al a = Some i" "i \<noteq> -1"
  obtains n where "i = int n" "n < length (slots al)" "go_index (slots al) i = Inr (slots al ! n)"
    "slots al ! n \<noteq> {}"
proof -
  have i: "0 \<le> i" "i < int (length (slots al))"
    using assms by (auto simp: al_ok_def)
  then obtain n where n: "i = int n" "n < length (slots al)"
    by (metis nonneg_eq_int of_nat_less_iff)
  moreover have "slots al ! n \<noteq> {}"
    using assms(1) nth_mem [OF n(2)] by (metis al_ok_def)
  ultimately show thesis
    using that by (simp add: go_index_def)
qed

lemma Contains_spec:
  assumes "al_ok al"
  shows "Contains al a s = Inr (a \<in> al_addrs al, (a, s) \<in> al_slots al)"
proof (cases "addresses al a")
  case None
  then show ?thesis by (auto simp: Contains_def al_addrs_def al_slots_def)
next
  case (Some i)
  show ?thesis
  proof (cases "i = -1")
    case True
    with Some show ?thesis by (auto simp: Contains_def al_addrs_def al_slots_def)
  next
    case False
    with Some assms show ?thesis
      by (auto elim!: al_ok_index simp: Contains_def al_addrs_def al_slots_def)
  qed
qed

lemma AddAddress_spec:
  assumes "al_ok al"
  shows "fst (AddAddress al a) \<longleftrightarrow> a \<notin> al_addrs al"
    "al_ok (snd (AddAddress al a))"
    "al_addrs (snd (AddAddress al a)) = insert a (al_addrs al)"
    "al_slots (snd (AddAddress al a)) = al_slots al"
  using assms
  by (auto simp: AddAddress_def al_ok_def al_addrs_def al_slots_def split: option.split if_splits)

lemma AddSlot_new:
  assumes ok: "al_ok al" and new: "addresses al a = None \<or> addresses al a = Some (-1)"
    and r: "AddSlot al a s = Inr (ch, al')"
  shows "ch = (a \<notin> al_addrs al, True)" "al_ok al'" "al_addrs al' = insert a (al_addrs al)"
    "al_slots al' = insert (a, s) (al_slots al)"
    "DeleteSlot al' a s = Inr (al\<lparr>addresses := (addresses al)(a \<mapsto> -1)\<rparr>)"
proof -
  let ?n = "int (length (slots al))"
  have al': "al' = al\<lparr>addresses := (addresses al)(a \<mapsto> ?n), slots := slots al @ [{s}]\<rparr>"
    and ch: "ch = (addresses al a = None, True)"
    using r new by (auto simp: AddSlot_def Let_def)
  have lt: "addresses al b = Some i \<Longrightarrow> i < ?n" for b i
  proof -
    assume "addresses al b = Some i"
    then have "i = -1 \<or> i < int (length (slots al))"
      using ok by (auto simp: al_ok_def)
    then show "i < ?n" by linarith
  qed
  show "ch = (a \<notin> al_addrs al, True)"
    by (auto simp: ch al_addrs_def)
  show "al_ok al'"
    unfolding al_ok_def
  proof (intro conjI allI impI)
    show "i = -1 \<or> (0 \<le> i \<and> i < int (length (slots al')))" if "addresses al' b = Some i" for b i
      using that ok by (fastforce simp: al' al_ok_def split: if_splits)
    show "b = c" if "addresses al' b = Some i" "addresses al' c = Some i" "i \<noteq> -1" for b c i
      using that ok lt [of b i] lt [of c i] by (auto simp: al' al_ok_def split: if_splits)
    show "{} \<notin> set (slots al')"
      using ok by (simp add: al' al_ok_def)
  qed
  show "al_addrs al' = insert a (al_addrs al)"
    by (auto simp: al' al_addrs_def)
  show "al_slots al' = insert (a, s) (al_slots al)"
  proof (intro set_eqI, clarify)
    fix x t
    show "(x, t) \<in> al_slots al' \<longleftrightarrow> (x, t) \<in> insert (a, s) (al_slots al)"
    proof (cases "x = a")
      case True
      then show ?thesis using new by (auto simp: al' al_slots_def)
    next
      case False
      then show ?thesis using lt [of x] by (auto simp: al' al_slots_def nth_append)
    qed
  qed
  show "DeleteSlot al' a s = Inr (al\<lparr>addresses := (addresses al)(a \<mapsto> -1)\<rparr>)"
    by (simp add: al' DeleteSlot_def go_index_def Let_def nth_append)
qed

lemma AddSlot_old:
  assumes ok: "al_ok al" and old: "addresses al a = Some i" "i \<noteq> -1"
    and r: "AddSlot al a s = Inr (ch, al')"
  shows "ch = (False, (a, s) \<notin> al_slots al)" "al_ok al'" "al_addrs al' = al_addrs al"
    "al_slots al' = insert (a, s) (al_slots al)" "(a, s) \<in> al_slots al \<Longrightarrow> al' = al"
    "(a, s) \<notin> al_slots al \<Longrightarrow> DeleteSlot al' a s = Inr al"
proof -
  obtain n where n: "i = int n" "n < length (slots al)" "go_index (slots al) i = Inr (slots al ! n)"
    "slots al ! n \<noteq> {}"
    using al_ok_index [OF ok old] by metis
  have mem: "(a, s) \<in> al_slots al \<longleftrightarrow> s \<in> slots al ! n"
    using old n by (auto simp: al_slots_def)
  have r': "(ch, al') = (if s \<notin> slots al ! n
      then ((False, True), al\<lparr>slots := (slots al)[n := insert s (slots al ! n)]\<rparr>)
      else ((False, False), al))"
    using r old n by (auto simp: AddSlot_def Let_def split: if_splits)
  show "ch = (False, (a, s) \<notin> al_slots al)"
    using r' mem by (auto split: if_splits)
  have inj: "addresses al b = Some (int n) \<Longrightarrow> b = a" for b
    using ok old n by (auto simp: al_ok_def)
  show "al_ok al'"
    using r' ok set_update_subset_insert [of "slots al" n "insert s (slots al ! n)"]
    by (auto simp: al_ok_def split: if_splits)
  show "al_addrs al' = al_addrs al"
    using r' by (auto simp: al_addrs_def split: if_splits)
  show "al_slots al' = insert (a, s) (al_slots al)"
  proof (cases "s \<in> slots al ! n")
    case True
    then show ?thesis using r' mem by auto
  next
    case False
    then have al': "al' = al\<lparr>slots := (slots al)[n := insert s (slots al ! n)]\<rparr>"
      using r' by simp
    show ?thesis
    proof (intro set_eqI, clarify)
      fix x t
      show "(x, t) \<in> al_slots al' \<longleftrightarrow> (x, t) \<in> insert (a, s) (al_slots al)"
      proof (cases "x = a")
        case True
        then show ?thesis using n old by (auto simp: al' al_slots_def)
      next
        case False
        then have "addresses al x \<noteq> Some (int n)"
          using inj by blast
        then show ?thesis using False by (auto simp: al' al_slots_def nth_list_update)
      qed
    qed
  qed
  show "al' = al" if "(a, s) \<in> al_slots al"
    using r' mem that by (auto split: if_splits)
  show "DeleteSlot al' a s = Inr al" if "(a, s) \<notin> al_slots al"
    using r' mem that n old by (auto simp: DeleteSlot_def go_index_def Let_def split: if_splits)
qed

lemma AddSlot_total:
  assumes "al_ok al"
  shows "\<exists>ch al'. AddSlot al a s = Inr (ch, al')"
proof (cases "addresses al a = None \<or> addresses al a = Some (-1)")
  case True
  then show ?thesis by (auto simp: AddSlot_def)
next
  case False
  then obtain i where i: "addresses al a = Some i" "i \<noteq> -1" by auto
  then obtain n where "go_index (slots al) i = Inr (slots al ! n)"
    using al_ok_index [OF assms i] by metis
  then show ?thesis
    using i by (cases "s \<in> slots al ! n") (auto simp: AddSlot_def Let_def)
qed

section \<open>The interface of an access list\<close>

text \<open>What the state relies on: the list behaves as a set of addresses and a set of slots,
  and deleting what was just added gives back the list before the addition.\<close>

locale access_set =
  fixes ok :: "'l \<Rightarrow> bool" and addrs :: "'l \<Rightarrow> address set" and slts :: "'l \<Rightarrow> (address \<times> hash) set"
    and addA :: "'l \<Rightarrow> address \<Rightarrow> bool \<times> 'l" and delA :: "'l \<Rightarrow> address \<Rightarrow> 'l"
    and addS :: "'l \<Rightarrow> address \<Rightarrow> hash \<Rightarrow> ((bool \<times> bool) \<times> 'l) go"
    and delS :: "'l \<Rightarrow> address \<Rightarrow> hash \<Rightarrow> 'l go"
  assumes addA: "ok l \<Longrightarrow> addA l a = (new, l') \<Longrightarrow>
      new = (a \<notin> addrs l) \<and> ok l' \<and> addrs l' = insert a (addrs l) \<and> slts l' = slts l \<and>
      (if new then delA l' a = l else l' = l)"
    and addS: "ok l \<Longrightarrow> \<exists>nA nS l'. addS l a s = Inr ((nA, nS), l') \<and>
      nA = (a \<notin> addrs l) \<and> nS = ((a, s) \<notin> slts l) \<and> ok l' \<and>
      addrs l' = insert a (addrs l) \<and> slts l' = insert (a, s) (slts l) \<and>
      (if nS then \<exists>l1. delS l' a s = Inr l1 \<and> (if nA then delA l1 a = l else l1 = l) else l' = l)"
begin

lemma addA_twice: "ok l \<Longrightarrow> addA l a = (new, l') \<Longrightarrow> addA l' a = (new', l'') \<Longrightarrow> \<not> new' \<and> l'' = l'"
  using addA [of l a new l'] addA [of l' a new' l''] by (auto split: if_splits)

lemma addS_known:
  assumes "ok l" "a \<in> addrs l"
  shows "\<exists>nS l'. addS l a s = Inr ((False, nS), l') \<and> ok l' \<and> (if nS then delS l' a s = Inr l else l' = l)"
proof -
  obtain nA nS l' where r: "addS l a s = Inr ((nA, nS), l')" "nA = (a \<notin> addrs l)" "ok l'"
    and u: "if nS then \<exists>l1. delS l' a s = Inr l1 \<and> (if nA then delA l1 a = l else l1 = l) else l' = l"
    using addS [OF assms(1), of a s] by blast
  then show ?thesis
    using assms(2) by (cases nS) auto
qed

lemma addS_undo:
  assumes "ok l" "addS l a s = Inr ((nA, nS), l')"
  shows "(if nS then andThen (delS l' a s) (\<lambda>l1. Inr (if nA then delA l1 a else l1)) else Inr l') = Inr l"
  using addS [OF assms(1), of a s] assms(2) by (auto split: if_splits)

end

lemma slots_addrs: "(a, s) \<in> al_slots al \<Longrightarrow> a \<in> al_addrs al"
  by (auto simp: al_slots_def al_addrs_def)

lemma AddSlot_undo:
  assumes ok: "al_ok al"
  shows "\<exists>nA nS al'. AddSlot al a s = Inr ((nA, nS), al') \<and>
      nA = (a \<notin> al_addrs al) \<and> nS = ((a, s) \<notin> al_slots al) \<and> al_ok al' \<and>
      al_addrs al' = insert a (al_addrs al) \<and> al_slots al' = insert (a, s) (al_slots al) \<and>
      (if nS then \<exists>l1. DeleteSlot al' a s = Inr l1 \<and> (if nA then DeleteAddress l1 a = al else l1 = al)
       else al' = al)"
proof -
  obtain ch al' where r: "AddSlot al a s = Inr (ch, al')"
    using AddSlot_total [OF ok] by blast
  show ?thesis
  proof (cases "addresses al a = None \<or> addresses al a = Some (-1)")
    case True
    have "(a, s) \<notin> al_slots al"
      using True by (auto simp: al_slots_def)
    moreover have "DeleteAddress (al\<lparr>addresses := (addresses al)(a \<mapsto> -1)\<rparr>) a = al" if "a \<notin> al_addrs al"
      using that by (auto simp: DeleteAddress_def al_addrs_def fun_upd_idem)
    moreover have "al\<lparr>addresses := (addresses al)(a \<mapsto> -1)\<rparr> = al" if "a \<in> al_addrs al"
      using that True by (auto simp: al_addrs_def fun_upd_idem)
    ultimately show ?thesis
      using r AddSlot_new [OF ok True r] by auto
  next
    case False
    then obtain i where i: "addresses al a = Some i" "i \<noteq> -1"
      by auto
    then have "a \<in> al_addrs al"
      by (auto simp: al_addrs_def)
    then show ?thesis
      using r AddSlot_old [OF ok i r] by (cases "(a, s) \<in> al_slots al") auto
  qed
qed

lemma AddAddress_undo:
  assumes "al_ok al" "AddAddress al a = (new, al')"
  shows "new = (a \<notin> al_addrs al) \<and> al_ok al' \<and> al_addrs al' = insert a (al_addrs al) \<and>
    al_slots al' = al_slots al \<and> (if new then DeleteAddress al' a = al else al' = al)"
proof (cases "addresses al a")
  case None
  then have "(addresses al)(a := None) = addresses al"
    by (rule fun_upd_idem)
  then show ?thesis
    using None assms AddAddress_spec [OF assms(1), of a] by (auto simp: AddAddress_def DeleteAddress_def)
next
  case (Some i)
  then show ?thesis
    using assms AddAddress_spec [OF assms(1), of a] by (auto simp: AddAddress_def)
qed

interpretation acl: access_set al_ok al_addrs al_slots AddAddress DeleteAddress AddSlot DeleteSlot
  by unfold_locales (rule AddAddress_undo AddSlot_undo; assumption)+

section \<open>Properties\<close>



end
