(* ===== verification/State_DB.thy ===== *)
theory State_DB
  imports Rlp_Codec State_Access
begin

text \<open>
  The world state of \<open>core/state\<close>: state objects (\<open>state_object.go\<close>), the journal of
  undoable changes (\<open>journal.go\<close>) and \<open>StateDB\<close> (\<open>statedb.go\<close>).

  \<^item> A Go map is a function to \<open>option\<close>; a map used as a set is a set.
  \<^item> A \<open>*stateObject\<close> is a value stored in \<open>stateObjects\<close> under its address. The methods of
    an object take the object and the state and return both, and the caller stores the
    object back, which is what a write through the pointer does.
  \<^item> Reads memoise what they load, so they return the state too.
  \<^item> The database below the state is the record \<open>database\<close>, with the account trie and a
    storage trie reduced to the function they are read by. The trie prefetcher, which
    only warms caches, and the time measurements are left out.
\<close>

section \<open>The database interface\<close>

type_synonym dberror = string

record StateAccount =
  acct_Nonce :: uint64
  acct_Balance :: int
  acct_Root :: hash
  acct_CodeHash :: bytes

record SlimAccount =
  slim_Nonce :: uint64
  slim_Balance :: int
  slim_Root :: bytes
  slim_CodeHash :: bytes

type_synonym account_trie = "address \<Rightarrow> dberror + StateAccount option"
type_synonym storage_trie = "hash \<Rightarrow> dberror + bytes"

record database =
  Keccak256Hash :: "bytes \<Rightarrow> hash"
  OpenStorageTrie :: "hash \<Rightarrow> address \<Rightarrow> hash \<Rightarrow> dberror + storage_trie"
  ContractCode :: "address \<Rightarrow> hash \<Rightarrow> dberror + bytes"

definition ContractCodeSize :: "database \<Rightarrow> address \<Rightarrow> hash \<Rightarrow> dberror + nat" where
  "ContractCodeSize d a h = map_sum id length (ContractCode d a h)"

record snapshotReader =
  snap_Account :: "hash \<Rightarrow> dberror + SlimAccount option"
  snap_Storage :: "hash \<Rightarrow> hash \<Rightarrow> dberror + bytes"

definition EmptyRootHash :: hash where
  "EmptyRootHash = 0x56e81f171bcc55a6ff8345e692c0f86e5b48e01b996cadc001622fb5e363b421"

definition EmptyCodeHash :: "database \<Rightarrow> hash" where
  "EmptyCodeHash d = Keccak256Hash d []"

definition NewEmptyStateAccount :: "database \<Rightarrow> StateAccount" where
  "NewEmptyStateAccount d =
     \<lparr>acct_Nonce = 0, acct_Balance = 0, acct_Root = EmptyRootHash,
      acct_CodeHash = HashBytes (EmptyCodeHash d)\<rparr>"

section \<open>Objects, journal and state\<close>

type_synonym storage = "hash \<Rightarrow> hash option"

record stateObject =
  so_address :: address
  so_addrHash :: hash
  so_origin :: "StateAccount option"
  so_data :: StateAccount
  so_trie :: "storage_trie option"
  so_code :: bytes
  originStorage :: storage
  pendingStorage :: storage
  dirtyStorage :: storage
  dirtyCode :: bool
  so_deleted :: bool
  so_created :: bool

datatype journalEntry =
    createObjectChange address
  | resetObjectChange address stateObject bool bytes "(hash \<Rightarrow> bytes option) option" bool bytes
      "(hash \<Rightarrow> bytes option) option"
  | balanceChange address int
  | nonceChange address uint64
  | storageChange address hash hash
  | codeChange address bytes bytes
  | refundChange uint64
  | addLogChange hash
  | addPreimageChange hash
  | touchChange address
  | accessListAddAccountChange address
  | accessListAddSlotChange address hash

record journal =
  entries :: "journalEntry list"
  dirties :: "address \<Rightarrow> int option"

record zlog =
  log_Address :: address
  log_Topics :: "hash list"
  log_Data :: bytes
  log_BlockNumber :: uint64
  log_TxHash :: hash
  log_TxIndex :: int
  log_BlockHash :: hash
  log_Index :: nat

record revision =
  rev_id :: nat
  journalIndex :: nat

record statedb =
  db :: database
  acct_trie :: account_trie
  snap :: "snapshotReader option"
  originalRoot :: hash
  accounts :: "hash \<Rightarrow> bytes option"
  storages :: "hash \<Rightarrow> (hash \<Rightarrow> bytes option) option"
  accountsOrigin :: "address \<Rightarrow> bytes option"
  storagesOrigin :: "address \<Rightarrow> (hash \<Rightarrow> bytes option) option"
  stateObjects :: "address \<Rightarrow> stateObject option"
  stateObjectsPending :: "address set"
  stateObjectsDirty :: "address set"
  stateObjectsDestruct :: "address \<Rightarrow> StateAccount option option"
  dbErr :: "dberror option"
  refund :: uint64
  thash :: hash
  txIndex :: int
  logs :: "hash \<Rightarrow> zlog list option"
  logSize :: nat
  preimages :: "hash \<Rightarrow> bytes option"
  accessL :: accessList
  journ :: journal
  validRevisions :: "revision list"
  nextRevisionId :: nat

definition newJournal :: journal where
  "newJournal = \<lparr>entries = [], dirties = Map.empty\<rparr>"

definition New :: "hash \<Rightarrow> database \<Rightarrow> account_trie \<Rightarrow> snapshotReader option \<Rightarrow> statedb" where
  "New root d tr sn =
     \<lparr>db = d, acct_trie = tr, snap = sn, originalRoot = root, accounts = Map.empty,
      storages = Map.empty, accountsOrigin = Map.empty, storagesOrigin = Map.empty,
      stateObjects = Map.empty, stateObjectsPending = {}, stateObjectsDirty = {},
      stateObjectsDestruct = Map.empty, dbErr = None, refund = 0, thash = 0, txIndex = 0,
      logs = Map.empty, logSize = 0, preimages = Map.empty, accessL = newAccessList,
      journ = newJournal, validRevisions = [], nextRevisionId = 0\<rparr>"

definition setError :: "dberror \<Rightarrow> statedb \<Rightarrow> statedb" where
  "setError e s = (case dbErr s of None \<Rightarrow> s\<lparr>dbErr := Some e\<rparr> | Some _ \<Rightarrow> s)"

fun dirtied :: "journalEntry \<Rightarrow> address option" where
  "dirtied (createObjectChange a) = Some a"
| "dirtied (resetObjectChange a _ _ _ _ _ _ _) = Some a"
| "dirtied (balanceChange a _) = Some a"
| "dirtied (nonceChange a _) = Some a"
| "dirtied (storageChange a _ _) = Some a"
| "dirtied (codeChange a _ _) = Some a"
| "dirtied (refundChange _) = None"
| "dirtied (addLogChange _) = None"
| "dirtied (addPreimageChange _) = None"
| "dirtied (touchChange a) = Some a"
| "dirtied (accessListAddAccountChange _) = None"
| "dirtied (accessListAddSlotChange _ _) = None"

text \<open>\<open>dirties[a]\<close> of a Go map: 0 when the key is absent.\<close>

definition dirty_count :: "journal \<Rightarrow> address \<Rightarrow> int" where
  "dirty_count j a = (case dirties j a of None \<Rightarrow> 0 | Some n \<Rightarrow> n)"

definition journal_append :: "journalEntry \<Rightarrow> journal \<Rightarrow> journal" where
  "journal_append e j =
     (let j = j\<lparr>entries := entries j @ [e]\<rparr> in
      case dirtied e of
        None \<Rightarrow> j
      | Some a \<Rightarrow> j\<lparr>dirties := (dirties j)(a \<mapsto> dirty_count j a + 1)\<rparr>)"

definition addEntry :: "journalEntry \<Rightarrow> statedb \<Rightarrow> statedb" where
  "addEntry e s = s\<lparr>journ := journal_append e (journ s)\<rparr>"

section \<open>State objects\<close>

definition so_empty :: "statedb \<Rightarrow> stateObject \<Rightarrow> bool" where
  "so_empty s ob \<longleftrightarrow>
     acct_Nonce (so_data ob) = 0 \<and> acct_Balance (so_data ob) = 0 \<and>
     acct_CodeHash (so_data ob) = HashBytes (EmptyCodeHash (db s))"

definition newObject :: "statedb \<Rightarrow> address \<Rightarrow> StateAccount option \<Rightarrow> stateObject" where
  "newObject s a acct =
     \<lparr>so_address = a, so_addrHash = Keccak256Hash (db s) (AddressBytes a), so_origin = acct,
      so_data = (case acct of None \<Rightarrow> NewEmptyStateAccount (db s) | Some d \<Rightarrow> d),
      so_trie = None, so_code = [], originStorage = Map.empty, pendingStorage = Map.empty,
      dirtyStorage = Map.empty, dirtyCode = False, so_deleted = False, so_created = False\<rparr>"

definition setStateObject :: "stateObject \<Rightarrow> statedb \<Rightarrow> statedb" where
  "setStateObject ob s = s\<lparr>stateObjects := (stateObjects s)(so_address ob \<mapsto> ob)\<rparr>"

definition touch :: "stateObject \<Rightarrow> statedb \<Rightarrow> statedb" where
  "touch ob s = addEntry (touchChange (so_address ob)) s"

definition getTrie :: "stateObject \<Rightarrow> statedb \<Rightarrow> dberror + (storage_trie \<times> stateObject)" where
  "getTrie ob s =
     (case so_trie ob of
        Some tr \<Rightarrow> Inr (tr, ob)
      | None \<Rightarrow>
          (case OpenStorageTrie (db s) (originalRoot s) (so_address ob) (acct_Root (so_data ob)) of
             Inl e \<Rightarrow> Inl e
           | Inr tr \<Rightarrow> Inr (tr, ob\<lparr>so_trie := Some tr\<rparr>)))"

text \<open>The storage read of the database, taken when no cache of the object has the slot.\<close>

definition load_from_trie :: "stateObject \<Rightarrow> hash \<Rightarrow> statedb \<Rightarrow> hash \<times> stateObject \<times> statedb" where
  "load_from_trie ob key s =
     (case getTrie ob s of
        Inl e \<Rightarrow> (0, ob, setError e s)
      | Inr (tr, ob) \<Rightarrow>
          (case tr key of
             Inl e \<Rightarrow> (0, ob, setError e s)
           | Inr val \<Rightarrow>
               let value = BytesToHash val
               in (value, ob\<lparr>originStorage := (originStorage ob)(key \<mapsto> value)\<rparr>, s)))"

definition so_GetCommittedState :: "stateObject \<Rightarrow> hash \<Rightarrow> statedb \<Rightarrow> hash \<times> stateObject \<times> statedb" where
  "so_GetCommittedState ob key s =
     (case pendingStorage ob key of
        Some value \<Rightarrow> (value, ob, s)
      | None \<Rightarrow>
     (case originStorage ob key of
        Some value \<Rightarrow> (value, ob, s)
      | None \<Rightarrow>
     if stateObjectsDestruct s (so_address ob) \<noteq> None then (0, ob, s)
     else
     (case snap s of
        None \<Rightarrow> load_from_trie ob key s
      | Some sn \<Rightarrow>
          (case snap_Storage sn (so_addrHash ob) (Keccak256Hash (db s) (HashBytes key)) of
             Inl e \<Rightarrow> load_from_trie ob key s
           | Inr encd \<Rightarrow>
               let (content, s) =
                     (if encd = [] then ([], s)
                      else case Split_content encd of
                             Inl e \<Rightarrow> ([], setError ''rlp'' s)
                           | Inr c \<Rightarrow> (c, s));
                   value = BytesToHash content
               in (value, ob\<lparr>originStorage := (originStorage ob)(key \<mapsto> value)\<rparr>, s)))))"

definition so_GetState :: "stateObject \<Rightarrow> hash \<Rightarrow> statedb \<Rightarrow> hash \<times> stateObject \<times> statedb" where
  "so_GetState ob key s =
     (case dirtyStorage ob key of
        Some value \<Rightarrow> (value, ob, s)
      | None \<Rightarrow> so_GetCommittedState ob key s)"

definition so_setState :: "hash \<Rightarrow> hash \<Rightarrow> stateObject \<Rightarrow> stateObject" where
  "so_setState key value ob = ob\<lparr>dirtyStorage := (dirtyStorage ob)(key \<mapsto> value)\<rparr>"

definition so_SetState :: "hash \<Rightarrow> hash \<Rightarrow> stateObject \<Rightarrow> statedb \<Rightarrow> stateObject \<times> statedb" where
  "so_SetState key value ob s =
     (let (prev, ob, s) = so_GetState ob key s in
      if prev = value then (ob, s)
      else (so_setState key value ob, addEntry (storageChange (so_address ob) key prev) s))"

definition so_setBalance :: "int \<Rightarrow> stateObject \<Rightarrow> stateObject" where
  "so_setBalance amount ob = ob\<lparr>so_data := (so_data ob)\<lparr>acct_Balance := amount\<rparr>\<rparr>"

definition so_SetBalance :: "int \<Rightarrow> stateObject \<Rightarrow> statedb \<Rightarrow> stateObject \<times> statedb" where
  "so_SetBalance amount ob s =
     (so_setBalance amount ob,
      addEntry (balanceChange (so_address ob) (acct_Balance (so_data ob))) s)"

definition so_AddBalance :: "int \<Rightarrow> stateObject \<Rightarrow> statedb \<Rightarrow> stateObject \<times> statedb" where
  "so_AddBalance amount ob s =
     (if amount = 0 then (ob, if so_empty s ob then touch ob s else s)
      else so_SetBalance (acct_Balance (so_data ob) + amount) ob s)"

definition so_SubBalance :: "int \<Rightarrow> stateObject \<Rightarrow> statedb \<Rightarrow> stateObject \<times> statedb" where
  "so_SubBalance amount ob s =
     (if amount = 0 then (ob, s) else so_SetBalance (acct_Balance (so_data ob) - amount) ob s)"

definition so_Code :: "stateObject \<Rightarrow> statedb \<Rightarrow> bytes \<times> stateObject \<times> statedb" where
  "so_Code ob s =
     (if so_code ob \<noteq> [] then (so_code ob, ob, s)
      else if acct_CodeHash (so_data ob) = HashBytes (EmptyCodeHash (db s)) then ([], ob, s)
      else (case ContractCode (db s) (so_address ob) (BytesToHash (acct_CodeHash (so_data ob))) of
              Inl e \<Rightarrow> ([], ob\<lparr>so_code := []\<rparr>, setError e s)
            | Inr c \<Rightarrow> (c, ob\<lparr>so_code := c\<rparr>, s)))"

definition so_CodeSize :: "stateObject \<Rightarrow> statedb \<Rightarrow> nat \<times> statedb" where
  "so_CodeSize ob s =
     (if so_code ob \<noteq> [] then (length (so_code ob), s)
      else if acct_CodeHash (so_data ob) = HashBytes (EmptyCodeHash (db s)) then (0, s)
      else (case ContractCodeSize (db s) (so_address ob) (BytesToHash (acct_CodeHash (so_data ob))) of
              Inl e \<Rightarrow> (0, setError e s)
            | Inr n \<Rightarrow> (n, s)))"

definition so_setCode :: "hash \<Rightarrow> bytes \<Rightarrow> stateObject \<Rightarrow> stateObject" where
  "so_setCode h code ob =
     ob\<lparr>so_code := code, so_data := (so_data ob)\<lparr>acct_CodeHash := HashBytes h\<rparr>, dirtyCode := True\<rparr>"

definition so_SetCode :: "hash \<Rightarrow> bytes \<Rightarrow> stateObject \<Rightarrow> statedb \<Rightarrow> stateObject \<times> statedb" where
  "so_SetCode h code ob s =
     (let (prevcode, ob, s) = so_Code ob s in
      (so_setCode h code ob,
       addEntry (codeChange (so_address ob) prevcode (acct_CodeHash (so_data ob))) s))"

definition so_setNonce :: "uint64 \<Rightarrow> stateObject \<Rightarrow> stateObject" where
  "so_setNonce nonce ob = ob\<lparr>so_data := (so_data ob)\<lparr>acct_Nonce := nonce\<rparr>\<rparr>"

definition so_SetNonce :: "uint64 \<Rightarrow> stateObject \<Rightarrow> statedb \<Rightarrow> stateObject \<times> statedb" where
  "so_SetNonce nonce ob s =
     (so_setNonce nonce ob, addEntry (nonceChange (so_address ob) (acct_Nonce (so_data ob))) s)"

definition so_finalise :: "stateObject \<Rightarrow> stateObject" where
  "so_finalise ob =
     ob\<lparr>pendingStorage := pendingStorage ob ++ dirtyStorage ob, dirtyStorage := Map.empty\<rparr>"

definition so_deepCopy :: "stateObject \<Rightarrow> stateObject" where
  "so_deepCopy ob = ob\<lparr>so_created := False\<rparr>"

section \<open>StateDB\<close>

text \<open>The account data of an address that is not live, from the snapshot or the account trie.\<close>

definition slimToAccount :: "statedb \<Rightarrow> SlimAccount \<Rightarrow> StateAccount" where
  "slimToAccount s sl =
     \<lparr>acct_Nonce = slim_Nonce sl, acct_Balance = slim_Balance sl,
      acct_Root = (if BytesToHash (slim_Root sl) = 0 then EmptyRootHash
                   else BytesToHash (slim_Root sl)),
      acct_CodeHash = (if slim_CodeHash sl = [] then HashBytes (EmptyCodeHash (db s))
                       else slim_CodeHash sl)\<rparr>"

definition readAccount :: "statedb \<Rightarrow> address \<Rightarrow> dberror + StateAccount option" where
  "readAccount s a =
     (case snap s of
        None \<Rightarrow> acct_trie s a
      | Some sn \<Rightarrow>
          (case snap_Account sn (Keccak256Hash (db s) (AddressBytes a)) of
             Inl _ \<Rightarrow> acct_trie s a
           | Inr acc \<Rightarrow> Inr (map_option (slimToAccount s) acc)))"

definition getDeletedStateObject :: "address \<Rightarrow> statedb \<Rightarrow> stateObject option \<times> statedb" where
  "getDeletedStateObject a s =
     (case stateObjects s a of
        Some ob \<Rightarrow> (Some ob, s)
      | None \<Rightarrow>
          (case readAccount s a of
             Inl e \<Rightarrow> (None, setError e s)
           | Inr None \<Rightarrow> (None, s)
           | Inr (Some d) \<Rightarrow>
               let ob = newObject s a (Some d) in (Some ob, setStateObject ob s)))"

definition getStateObject :: "address \<Rightarrow> statedb \<Rightarrow> stateObject option \<times> statedb" where
  "getStateObject a s =
     (case getDeletedStateObject a s of
        (Some ob, s) \<Rightarrow> (if so_deleted ob then None else Some ob, s)
      | (None, s) \<Rightarrow> (None, s))"

definition createObject :: "address \<Rightarrow> statedb \<Rightarrow> (stateObject \<times> stateObject option) \<times> statedb" where
  "createObject a s =
     (let (prev, s) = getDeletedStateObject a s;
          newobj = newObject s a None;
          s = (case prev of
                 None \<Rightarrow> addEntry (createObjectChange a) s
               | Some p \<Rightarrow>
                   let prevdestruct = (stateObjectsDestruct s (so_address p) \<noteq> None);
                       s = (if prevdestruct then s
                            else s\<lparr>stateObjectsDestruct :=
                                     (stateObjectsDestruct s)(so_address p \<mapsto> so_origin p)\<rparr>);
                       ok = (accountsOrigin s (so_address p) \<noteq> None);
                       prevAccount = (case accountsOrigin s (so_address p) of None \<Rightarrow> [] | Some b \<Rightarrow> b);
                       s = addEntry (resetObjectChange a p prevdestruct
                             (case accounts s (so_addrHash p) of None \<Rightarrow> [] | Some b \<Rightarrow> b)
                             (storages s (so_addrHash p)) ok prevAccount
                             (storagesOrigin s (so_address p))) s
                   in s\<lparr>accounts := (accounts s)(so_addrHash p := None),
                        storages := (storages s)(so_addrHash p := None),
                        accountsOrigin := (accountsOrigin s)(so_address p := None),
                        storagesOrigin := (storagesOrigin s)(so_address p := None)\<rparr>);
          newobj = newobj\<lparr>so_created := True\<rparr>;
          s = setStateObject newobj s
      in (case prev of
            Some p \<Rightarrow> if so_deleted p then ((newobj, None), s) else ((newobj, Some p), s)
          | None \<Rightarrow> ((newobj, None), s)))"

definition GetOrNewStateObject :: "address \<Rightarrow> statedb \<Rightarrow> stateObject \<times> statedb" where
  "GetOrNewStateObject a s =
     (case getStateObject a s of
        (Some ob, s) \<Rightarrow> (ob, s)
      | (None, s) \<Rightarrow> (case createObject a s of ((ob, _), s) \<Rightarrow> (ob, s)))"

definition CreateAccount :: "address \<Rightarrow> statedb \<Rightarrow> statedb" where
  "CreateAccount a s =
     (case createObject a s of
        ((newObj, Some p), s) \<Rightarrow>
          setStateObject (so_setBalance (acct_Balance (so_data p)) newObj) s
      | ((newObj, None), s) \<Rightarrow> s)"

text \<open>A method of an object run on the object of an address.\<close>

definition withObject ::
  "address \<Rightarrow> (stateObject \<Rightarrow> statedb \<Rightarrow> stateObject \<times> statedb) \<Rightarrow> statedb \<Rightarrow> statedb" where
  "withObject a f s =
     (case GetOrNewStateObject a s of (ob, s) \<Rightarrow> (case f ob s of (ob, s) \<Rightarrow> setStateObject ob s))"

definition AddBalance :: "address \<Rightarrow> int \<Rightarrow> statedb \<Rightarrow> statedb" where
  "AddBalance a amount = withObject a (so_AddBalance amount)"

definition SubBalance :: "address \<Rightarrow> int \<Rightarrow> statedb \<Rightarrow> statedb" where
  "SubBalance a amount = withObject a (so_SubBalance amount)"

definition SetBalance :: "address \<Rightarrow> int \<Rightarrow> statedb \<Rightarrow> statedb" where
  "SetBalance a amount = withObject a (so_SetBalance amount)"

definition SetNonce :: "address \<Rightarrow> uint64 \<Rightarrow> statedb \<Rightarrow> statedb" where
  "SetNonce a nonce = withObject a (so_SetNonce nonce)"

definition SetCode :: "address \<Rightarrow> bytes \<Rightarrow> statedb \<Rightarrow> statedb" where
  "SetCode a code s = withObject a (so_SetCode (Keccak256Hash (db s) code) code) s"

definition SetState :: "address \<Rightarrow> hash \<Rightarrow> hash \<Rightarrow> statedb \<Rightarrow> statedb" where
  "SetState a key value = withObject a (so_SetState key value)"

text \<open>Reads.\<close>

definition Exist :: "address \<Rightarrow> statedb \<Rightarrow> bool \<times> statedb" where
  "Exist a s = (case getStateObject a s of (ob, s) \<Rightarrow> (ob \<noteq> None, s))"

definition Empty :: "address \<Rightarrow> statedb \<Rightarrow> bool \<times> statedb" where
  "Empty a s =
     (case getStateObject a s of (None, s) \<Rightarrow> (True, s) | (Some ob, s) \<Rightarrow> (so_empty s ob, s))"

definition GetBalance :: "address \<Rightarrow> statedb \<Rightarrow> int \<times> statedb" where
  "GetBalance a s =
     (case getStateObject a s of
        (None, s) \<Rightarrow> (0, s) | (Some ob, s) \<Rightarrow> (acct_Balance (so_data ob), s))"

definition GetNonce :: "address \<Rightarrow> statedb \<Rightarrow> uint64 \<times> statedb" where
  "GetNonce a s =
     (case getStateObject a s of
        (None, s) \<Rightarrow> (0, s) | (Some ob, s) \<Rightarrow> (acct_Nonce (so_data ob), s))"

definition GetStorageRoot :: "address \<Rightarrow> statedb \<Rightarrow> hash \<times> statedb" where
  "GetStorageRoot a s =
     (case getStateObject a s of
        (None, s) \<Rightarrow> (0, s) | (Some ob, s) \<Rightarrow> (acct_Root (so_data ob), s))"

definition GetCode :: "address \<Rightarrow> statedb \<Rightarrow> bytes \<times> statedb" where
  "GetCode a s =
     (case getStateObject a s of
        (None, s) \<Rightarrow> ([], s)
      | (Some ob, s) \<Rightarrow> (case so_Code ob s of (c, ob, s) \<Rightarrow> (c, setStateObject ob s)))"

definition GetCodeSize :: "address \<Rightarrow> statedb \<Rightarrow> nat \<times> statedb" where
  "GetCodeSize a s =
     (case getStateObject a s of (None, s) \<Rightarrow> (0, s) | (Some ob, s) \<Rightarrow> so_CodeSize ob s)"

definition GetCodeHash :: "address \<Rightarrow> statedb \<Rightarrow> hash \<times> statedb" where
  "GetCodeHash a s =
     (case getStateObject a s of
        (None, s) \<Rightarrow> (0, s) | (Some ob, s) \<Rightarrow> (BytesToHash (acct_CodeHash (so_data ob)), s))"

definition GetState :: "address \<Rightarrow> hash \<Rightarrow> statedb \<Rightarrow> hash \<times> statedb" where
  "GetState a key s =
     (case getStateObject a s of
        (None, s) \<Rightarrow> (0, s)
      | (Some ob, s) \<Rightarrow> (case so_GetState ob key s of (v, ob, s) \<Rightarrow> (v, setStateObject ob s)))"

definition GetCommittedState :: "address \<Rightarrow> hash \<Rightarrow> statedb \<Rightarrow> hash \<times> statedb" where
  "GetCommittedState a key s =
     (case getStateObject a s of
        (None, s) \<Rightarrow> (0, s)
      | (Some ob, s) \<Rightarrow>
          (case so_GetCommittedState ob key s of (v, ob, s) \<Rightarrow> (v, setStateObject ob s)))"

text \<open>Logs, preimages, refunds and the access list.\<close>

definition AddLog :: "zlog \<Rightarrow> statedb \<Rightarrow> statedb" where
  "AddLog l s =
     (let s = addEntry (addLogChange (thash s)) s;
          l = l\<lparr>log_TxHash := thash s, log_TxIndex := txIndex s, log_Index := logSize s\<rparr>;
          old = (case logs s (thash s) of None \<Rightarrow> [] | Some ls \<Rightarrow> ls)
      in s\<lparr>logs := (logs s)(thash s \<mapsto> old @ [l]), logSize := logSize s + 1\<rparr>)"

definition AddPreimage :: "hash \<Rightarrow> bytes \<Rightarrow> statedb \<Rightarrow> statedb" where
  "AddPreimage h preimage s =
     (if preimages s h = None then
        (addEntry (addPreimageChange h) s)\<lparr>preimages := (preimages s)(h \<mapsto> preimage)\<rparr>
      else s)"

definition AddRefund :: "uint64 \<Rightarrow> statedb \<Rightarrow> statedb" where
  "AddRefund gas s = (addEntry (refundChange (refund s)) s)\<lparr>refund := refund s + gas\<rparr>"

definition SubRefund :: "uint64 \<Rightarrow> statedb \<Rightarrow> statedb go" where
  "SubRefund gas s =
     (let s = addEntry (refundChange (refund s)) s in
      if refund s < gas then Inl (PanicMsg ''Refund counter below zero'')
      else Inr (s\<lparr>refund := refund s - gas\<rparr>))"

definition AddAddressToAccessList :: "address \<Rightarrow> statedb \<Rightarrow> statedb" where
  "AddAddressToAccessList a s =
     (case AddAddress (accessL s) a of
        (added, al) \<Rightarrow>
          let s = s\<lparr>accessL := al\<rparr>
          in if added then addEntry (accessListAddAccountChange a) s else s)"

definition AddSlotToAccessList :: "address \<Rightarrow> hash \<Rightarrow> statedb \<Rightarrow> statedb go" where
  "AddSlotToAccessList a slot s =
     andThen (AddSlot (accessL s) a slot) (\<lambda>((addrMod, slotMod), al).
     let s = s\<lparr>accessL := al\<rparr>;
         s = (if addrMod then addEntry (accessListAddAccountChange a) s else s)
     in Inr (if slotMod then addEntry (accessListAddSlotChange a slot) s else s))"

definition AddressInAccessList :: "address \<Rightarrow> statedb \<Rightarrow> bool" where
  "AddressInAccessList a s = ContainsAddress (accessL s) a"

definition SlotInAccessList :: "address \<Rightarrow> hash \<Rightarrow> statedb \<Rightarrow> (bool \<times> bool) go" where
  "SlotInAccessList a slot s = Contains (accessL s) a slot"

definition SetTxContext :: "hash \<Rightarrow> int \<Rightarrow> statedb \<Rightarrow> statedb" where
  "SetTxContext h ti s = s\<lparr>thash := h, txIndex := ti\<rparr>"

primrec addSlots :: "address \<Rightarrow> hash list \<Rightarrow> accessList \<Rightarrow> accessList go" where
  "addSlots a [] al = Inr al"
| "addSlots a (k # ks) al = andThen (AddSlot al a k) (\<lambda>(_, al). addSlots a ks al)"

primrec addTuples :: "(address \<times> hash list) list \<Rightarrow> accessList \<Rightarrow> accessList go" where
  "addTuples [] al = Inr al"
| "addTuples (el # els) al =
     andThen (addSlots (fst el) (snd el) (snd (AddAddress al (fst el)))) (addTuples els)"

definition Prepare ::
  "address \<Rightarrow> address \<Rightarrow> address option \<Rightarrow> address list \<Rightarrow> (address \<times> hash list) list \<Rightarrow> statedb \<Rightarrow> statedb go"
where
  "Prepare sender coinbase dst precompiles list s =
     (let al = snd (AddAddress newAccessList sender);
          al = (case dst of None \<Rightarrow> al | Some d \<Rightarrow> snd (AddAddress al d));
          al = fold (\<lambda>a al. snd (AddAddress al a)) precompiles al
      in andThen (addTuples list al) (\<lambda>al.
         Inr (s\<lparr>accessL := snd (AddAddress al coinbase)\<rparr>)))"

section \<open>Undoing changes\<close>

text \<open>A method of an object run on the pointer that \<open>getStateObject\<close> returns, which may be nil.\<close>

definition withLive :: "address \<Rightarrow> (stateObject \<Rightarrow> stateObject) \<Rightarrow> statedb \<Rightarrow> statedb go" where
  "withLive a f s =
     (case getStateObject a s of
        (None, s) \<Rightarrow> Inl NilDereference
      | (Some ob, s) \<Rightarrow> Inr (setStateObject (f ob) s))"

fun je_revert :: "journalEntry \<Rightarrow> statedb \<Rightarrow> statedb go" where
  "je_revert (createObjectChange a) s =
     Inr (s\<lparr>stateObjects := (stateObjects s)(a := None),
            stateObjectsDirty := stateObjectsDirty s - {a}\<rparr>)"
| "je_revert (resetObjectChange a prev prevdestruct prevAccount prevStorage prevAccountOriginExist
     prevAccountOrigin prevStorageOrigin) s =
     (let s = setStateObject prev s;
          s = (if prevdestruct then s
               else s\<lparr>stateObjectsDestruct := (stateObjectsDestruct s)(so_address prev := None)\<rparr>);
          s = (if prevAccount \<noteq> [] then s\<lparr>accounts := (accounts s)(so_addrHash prev \<mapsto> prevAccount)\<rparr>
               else s);
          s = (case prevStorage of None \<Rightarrow> s
               | Some m \<Rightarrow> s\<lparr>storages := (storages s)(so_addrHash prev \<mapsto> m)\<rparr>);
          s = (if prevAccountOriginExist
               then s\<lparr>accountsOrigin := (accountsOrigin s)(so_address prev \<mapsto> prevAccountOrigin)\<rparr>
               else s);
          s = (case prevStorageOrigin of None \<Rightarrow> s
               | Some m \<Rightarrow> s\<lparr>storagesOrigin := (storagesOrigin s)(so_address prev \<mapsto> m)\<rparr>)
      in Inr s)"
| "je_revert (balanceChange a prev) s = withLive a (so_setBalance prev) s"
| "je_revert (nonceChange a prev) s = withLive a (so_setNonce prev) s"
| "je_revert (storageChange a key prevalue) s = withLive a (so_setState key prevalue) s"
| "je_revert (codeChange a prevcode prevhash) s =
     withLive a (so_setCode (BytesToHash prevhash) prevcode) s"
| "je_revert (refundChange prev) s = Inr (s\<lparr>refund := prev\<rparr>)"
| "je_revert (addLogChange txhash) s =
     (let ls = (case logs s txhash of None \<Rightarrow> [] | Some ls \<Rightarrow> ls) in
      andThen (if length ls = 1 then Inr (s\<lparr>logs := (logs s)(txhash := None)\<rparr>)
               else if length ls = 0 then Inl IndexOutOfRange
               else Inr (s\<lparr>logs := (logs s)(txhash \<mapsto> butlast ls)\<rparr>)) (\<lambda>s.
      Inr (s\<lparr>logSize := logSize s - 1\<rparr>)))"
| "je_revert (addPreimageChange h) s = Inr (s\<lparr>preimages := (preimages s)(h := None)\<rparr>)"
| "je_revert (touchChange a) s = Inr s"
| "je_revert (accessListAddAccountChange a) s = Inr (s\<lparr>accessL := DeleteAddress (accessL s) a\<rparr>)"
| "je_revert (accessListAddSlotChange a slot) s =
     andThen (DeleteSlot (accessL s) a slot) (\<lambda>al. Inr (s\<lparr>accessL := al\<rparr>))"

definition undirty :: "journalEntry \<Rightarrow> journal \<Rightarrow> journal" where
  "undirty e j =
     (case dirtied e of
        None \<Rightarrow> j
      | Some a \<Rightarrow>
          let n = dirty_count j a - 1
          in if n = 0 then j\<lparr>dirties := (dirties j)(a := None)\<rparr>
             else j\<lparr>dirties := (dirties j)(a \<mapsto> n)\<rparr>)"

text \<open>The loop of \<open>journal.revert\<close>, over the entries to undo, last one first.\<close>

primrec undo_entries :: "journalEntry list \<Rightarrow> statedb \<Rightarrow> statedb go" where
  "undo_entries [] s = Inr s"
| "undo_entries (e # es) s =
     andThen (je_revert e s) (\<lambda>s. undo_entries es (s\<lparr>journ := undirty e (journ s)\<rparr>))"

definition journal_revert :: "nat \<Rightarrow> statedb \<Rightarrow> statedb go" where
  "journal_revert snapshot s =
     andThen (undo_entries (rev (drop snapshot (entries (journ s)))) s) (\<lambda>s.
     andThen (go_slice (entries (journ s)) 0 (int snapshot)) (\<lambda>es.
     Inr (s\<lparr>journ := (journ s)\<lparr>entries := es\<rparr>\<rparr>)))"

definition Snapshot :: "statedb \<Rightarrow> nat \<times> statedb" where
  "Snapshot s =
     (nextRevisionId s,
      s\<lparr>nextRevisionId := nextRevisionId s + 1,
        validRevisions := validRevisions s @
          [\<lparr>rev_id = nextRevisionId s, journalIndex = length (entries (journ s))\<rparr>]\<rparr>)"

text \<open>\<open>sort.Search\<close> of the Go library: binary search for the first index where \<open>f\<close> holds.\<close>

function search_from :: "nat \<Rightarrow> nat \<Rightarrow> (nat \<Rightarrow> bool) \<Rightarrow> nat" where
  "search_from i j f =
     (if i < j then
        let h = (i + j) div 2
        in if \<not> f h then search_from (h + 1) j f else search_from i h f
      else i)"
  by pat_completeness auto

termination search_from
  by (relation "measure (\<lambda>(i, j, f). j - i)") auto

declare search_from.simps [simp del]

definition RevertToSnapshot :: "nat \<Rightarrow> statedb \<Rightarrow> statedb go" where
  "RevertToSnapshot revid s =
     (let revs = validRevisions s;
          idx = search_from 0 (length revs) (\<lambda>i. revid \<le> rev_id (revs ! i))
      in if idx = length revs \<or> rev_id (revs ! idx) \<noteq> revid
         then Inl (PanicMsg ''revision id cannot be reverted'')
         else andThen (journal_revert (journalIndex (revs ! idx)) s) (\<lambda>s.
              Inr (s\<lparr>validRevisions := take idx (validRevisions s)\<rparr>)))"

section \<open>End of a transaction\<close>

definition clearJournalAndRefund :: "statedb \<Rightarrow> statedb" where
  "clearJournalAndRefund s =
     (let s = (if entries (journ s) \<noteq> [] then s\<lparr>journ := newJournal, refund := 0\<rparr> else s)
      in s\<lparr>validRevisions := []\<rparr>)"

definition finaliseAddress :: "bool \<Rightarrow> address \<Rightarrow> statedb \<Rightarrow> statedb" where
  "finaliseAddress deleteEmptyObjects a s =
     (case stateObjects s a of
        None \<Rightarrow> s
      | Some ob \<Rightarrow>
          let (ob, s) =
                (if deleteEmptyObjects \<and> so_empty s ob then
                   (ob\<lparr>so_deleted := True\<rparr>,
                    s\<lparr>stateObjectsDestruct :=
                        (if stateObjectsDestruct s (so_address ob) = None
                         then (stateObjectsDestruct s)(so_address ob \<mapsto> so_origin ob)
                         else stateObjectsDestruct s),
                      accounts := (accounts s)(so_addrHash ob := None),
                      storages := (storages s)(so_addrHash ob := None),
                      accountsOrigin := (accountsOrigin s)(so_address ob := None),
                      storagesOrigin := (storagesOrigin s)(so_address ob := None)\<rparr>)
                 else (so_finalise ob, s));
              ob = ob\<lparr>so_created := False\<rparr>
          in s\<lparr>stateObjects := (stateObjects s)(a \<mapsto> ob),
               stateObjectsPending := insert a (stateObjectsPending s),
               stateObjectsDirty := insert a (stateObjectsDirty s)\<rparr>)"

text \<open>\<open>order\<close> lists the keys of \<open>journal.dirties\<close> in the order in which Go's map iteration
  happens to visit them.\<close>

definition Finalise :: "address list \<Rightarrow> bool \<Rightarrow> statedb \<Rightarrow> statedb" where
  "Finalise order deleteEmptyObjects s =
     clearJournalAndRefund (fold (finaliseAddress deleteEmptyObjects) order s)"

section \<open>Copy\<close>

definition copied :: "statedb \<Rightarrow> address \<Rightarrow> bool" where
  "copied s a \<longleftrightarrow>
     (dirties (journ s) a \<noteq> None \<and> stateObjects s a \<noteq> None) \<or>
     a \<in> stateObjectsPending s \<or> a \<in> stateObjectsDirty s"

definition Copy :: "statedb \<Rightarrow> statedb go" where
  "Copy s =
     (if \<exists>a \<in> stateObjectsPending s \<union> stateObjectsDirty s. stateObjects s a = None
      then Inl NilDereference
      else
        let journalled = {a. dirties (journ s) a \<noteq> None \<and> stateObjects s a \<noteq> None} in
        Inr ((New (originalRoot s) (db s) (acct_trie s) (snap s))
          \<lparr>refund := refund s, logSize := logSize s,
           stateObjects := (\<lambda>a. if copied s a then map_option so_deepCopy (stateObjects s a) else None),
           stateObjectsDirty := stateObjectsDirty s \<union> journalled,
           stateObjectsPending := stateObjectsPending s \<union> journalled,
           stateObjectsDestruct := stateObjectsDestruct s,
           accounts := accounts s, storages := storages s,
           accountsOrigin := Map.empty, storagesOrigin := Map.empty,
           logs := logs s, preimages := preimages s, accessL := accessL s\<rparr>))"

end
