(* ===== verification/State_View.thy ===== *)
theory State_View
  imports State_DB
begin

text \<open>
  What a client of \<open>StateDB\<close> can observe. \<open>view\<close> has, per address, the account as the
  getters would return it, and the refund counter, logs, preimages, access list and
  block-level caches; memoised reads, the sticky database error and the dirty-code flag
  are not part of it. \<open>wf_state\<close> is the invariant of the state. The lemmas show that every read
  returns what the view says and leaves the view and the journal alone.
\<close>

section \<open>What a client observes\<close>

record obj_view =
  ov_data :: StateAccount
  ov_origin :: "StateAccount option"
  ov_deleted :: bool
  ov_created :: bool
  ov_code :: bytes
  ov_state :: "hash \<Rightarrow> hash"
  ov_committed :: "hash \<Rightarrow> hash"

definition ov :: "statedb \<Rightarrow> stateObject \<Rightarrow> obj_view" where
  "ov s ob =
     \<lparr>ov_data = so_data ob, ov_origin = so_origin ob, ov_deleted = so_deleted ob,
      ov_created = so_created ob, ov_code = fst (so_Code ob s),
      ov_state = (\<lambda>k. fst (so_GetState ob k s)),
      ov_committed = (\<lambda>k. fst (so_GetCommittedState ob k s))\<rparr>"

record state_view =
  v_env :: "database \<times> account_trie \<times> snapshotReader option \<times> hash \<times> hash \<times> int"
  v_caches :: "(hash \<Rightarrow> bytes option) \<times> (hash \<Rightarrow> (hash \<Rightarrow> bytes option) option) \<times>
    (address \<Rightarrow> bytes option) \<times> (address \<Rightarrow> (hash \<Rightarrow> bytes option) option)"
  v_pending :: "address set"
  v_dirty :: "address set"
  v_destruct :: "address \<Rightarrow> StateAccount option option"
  v_refund :: uint64
  v_logs :: "(hash \<Rightarrow> zlog list option) \<times> nat"
  v_preimages :: "hash \<Rightarrow> bytes option"
  v_access :: accessList
  v_objs :: "address \<Rightarrow> obj_view option"

definition view :: "statedb \<Rightarrow> state_view" where
  "view s =
     \<lparr>v_env = (db s, acct_trie s, snap s, originalRoot s, thash s, txIndex s),
      v_caches = (accounts s, storages s, accountsOrigin s, storagesOrigin s),
      v_pending = stateObjectsPending s, v_dirty = stateObjectsDirty s,
      v_destruct = stateObjectsDestruct s, v_refund = refund s, v_logs = (logs s, logSize s),
      v_preimages = preimages s, v_access = accessL s,
      v_objs = (\<lambda>a. map_option (ov s) (fst (getDeletedStateObject a s)))\<rparr>"

lemma ov_cong:
  assumes "db s = db t" "snap s = snap t" "originalRoot s = originalRoot t"
    "stateObjectsDestruct s (so_address ob) = None \<longleftrightarrow> stateObjectsDestruct t (so_address ob) = None"
  shows "ov s ob = ov t ob"
proof -
  have c: "fst (so_GetCommittedState ob k s) = fst (so_GetCommittedState ob k t)" for k
    using assms
    by (auto simp: so_GetCommittedState_def load_from_trie_def getTrie_def Let_def
        split: option.split sum.split)
  moreover have "fst (so_GetState ob k s) = fst (so_GetState ob k t)" for k
    using c by (simp add: so_GetState_def split: option.split)
  moreover have "fst (so_Code ob s) = fst (so_Code ob t)"
    using assms by (auto simp: so_Code_def split: sum.split)
  ultimately show ?thesis
    by (simp add: ov_def)
qed

text \<open>What a lookup loads when the object is not live.\<close>

definition loaded :: "statedb \<Rightarrow> address \<Rightarrow> stateObject option" where
  "loaded s a =
     (case readAccount s a of Inr (Some d) \<Rightarrow> Some (newObject s a (Some d)) | _ \<Rightarrow> None)"

definition live :: "statedb \<Rightarrow> address \<Rightarrow> stateObject option" where
  "live s a = (case stateObjects s a of Some ob \<Rightarrow> Some ob | None \<Rightarrow> loaded s a)"

lemma lookup_live: "fst (getDeletedStateObject a s) = live s a"
  by (auto simp: live_def loaded_def getDeletedStateObject_def Let_def split: option.split sum.split)

lemma readAccount_cong:
  "db s = db t \<Longrightarrow> snap s = snap t \<Longrightarrow> acct_trie s = acct_trie t \<Longrightarrow> readAccount s a = readAccount t a"
  by (auto simp: readAccount_def slimToAccount_def option.map_comp intro!: option.map_cong
      split: option.split sum.split)

lemma readAccount_simps [simp]:
  "readAccount (s\<lparr>stateObjects := x1\<rparr>) a = readAccount s a" "readAccount (s\<lparr>stateObjectsPending := x2\<rparr>) a = readAccount s a"
  "readAccount (s\<lparr>stateObjectsDirty := x3\<rparr>) a = readAccount s a" "readAccount (s\<lparr>stateObjectsDestruct := x4\<rparr>) a = readAccount s a"
  "readAccount (s\<lparr>accounts := x5\<rparr>) a = readAccount s a" "readAccount (s\<lparr>storages := x6\<rparr>) a = readAccount s a"
  "readAccount (s\<lparr>accountsOrigin := x7\<rparr>) a = readAccount s a" "readAccount (s\<lparr>storagesOrigin := x8\<rparr>) a = readAccount s a"
  "readAccount (s\<lparr>dbErr := x9\<rparr>) a = readAccount s a" "readAccount (s\<lparr>refund := x10\<rparr>) a = readAccount s a"
  "readAccount (s\<lparr>logs := x11\<rparr>) a = readAccount s a" "readAccount (s\<lparr>logSize := x12\<rparr>) a = readAccount s a"
  "readAccount (s\<lparr>preimages := x13\<rparr>) a = readAccount s a" "readAccount (s\<lparr>accessL := x14\<rparr>) a = readAccount s a"
  "readAccount (s\<lparr>journ := x15\<rparr>) a = readAccount s a" "readAccount (s\<lparr>validRevisions := x16\<rparr>) a = readAccount s a"
  "readAccount (s\<lparr>nextRevisionId := x17\<rparr>) a = readAccount s a" "readAccount (s\<lparr>thash := x18\<rparr>) a = readAccount s a"
  "readAccount (s\<lparr>txIndex := x19\<rparr>) a = readAccount s a"
  by (rule readAccount_cong; simp)+

lemma loaded_cong:
  "db s = db t \<Longrightarrow> snap s = snap t \<Longrightarrow> acct_trie s = acct_trie t \<Longrightarrow> loaded s a = loaded t a"
  by (simp add: loaded_def newObject_def readAccount_cong [of s t] split: sum.split option.split)

lemma loaded_simps [simp]:
  "loaded (s\<lparr>stateObjects := x20\<rparr>) a = loaded s a" "loaded (s\<lparr>stateObjectsPending := x21\<rparr>) a = loaded s a"
  "loaded (s\<lparr>stateObjectsDirty := x22\<rparr>) a = loaded s a" "loaded (s\<lparr>stateObjectsDestruct := x23\<rparr>) a = loaded s a"
  "loaded (s\<lparr>accounts := x24\<rparr>) a = loaded s a" "loaded (s\<lparr>storages := x25\<rparr>) a = loaded s a"
  "loaded (s\<lparr>accountsOrigin := x26\<rparr>) a = loaded s a" "loaded (s\<lparr>storagesOrigin := x27\<rparr>) a = loaded s a"
  "loaded (s\<lparr>dbErr := x28\<rparr>) a = loaded s a" "loaded (s\<lparr>refund := x29\<rparr>) a = loaded s a"
  "loaded (s\<lparr>logs := x30\<rparr>) a = loaded s a" "loaded (s\<lparr>logSize := x31\<rparr>) a = loaded s a"
  "loaded (s\<lparr>preimages := x32\<rparr>) a = loaded s a" "loaded (s\<lparr>accessL := x33\<rparr>) a = loaded s a"
  "loaded (s\<lparr>journ := x34\<rparr>) a = loaded s a" "loaded (s\<lparr>validRevisions := x35\<rparr>) a = loaded s a"
  "loaded (s\<lparr>nextRevisionId := x36\<rparr>) a = loaded s a" "loaded (s\<lparr>thash := x37\<rparr>) a = loaded s a"
  "loaded (s\<lparr>txIndex := x38\<rparr>) a = loaded s a"
  by (rule loaded_cong; simp)+

lemma live_simps [simp]:
  "live (s\<lparr>stateObjectsPending := x39\<rparr>) a = live s a" "live (s\<lparr>stateObjectsDirty := x40\<rparr>) a = live s a"
  "live (s\<lparr>stateObjectsDestruct := x41\<rparr>) a = live s a" "live (s\<lparr>accounts := x42\<rparr>) a = live s a"
  "live (s\<lparr>storages := x43\<rparr>) a = live s a" "live (s\<lparr>accountsOrigin := x44\<rparr>) a = live s a"
  "live (s\<lparr>storagesOrigin := x45\<rparr>) a = live s a" "live (s\<lparr>dbErr := x46\<rparr>) a = live s a"
  "live (s\<lparr>refund := x47\<rparr>) a = live s a" "live (s\<lparr>logs := x48\<rparr>) a = live s a"
  "live (s\<lparr>logSize := x49\<rparr>) a = live s a" "live (s\<lparr>preimages := x50\<rparr>) a = live s a"
  "live (s\<lparr>accessL := x51\<rparr>) a = live s a" "live (s\<lparr>journ := x52\<rparr>) a = live s a"
  "live (s\<lparr>validRevisions := x53\<rparr>) a = live s a" "live (s\<lparr>nextRevisionId := x54\<rparr>) a = live s a"
  "live (s\<lparr>thash := x55\<rparr>) a = live s a" "live (s\<lparr>txIndex := x56\<rparr>) a = live s a"
  by (simp_all add: live_def split: option.split)

lemma ov_simps [simp]:
  "ov (s\<lparr>stateObjects := x57\<rparr>) ob = ov s ob" "ov (s\<lparr>stateObjectsPending := x58\<rparr>) ob = ov s ob"
  "ov (s\<lparr>stateObjectsDirty := x59\<rparr>) ob = ov s ob" "ov (s\<lparr>accounts := x60\<rparr>) ob = ov s ob"
  "ov (s\<lparr>storages := x61\<rparr>) ob = ov s ob" "ov (s\<lparr>accountsOrigin := x62\<rparr>) ob = ov s ob"
  "ov (s\<lparr>storagesOrigin := x63\<rparr>) ob = ov s ob" "ov (s\<lparr>dbErr := x64\<rparr>) ob = ov s ob"
  "ov (s\<lparr>refund := x65\<rparr>) ob = ov s ob" "ov (s\<lparr>logs := x66\<rparr>) ob = ov s ob"
  "ov (s\<lparr>logSize := x67\<rparr>) ob = ov s ob" "ov (s\<lparr>preimages := x68\<rparr>) ob = ov s ob"
  "ov (s\<lparr>accessL := x69\<rparr>) ob = ov s ob" "ov (s\<lparr>journ := x70\<rparr>) ob = ov s ob"
  "ov (s\<lparr>validRevisions := x71\<rparr>) ob = ov s ob" "ov (s\<lparr>nextRevisionId := x72\<rparr>) ob = ov s ob"
  "ov (s\<lparr>thash := x73\<rparr>) ob = ov s ob" "ov (s\<lparr>txIndex := x74\<rparr>) ob = ov s ob"
  by (rule ov_cong; simp)+

lemma v_objs_view: "v_objs (view s) a = map_option (ov s) (live s a)"
  by (simp add: view_def lookup_live)

section \<open>Well-formed states\<close>

text \<open>What the state relies on of its database: code hashes of stored accounts have the
  length of a hash.\<close>

definition env_ok :: "statedb \<Rightarrow> bool" where
  "env_ok s \<longleftrightarrow> (\<forall>a d. readAccount s a = Inr (Some d) \<longrightarrow> length (acct_CodeHash d) = 32)"

definition obj_ok :: "statedb \<Rightarrow> address \<Rightarrow> stateObject \<Rightarrow> bool" where
  "obj_ok s a ob \<longleftrightarrow>
     so_address ob = a \<and> so_addrHash ob = Keccak256Hash (db s) (AddressBytes a) \<and>
     length (acct_CodeHash (so_data ob)) = 32"

definition wf_state :: "statedb \<Rightarrow> bool" where
  "wf_state s \<longleftrightarrow>
     env_ok s \<and> (\<forall>a ob. stateObjects s a = Some ob \<longrightarrow> obj_ok s a ob) \<and>
     stateObjectsDirty s \<subseteq> dom (stateObjects s) \<and>
     (\<forall>h. accounts s h \<noteq> Some []) \<and> (\<forall>h. logs s h \<noteq> Some []) \<and> al_ok (accessL s)"

lemma wf_live: "wf_state s \<Longrightarrow> live s a = Some ob \<Longrightarrow> obj_ok s a ob"
  by (auto simp: wf_state_def live_def loaded_def env_ok_def obj_ok_def newObject_def
      split: option.splits sum.splits)

text \<open>The state without what neither the view nor well-formedness reads.\<close>

lemma view_irrelevant [simp]:
  "view (s\<lparr>journ := j\<rparr>) = view s" "view (s\<lparr>dbErr := e\<rparr>) = view s"
  "view (s\<lparr>validRevisions := r\<rparr>) = view s" "view (s\<lparr>nextRevisionId := n\<rparr>) = view s"
proof -
  have "ov (s\<lparr>journ := j\<rparr>) = ov s" "ov (s\<lparr>dbErr := e\<rparr>) = ov s"
    "ov (s\<lparr>validRevisions := r\<rparr>) = ov s" "ov (s\<lparr>nextRevisionId := n\<rparr>) = ov s"
    by (simp_all add: fun_eq_iff)
  then show "view (s\<lparr>journ := j\<rparr>) = view s" "view (s\<lparr>dbErr := e\<rparr>) = view s"
    "view (s\<lparr>validRevisions := r\<rparr>) = view s" "view (s\<lparr>nextRevisionId := n\<rparr>) = view s"
    by (simp_all add: view_def lookup_live)
qed

lemma env_ok_simps [simp]:
  "env_ok (s\<lparr>stateObjects := x75\<rparr>) = env_ok s" "env_ok (s\<lparr>stateObjectsPending := x76\<rparr>) = env_ok s"
  "env_ok (s\<lparr>stateObjectsDirty := x77\<rparr>) = env_ok s" "env_ok (s\<lparr>stateObjectsDestruct := x78\<rparr>) = env_ok s"
  "env_ok (s\<lparr>accounts := x79\<rparr>) = env_ok s" "env_ok (s\<lparr>storages := x80\<rparr>) = env_ok s"
  "env_ok (s\<lparr>accountsOrigin := x81\<rparr>) = env_ok s" "env_ok (s\<lparr>storagesOrigin := x82\<rparr>) = env_ok s"
  "env_ok (s\<lparr>dbErr := x83\<rparr>) = env_ok s" "env_ok (s\<lparr>refund := x84\<rparr>) = env_ok s"
  "env_ok (s\<lparr>logs := x85\<rparr>) = env_ok s" "env_ok (s\<lparr>logSize := x86\<rparr>) = env_ok s"
  "env_ok (s\<lparr>preimages := x87\<rparr>) = env_ok s" "env_ok (s\<lparr>accessL := x88\<rparr>) = env_ok s"
  "env_ok (s\<lparr>journ := x89\<rparr>) = env_ok s" "env_ok (s\<lparr>validRevisions := x90\<rparr>) = env_ok s"
  "env_ok (s\<lparr>nextRevisionId := x91\<rparr>) = env_ok s" "env_ok (s\<lparr>thash := x92\<rparr>) = env_ok s"
  "env_ok (s\<lparr>txIndex := x93\<rparr>) = env_ok s"
  by (simp_all add: env_ok_def)

lemma obj_ok_simps [simp]:
  "obj_ok (s\<lparr>stateObjects := x94\<rparr>) a ob = obj_ok s a ob" "obj_ok (s\<lparr>stateObjectsPending := x95\<rparr>) a ob = obj_ok s a ob"
  "obj_ok (s\<lparr>stateObjectsDirty := x96\<rparr>) a ob = obj_ok s a ob" "obj_ok (s\<lparr>stateObjectsDestruct := x97\<rparr>) a ob = obj_ok s a ob"
  "obj_ok (s\<lparr>accounts := x98\<rparr>) a ob = obj_ok s a ob" "obj_ok (s\<lparr>storages := x99\<rparr>) a ob = obj_ok s a ob"
  "obj_ok (s\<lparr>accountsOrigin := x100\<rparr>) a ob = obj_ok s a ob" "obj_ok (s\<lparr>storagesOrigin := x101\<rparr>) a ob = obj_ok s a ob"
  "obj_ok (s\<lparr>dbErr := x102\<rparr>) a ob = obj_ok s a ob" "obj_ok (s\<lparr>refund := x103\<rparr>) a ob = obj_ok s a ob"
  "obj_ok (s\<lparr>logs := x104\<rparr>) a ob = obj_ok s a ob" "obj_ok (s\<lparr>logSize := x105\<rparr>) a ob = obj_ok s a ob"
  "obj_ok (s\<lparr>preimages := x106\<rparr>) a ob = obj_ok s a ob" "obj_ok (s\<lparr>accessL := x107\<rparr>) a ob = obj_ok s a ob"
  "obj_ok (s\<lparr>journ := x108\<rparr>) a ob = obj_ok s a ob" "obj_ok (s\<lparr>validRevisions := x109\<rparr>) a ob = obj_ok s a ob"
  "obj_ok (s\<lparr>nextRevisionId := x110\<rparr>) a ob = obj_ok s a ob" "obj_ok (s\<lparr>thash := x111\<rparr>) a ob = obj_ok s a ob"
  "obj_ok (s\<lparr>txIndex := x112\<rparr>) a ob = obj_ok s a ob"
  by (simp_all add: obj_ok_def)

lemma wf_irrelevant [simp]:
  "wf_state (s\<lparr>journ := j\<rparr>) = wf_state s" "wf_state (s\<lparr>dbErr := e\<rparr>) = wf_state s"
  "wf_state (s\<lparr>validRevisions := r\<rparr>) = wf_state s" "wf_state (s\<lparr>nextRevisionId := n\<rparr>) = wf_state s"
  by (simp_all add: wf_state_def)

section \<open>Reads do not change what is observed\<close>

definition quiet :: "statedb \<Rightarrow> statedb \<Rightarrow> bool" where
  "quiet s s' \<longleftrightarrow>
     view s' = view s \<and> (wf_state s \<longrightarrow> wf_state s') \<and> journ s' = journ s \<and>
     validRevisions s' = validRevisions s \<and> nextRevisionId s' = nextRevisionId s"

lemma quiet_refl [simp]: "quiet s s"
  by (simp add: quiet_def)

lemma quiet_trans: "quiet s t \<Longrightarrow> quiet t u \<Longrightarrow> quiet s u"
  by (simp add: quiet_def)

lemma quiet_dbErr [simp]: "quiet s (s\<lparr>dbErr := e\<rparr>)"
  by (simp add: quiet_def)

lemma setError_dbErr: "\<exists>e'. setError e s = s\<lparr>dbErr := e'\<rparr>"
proof (cases "dbErr s")
  case (Some x)
  have "setError e s = s\<lparr>dbErr := dbErr s\<rparr>"
    unfolding setError_def Some option.case by (simp flip: Some)
  then show ?thesis by blast
qed (auto simp: setError_def)

lemma quiet_setError [simp]: "quiet s (setError e s)"
  using setError_dbErr [of e s] by auto

lemma setStateObject_sel [simp]:
  "db (setStateObject ob s) = db s" "acct_trie (setStateObject ob s) = acct_trie s"
  "snap (setStateObject ob s) = snap s" "originalRoot (setStateObject ob s) = originalRoot s"
  "thash (setStateObject ob s) = thash s" "txIndex (setStateObject ob s) = txIndex s"
  "accounts (setStateObject ob s) = accounts s" "storages (setStateObject ob s) = storages s"
  "accountsOrigin (setStateObject ob s) = accountsOrigin s" "storagesOrigin (setStateObject ob s) = storagesOrigin s"
  "stateObjectsPending (setStateObject ob s) = stateObjectsPending s" "stateObjectsDirty (setStateObject ob s) = stateObjectsDirty s"
  "stateObjectsDestruct (setStateObject ob s) = stateObjectsDestruct s" "refund (setStateObject ob s) = refund s"
  "logs (setStateObject ob s) = logs s" "logSize (setStateObject ob s) = logSize s"
  "preimages (setStateObject ob s) = preimages s" "accessL (setStateObject ob s) = accessL s"
  "journ (setStateObject ob s) = journ s" "validRevisions (setStateObject ob s) = validRevisions s"
  "nextRevisionId (setStateObject ob s) = nextRevisionId s" "dbErr (setStateObject ob s) = dbErr s"
  by (simp_all add: setStateObject_def)

lemma view_setStateObject:
  "view (setStateObject ob s) = (view s)\<lparr>v_objs := (v_objs (view s))(so_address ob \<mapsto> ov s ob)\<rparr>"
proof -
  have "live (setStateObject ob s) a = (if a = so_address ob then Some ob else live s a)" for a
    by (simp add: live_def setStateObject_def split: option.split)
  moreover have "ov (setStateObject ob s) = ov s"
    by (simp add: setStateObject_def fun_eq_iff)
  ultimately show ?thesis
    by (simp add: view_def lookup_live) (intro HOL.ext, simp)
qed

lemma wf_setStateObject: "wf_state s \<Longrightarrow> obj_ok s (so_address ob) ob \<Longrightarrow> wf_state (setStateObject ob s)"
  by (auto simp: wf_state_def setStateObject_def)

lemma quiet_setStateObject:
  assumes "live s a = Some ob" "ov s ob' = ov s ob" "so_address ob' = a" "wf_state s \<longrightarrow> obj_ok s a ob'"
  shows "quiet s (setStateObject ob' s)"
proof -
  have "v_objs (view s) a = Some (ov s ob')"
    using assms by (simp add: v_objs_view)
  then have "(v_objs (view s))(a \<mapsto> ov s ob') = v_objs (view s)"
    by (simp add: fun_upd_idem)
  then have "view (setStateObject ob' s) = view s"
    using assms(3) by (simp add: view_setStateObject)
  then show ?thesis
    using assms wf_setStateObject [of s ob'] by (auto simp: quiet_def setStateObject_def)
qed

lemma getDeletedStateObject_quiet:
  assumes "getDeletedStateObject a s = (r, s')"
  shows "quiet s s'" "r = live s a" "stateObjects s' a = r"
proof -
  show r: "r = live s a"
    using lookup_live [of a s] assms by simp
  show "quiet s s'"
  proof (cases "stateObjects s a")
    case (Some ob)
    then show ?thesis using assms by (simp add: getDeletedStateObject_def)
  next
    case None
    show ?thesis
    proof (cases "readAccount s a")
      case (Inl e)
      then show ?thesis using assms None by (auto simp: getDeletedStateObject_def)
    next
      case (Inr d)
      let ?ob = "newObject s a d"
      have "obj_ok s a ?ob" if "wf_state s" "d \<noteq> None"
        using that Inr by (auto simp: wf_state_def env_ok_def obj_ok_def newObject_def)
      moreover have "live s a = (case d of None \<Rightarrow> None | Some _ \<Rightarrow> Some ?ob)"
        using None Inr by (simp add: live_def loaded_def split: option.split)
      ultimately show ?thesis
        using assms None Inr quiet_setStateObject [of s a ?ob ?ob]
        by (auto simp: getDeletedStateObject_def Let_def newObject_def split: option.splits)
    qed
  qed
  show "stateObjects s' a = r"
  proof (cases "stateObjects s a")
    case (Some ob)
    then show ?thesis using assms by (auto simp: getDeletedStateObject_def)
  next
    case None
    then show ?thesis using assms setError_dbErr [of _ s]
      by (auto simp: getDeletedStateObject_def Let_def setStateObject_def newObject_def setError_def
          split: option.splits sum.splits)
  qed
qed

lemma getStateObject_quiet:
  assumes "getStateObject a s = (r, s')"
  shows "quiet s s'" "r = (case live s a of Some ob \<Rightarrow> if so_deleted ob then None else Some ob | None \<Rightarrow> None)"
    "\<And>ob. r = Some ob \<Longrightarrow> stateObjects s' a = Some ob \<and> \<not> so_deleted ob"
proof -
  obtain d s1 where d: "getDeletedStateObject a s = (d, s1)"
    by fastforce
  note q = getDeletedStateObject_quiet [OF d]
  have r: "s' = s1" "r = (case d of Some ob \<Rightarrow> if so_deleted ob then None else Some ob | None \<Rightarrow> None)"
    using assms d by (auto simp: getStateObject_def split: option.splits)
  show "quiet s s'" and "r = (case live s a of Some ob \<Rightarrow> if so_deleted ob then None else Some ob | None \<Rightarrow> None)"
    using q r by simp_all
  show "stateObjects s' a = Some ob \<and> \<not> so_deleted ob" if "r = Some ob" for ob
    using that q r by (auto split: option.splits if_splits)
qed

text \<open>The caches of an object.\<close>

definition same_obj :: "statedb \<Rightarrow> stateObject \<Rightarrow> stateObject \<Rightarrow> bool" where
  "same_obj s ob ob' \<longleftrightarrow>
     ov s ob' = ov s ob \<and> so_address ob' = so_address ob \<and> so_addrHash ob' = so_addrHash ob"

lemma same_obj_refl [simp]: "same_obj s ob ob"
  by (simp add: same_obj_def)

lemma same_obj_data: "same_obj s ob ob' \<Longrightarrow> so_data ob' = so_data ob"
  by (simp add: same_obj_def ov_def)

lemma committed_cache_trie:
  assumes "OpenStorageTrie (db s) (originalRoot s) (so_address ob) (acct_Root (so_data ob)) = Inr tr"
    "so_trie ob = None"
  shows "same_obj s ob (ob\<lparr>so_trie := Some tr\<rparr>)"
proof -
  have c: "fst (so_GetCommittedState (ob\<lparr>so_trie := Some tr\<rparr>) k s) = fst (so_GetCommittedState ob k s)" for k
    using assms
    by (auto simp: so_GetCommittedState_def load_from_trie_def getTrie_def Let_def
        split: option.split sum.split)
  then have "fst (so_GetState (ob\<lparr>so_trie := Some tr\<rparr>) k s) = fst (so_GetState ob k s)" for k
    by (simp add: so_GetState_def split: option.split)
  moreover have "fst (so_Code (ob\<lparr>so_trie := Some tr\<rparr>) s) = fst (so_Code ob s)"
    by (simp add: so_Code_def split: sum.split)
  ultimately show ?thesis
    using c by (simp add: same_obj_def ov_def)
qed

lemma committed_cache_origin:
  assumes "v = fst (so_GetCommittedState ob k s)"
  shows "same_obj s ob (ob\<lparr>originStorage := (originStorage ob)(k \<mapsto> v)\<rparr>)"
proof -
  let ?ob = "ob\<lparr>originStorage := (originStorage ob)(k \<mapsto> v)\<rparr>"
  have c: "fst (so_GetCommittedState ?ob k' s) = fst (so_GetCommittedState ob k' s)" for k'
  proof (cases "k' = k")
    case True
    show ?thesis
    proof (cases "pendingStorage ob k")
      case None
      then show ?thesis
        unfolding True assms [symmetric] by (subst so_GetCommittedState_def) simp
    next
      case (Some w)
      then show ?thesis
        using True by (simp add: so_GetCommittedState_def)
    qed
  next
    case False
    then show ?thesis
      by (auto simp: so_GetCommittedState_def load_from_trie_def getTrie_def Let_def
          split: option.split sum.split prod.split)
  qed
  then have "fst (so_GetState ?ob k s) = fst (so_GetState ob k s)" for k
    by (simp add: so_GetState_def split: option.split)
  moreover have "fst (so_Code ?ob s) = fst (so_Code ob s)"
    by (simp add: so_Code_def split: sum.split)
  ultimately show ?thesis
    using c by (simp add: same_obj_def ov_def)
qed

lemma same_obj_trans [trans]: "same_obj s a b \<Longrightarrow> same_obj s b c \<Longrightarrow> same_obj s a c"
  by (simp add: same_obj_def)

text \<open>States that differ in the remembered database error only.\<close>

definition err_only :: "statedb \<Rightarrow> statedb \<Rightarrow> bool" where
  "err_only s s' \<longleftrightarrow> (\<exists>e. s' = s\<lparr>dbErr := e\<rparr>)"

lemma err_only_refl [simp]: "err_only s s"
  unfolding err_only_def by (rule exI [of _ "dbErr s"]) simp

lemma err_only_setError [simp]: "err_only s (setError e s)"
  unfolding err_only_def by (rule setError_dbErr)

lemma load_from_trie_same:
  assumes l: "load_from_trie ob k s = (v, ob', s')"
    and miss: "fst (so_GetCommittedState ob k s) = fst (load_from_trie ob k s)"
  shows "same_obj s ob ob'" "err_only s s'"
proof -
  have trie: "same_obj s ob ob1" if "getTrie ob s = Inr (tr, ob1)" for tr ob1
    using that committed_cache_trie [of s ob]
    by (auto simp: getTrie_def split: option.splits sum.splits)
  have val: "same_obj s ob (ob1\<lparr>originStorage := (originStorage ob1)(k \<mapsto> v)\<rparr>)"
    if "getTrie ob s = Inr (tr, ob1)" for tr ob1
  proof -
    have "v = fst (so_GetCommittedState ob k s)"
      using l miss by simp
    then have "v = fst (so_GetCommittedState ob1 k s)"
      using trie [OF that] by (simp add: same_obj_def ov_def fun_eq_iff)
    then show ?thesis
      using trie [OF that] committed_cache_origin same_obj_trans by blast
  qed
  show "same_obj s ob ob'"
    using l trie val by (auto simp: load_from_trie_def Let_def split: sum.splits)
  show "err_only s s'"
    using l
    by (auto simp: load_from_trie_def Let_def split: sum.splits)
qed

lemma so_GetCommittedState_same:
  assumes g: "so_GetCommittedState ob k s = (v, ob', s')"
  shows "same_obj s ob ob'" "v = ov_committed (ov s ob) k" "err_only s s'"
proof -
  show v: "v = ov_committed (ov s ob) k"
    using g by (simp add: ov_def)
  have v': "v = fst (so_GetCommittedState ob k s)"
    using g by simp
  have r: "(ob' = ob \<and> s' = s) \<or> (v, ob', s') = load_from_trie ob k s \<or>
     (ob' = ob\<lparr>originStorage := (originStorage ob)(k \<mapsto> v)\<rparr> \<and> err_only s s')"
    using g
    by (auto simp: so_GetCommittedState_def Let_def split: option.splits sum.splits if_splits)
  then have "same_obj s ob ob' \<and> err_only s s'"
  proof (elim disjE conjE)
    assume "(v, ob', s') = load_from_trie ob k s"
    then show ?thesis
      using load_from_trie_same [of ob k s v ob' s'] g by simp
  next
    assume "ob' = ob\<lparr>originStorage := (originStorage ob)(k \<mapsto> v)\<rparr>" "err_only s s'"
    then show ?thesis
      using committed_cache_origin [OF v'] by simp
  qed simp
  then show "same_obj s ob ob'" "err_only s s'"
    by auto
qed

lemma so_GetState_same:
  assumes g: "so_GetState ob k s = (v, ob', s')"
  shows "same_obj s ob ob'" "v = ov_state (ov s ob) k" "err_only s s'"
proof -
  show "v = ov_state (ov s ob) k"
    using g by (simp add: ov_def)
  show "same_obj s ob ob'" "err_only s s'"
    using g so_GetCommittedState_same [of ob k s v ob' s']
    by (auto simp: so_GetState_def split: option.splits)
qed

lemma so_Code_same:
  assumes g: "so_Code ob s = (c, ob', s')"
  shows "same_obj s ob ob'" "c = ov_code (ov s ob)" "err_only s s'"
proof -
  show c: "c = ov_code (ov s ob)"
    using g by (simp add: ov_def)
  show "err_only s s'"
    using g by (auto simp: so_Code_def split: if_splits sum.splits)
  have r: "ob' = ob \<or> ob' = ob\<lparr>so_code := c\<rparr>"
    using g by (auto simp: so_Code_def split: if_splits sum.splits)
  have "ov s (ob\<lparr>so_code := c\<rparr>) = ov s ob"
  proof -
    have "fst (so_Code (ob\<lparr>so_code := c\<rparr>) s) = fst (so_Code ob s)"
      using g by (auto simp: so_Code_def split: if_splits sum.splits)
    moreover have gc: "fst (so_GetCommittedState (ob\<lparr>so_code := c\<rparr>) k s) = fst (so_GetCommittedState ob k s)" for k
      by (auto simp: so_GetCommittedState_def load_from_trie_def getTrie_def Let_def
          split: option.split sum.split prod.split)
    moreover have "fst (so_GetState (ob\<lparr>so_code := c\<rparr>) k s) = fst (so_GetState ob k s)" for k
      using gc by (simp add: so_GetState_def split: option.split)
    ultimately show ?thesis
      by (simp add: ov_def)
  qed
  with r show "same_obj s ob ob'"
    by (auto simp: same_obj_def)
qed

text \<open>Storing back the object a read has updated is not observable.\<close>

lemma quiet_store:
  assumes so: "stateObjects s a = Some ob" and same: "same_obj s ob ob'" and s': "err_only s s'"
    and wf_state: "wf_state s"
  shows "quiet s (setStateObject ob' s')"
proof -
  obtain e where e: "s' = s\<lparr>dbErr := e\<rparr>"
    using s' by (auto simp: err_only_def)
  have ok: "obj_ok s a ob"
    using wf_state so by (simp add: wf_state_def)
  then have "obj_ok s a ob'"
    using same same_obj_data [OF same] by (simp add: obj_ok_def same_obj_def)
  then have "quiet s' (setStateObject ob' s')"
    using so same ok by (intro quiet_setStateObject [of _ a ob]) (auto simp: e live_def same_obj_def obj_ok_def)
  then show ?thesis
    using quiet_trans [of s s'] e by simp
qed

end
