(* ===== verification/State_Revert.thy ===== *)
theory State_Revert
  imports State_View
begin

text \<open>
  Snapshots of the world state. \<open>extends s s'\<close> says that the journal entries written between
  \<open>s\<close> and \<open>s'\<close> take any state with the view of \<open>s'\<close> back to one with the view of \<open>s\<close>; every
  operation of \<open>StateDB\<close> establishes it, and \<open>RevertToSnapshot\<close> uses it.
\<close>

section \<open>Undo logs\<close>

definition undoes :: "('s \<Rightarrow> bool) \<Rightarrow> ('s \<Rightarrow> 'v) \<Rightarrow> ('e list \<Rightarrow> 's \<Rightarrow> 's go) \<Rightarrow> 'e list \<Rightarrow> 's \<Rightarrow> 's \<Rightarrow> bool" where
  "undoes ok obs undo es s' s \<longleftrightarrow>
     (\<forall>t. ok t \<longrightarrow> obs t = obs s' \<longrightarrow> (\<exists>t'. undo (rev es) t = Inr t' \<and> ok t' \<and> obs t' = obs s))"

locale undo_log =
  fixes ok :: "'s \<Rightarrow> bool" and obs :: "'s \<Rightarrow> 'v" and undo :: "'e list \<Rightarrow> 's \<Rightarrow> 's go"
  assumes undo_Nil: "undo [] s = Inr s"
    and undo_append: "undo (xs @ ys) s = andThen (undo xs s) (undo ys)"
begin

lemma undoes_refl: "obs s = obs s' \<Longrightarrow> undoes ok obs undo [] s' s"
  by (simp add: undoes_def undo_Nil)

lemma undoes_trans:
  assumes "undoes ok obs undo es s' s" "undoes ok obs undo es' s'' s'"
  shows "undoes ok obs undo (es @ es') s'' s"
  using assms by (fastforce simp: undoes_def undo_append)

lemma undoes_view:
  "undoes ok obs undo es s' s \<Longrightarrow> obs s'' = obs s' \<Longrightarrow> obs r = obs s \<Longrightarrow> undoes ok obs undo es s'' r"
  by (simp add: undoes_def)

end

lemma undo_entries_append:
  "undo_entries (xs @ ys) s = andThen (undo_entries xs s) (undo_entries ys)"
  by (induction xs arbitrary: s) (auto simp: andThen_assoc intro: andThen_cong)

interpretation ul: undo_log wf_state view undo_entries
  by unfold_locales (simp_all add: undo_entries_append)

section \<open>The journal\<close>

definition entry_count :: "address \<Rightarrow> journalEntry list \<Rightarrow> nat" where
  "entry_count a es = length (filter (\<lambda>e. dirtied e = Some a) es)"

definition journal_ok :: "journal \<Rightarrow> bool" where
  "journal_ok j \<longleftrightarrow>
     (\<forall>a. dirties j a = (if entry_count a (entries j) = 0 then None else Some (int (entry_count a (entries j)))))"

definition revs_ok :: "statedb \<Rightarrow> bool" where
  "revs_ok s \<longleftrightarrow> (\<forall>r \<in> set (validRevisions s). rev_id r < nextRevisionId s)"

definition state_ok :: "statedb \<Rightarrow> bool" where
  "state_ok s \<longleftrightarrow> wf_state s \<and> journal_ok (journ s) \<and> revs_ok s"

definition extends :: "statedb \<Rightarrow> statedb \<Rightarrow> bool" where
  "extends s s' \<longleftrightarrow>
     state_ok s' \<and>
     (\<exists>es. entries (journ s') = entries (journ s) @ es \<and> undoes wf_state view undo_entries es s' s) \<and>
     (\<exists>rs. validRevisions s' = validRevisions s @ rs \<and> (\<forall>r \<in> set rs. nextRevisionId s \<le> rev_id r)) \<and>
     nextRevisionId s \<le> nextRevisionId s'"

lemma journal_ok_append: "journal_ok j \<Longrightarrow> journal_ok (journal_append e j)"
  by (auto simp: journal_ok_def journal_append_def entry_count_def dirty_count_def Let_def split: option.split)

lemma entries_append [simp]: "entries (journal_append e j) = entries j @ [e]"
  by (simp add: journal_append_def Let_def split: option.split)

text \<open>Undoing the last entry takes its count away.\<close>

lemma undirty_count:
  assumes "\<forall>a. dirties j a = (if entry_count a (es @ [e]) = 0 then None else Some (int (entry_count a (es @ [e]))))"
  shows "\<forall>a. dirties (undirty e j) a = (if entry_count a es = 0 then None else Some (int (entry_count a es)))"
proof (cases "dirtied e")
  case None
  then show ?thesis
    using assms by (simp add: undirty_def entry_count_def)
next
  case (Some b)
  have "dirties j b = Some (int (entry_count b es) + 1)"
    using assms Some by (simp add: entry_count_def)
  then show ?thesis
    using assms Some by (auto simp: undirty_def entry_count_def dirty_count_def Let_def)
qed

lemma je_revert_journ:
  assumes "je_revert e s = Inr s'"
  shows "journ s' = journ s" "validRevisions s' = validRevisions s" "nextRevisionId s' = nextRevisionId s"
proof -
  have w: "journ t = journ s \<and> validRevisions t = validRevisions s \<and> nextRevisionId t = nextRevisionId s"
    if "withLive a f s = Inr t" for a f t
    using that getStateObject_quiet(1) [of a s]
    by (auto simp: withLive_def quiet_def split: prod.splits option.splits)
  have "journ s' = journ s \<and> validRevisions s' = validRevisions s \<and> nextRevisionId s' = nextRevisionId s"
  proof (cases e)
    case (resetObjectChange a p d acc st ex ao so)
    then show ?thesis
      using assms by (cases st; cases so; cases d; cases ex; cases "acc = []") (auto simp: Let_def)
  qed (use assms w in \<open>auto simp: Let_def split: if_splits\<close>)
  then show "journ s' = journ s" "validRevisions s' = validRevisions s" "nextRevisionId s' = nextRevisionId s"
    by auto
qed

lemma undo_entries_journ:
  assumes "undo_entries (rev es) s = Inr s'"
    and "\<forall>a. dirties (journ s) a = (if entry_count a (es0 @ es) = 0 then None else Some (int (entry_count a (es0 @ es))))"
  shows "entries (journ s') = entries (journ s) \<and> validRevisions s' = validRevisions s \<and>
    nextRevisionId s' = nextRevisionId s \<and>
    (\<forall>a. dirties (journ s') a = (if entry_count a es0 = 0 then None else Some (int (entry_count a es0))))"
  using assms
proof (induction es arbitrary: s rule: rev_induct)
  case Nil
  then show ?case by simp
next
  case (snoc e es)
  obtain s1 where s1: "je_revert e s = Inr s1"
    "undo_entries (rev es) (s1\<lparr>journ := undirty e (journ s1)\<rparr>) = Inr s'"
    using snoc.prems(1) by auto
  note j = je_revert_journ [OF s1(1)]
  have d: "\<forall>a. dirties (undirty e (journ s)) a =
      (if entry_count a (es0 @ es) = 0 then None else Some (int (entry_count a (es0 @ es))))"
    using undirty_count [of "journ s" "es0 @ es" e] snoc.prems(2) by simp
  have "entries (undirty e (journ s)) = entries (journ s)"
    by (simp add: undirty_def Let_def split: option.split)
  then show ?case
    using snoc.IH [OF s1(2)] d j by simp
qed

section \<open>Extension is a preorder that every operation keeps\<close>

lemma extends_trans [trans]:
  assumes "extends s s'" "extends s' s''"
  shows "extends s s''"
proof -
  obtain es es' where e: "entries (journ s') = entries (journ s) @ es" "undoes wf_state view undo_entries es s' s"
    "entries (journ s'') = entries (journ s') @ es'" "undoes wf_state view undo_entries es' s'' s'"
    using assms by (auto simp: extends_def)
  obtain rs rs' where r: "validRevisions s' = validRevisions s @ rs" "\<forall>r \<in> set rs. nextRevisionId s \<le> rev_id r"
    "validRevisions s'' = validRevisions s' @ rs'" "\<forall>r \<in> set rs'. nextRevisionId s' \<le> rev_id r"
    using assms by (auto simp: extends_def)
  have "undoes wf_state view undo_entries (es @ es') s'' s"
    using e by (intro ul.undoes_trans [of es s' s])
  moreover have "\<forall>r \<in> set (rs @ rs'). nextRevisionId s \<le> rev_id r"
    using r assms by (auto simp: extends_def)
  ultimately show ?thesis
    using assms e r by (auto simp: extends_def)
qed

lemma extends_quiet: "state_ok s \<Longrightarrow> quiet s s' \<Longrightarrow> extends s s'"
  using ul.undoes_refl [of s s'] by (auto simp: extends_def state_ok_def quiet_def revs_ok_def)

lemma extends_refl: "state_ok s \<Longrightarrow> extends s s"
  by (simp add: extends_quiet)

lemma extends_state_ok: "extends s s' \<Longrightarrow> state_ok s'"
  by (simp add: extends_def)

text \<open>One journalled change.\<close>

lemma extends_step:
  assumes ok: "state_ok s" and wf_state': "wf_state s'" and j: "journ s' = journal_append e (journ s)"
    and r: "validRevisions s' = validRevisions s" "nextRevisionId s' = nextRevisionId s"
    and undo: "\<And>t. wf_state t \<Longrightarrow> view t = view s' \<Longrightarrow> \<exists>t'. je_revert e t = Inr t' \<and> wf_state t' \<and> view t' = view s"
  shows "extends s s'"
proof -
  have "undoes wf_state view undo_entries [e] s' s"
    unfolding undoes_def using undo by fastforce
  then show ?thesis
    using ok wf_state' j r journal_ok_append by (auto simp: extends_def state_ok_def revs_ok_def)
qed

section \<open>Changes of one object\<close>

text \<open>What the setters do to the view of an object.\<close>

lemma committed_cong:
  assumes "pendingStorage ob = pendingStorage ob'" "originStorage ob = originStorage ob'"
    "so_address ob = so_address ob'" "so_addrHash ob = so_addrHash ob'" "so_trie ob = so_trie ob'"
    "acct_Root (so_data ob) = acct_Root (so_data ob')"
  shows "fst (so_GetCommittedState ob k s) = fst (so_GetCommittedState ob' k s)"
  using assms
  by (auto simp: so_GetCommittedState_def load_from_trie_def getTrie_def Let_def
      split: option.split sum.split prod.split)

lemma ov_setBalance: "ov s (so_setBalance b ob) = (ov s ob)\<lparr>ov_data := (so_data ob)\<lparr>acct_Balance := b\<rparr>\<rparr>"
proof -
  have c: "fst (so_GetCommittedState (so_setBalance b ob) k s) = fst (so_GetCommittedState ob k s)" for k
    by (rule committed_cong) (simp_all add: so_setBalance_def)
  then show ?thesis
    by (auto simp: ov_def so_GetState_def so_Code_def so_setBalance_def fun_eq_iff split: option.split sum.split)
qed

lemma ov_setNonce: "ov s (so_setNonce n ob) = (ov s ob)\<lparr>ov_data := (so_data ob)\<lparr>acct_Nonce := n\<rparr>\<rparr>"
proof -
  have c: "fst (so_GetCommittedState (so_setNonce n ob) k s) = fst (so_GetCommittedState ob k s)" for k
    by (rule committed_cong) (simp_all add: so_setNonce_def)
  then show ?thesis
    by (auto simp: ov_def so_GetState_def so_Code_def so_setNonce_def fun_eq_iff split: option.split sum.split)
qed

lemma ov_setState: "ov s (so_setState k v ob) = (ov s ob)\<lparr>ov_state := (ov_state (ov s ob))(k := v)\<rparr>"
proof -
  have c: "fst (so_GetCommittedState (so_setState k v ob) k' s) = fst (so_GetCommittedState ob k' s)" for k'
    by (rule committed_cong) (simp_all add: so_setState_def)
  then show ?thesis
    by (auto simp: ov_def so_GetState_def so_Code_def so_setState_def fun_eq_iff split: option.split sum.split)
qed

definition code_value :: "statedb \<Rightarrow> address \<Rightarrow> hash \<Rightarrow> bytes \<Rightarrow> bytes" where
  "code_value s a h c =
     (if c \<noteq> [] then c
      else if HashBytes h = HashBytes (EmptyCodeHash (db s)) then []
      else case ContractCode (db s) a h of Inl _ \<Rightarrow> [] | Inr c \<Rightarrow> c)"

lemma ov_setCode:
  "ov s (so_setCode h c ob) =
     (ov s ob)\<lparr>ov_data := (so_data ob)\<lparr>acct_CodeHash := HashBytes h\<rparr>, ov_code := code_value s (so_address ob) h c\<rparr>"
proof -
  have c: "fst (so_GetCommittedState (so_setCode h c ob) k s) = fst (so_GetCommittedState ob k s)" for k
    by (rule committed_cong) (simp_all add: so_setCode_def)
  then show ?thesis
    by (auto simp: ov_def so_GetState_def so_Code_def so_setCode_def code_value_def fun_eq_iff split: option.split sum.split)
qed

lemma be_bytes_BytesToHash:
  assumes "length b = 32"
  shows "HashBytes (BytesToHash b) = b"
proof -
  have "be_nat b < 256 ^ 32"
    using be_nat_less [of b] assms by simp
  then have "unat (BytesToHash b) = be_nat b"
    by (simp add: BytesToHash_def unat_of_nat)
  then show ?thesis
    using be_bytes_be_nat [of b] assms by (simp add: HashBytes_def)
qed

text \<open>The code an object has is what its code field and code hash determine.\<close>

lemma ov_code_value:
  assumes "length (acct_CodeHash (so_data ob)) = 32"
  shows "ov_code (ov s ob) = code_value s (so_address ob) (BytesToHash (acct_CodeHash (so_data ob))) (ov_code (ov s ob))"
  using be_bytes_BytesToHash [OF assms]
  by (auto simp: ov_def so_Code_def code_value_def split: sum.split)

lemma withLive_view:
  assumes wf_state: "wf_state t" and v: "v_objs (view t) a = Some v" "\<not> ov_deleted v"
  shows "\<exists>ob t1. withLive a f t = Inr (setStateObject (f ob) t1) \<and> wf_state t1 \<and> view t1 = view t \<and>
    ov t1 ob = v \<and> obj_ok t1 a ob"
proof -
  obtain ob where ob: "live t a = Some ob" "ov t ob = v"
    using v by (auto simp: v_objs_view)
  then have nd: "\<not> so_deleted ob"
    using v by (auto simp: ov_def)
  obtain r t1 where g: "getStateObject a t = (r, t1)"
    by fastforce
  note q = getStateObject_quiet [OF g]
  have r: "r = Some ob"
    using q(2) ob nd by simp
  have vt: "view t1 = view t" "wf_state t1"
    using q(1) wf_state by (auto simp: quiet_def)
  have so: "stateObjects t1 a = Some ob"
    using q(3) r by blast
  then have "live t1 a = Some ob"
    by (simp add: live_def)
  then have "v_objs (view t1) a = Some (ov t1 ob)"
    by (simp add: v_objs_view)
  then have "ov t1 ob = v"
    using vt v by simp
  moreover have "obj_ok t1 a ob"
    using vt so by (simp add: wf_state_def)
  ultimately show ?thesis
    using g r vt by (auto simp: withLive_def)
qed

lemma view_env:
  assumes "view t = view s"
  shows "db t = db s" "snap t = snap s" "originalRoot t = originalRoot s" "acct_trie t = acct_trie s"
    "stateObjectsDestruct t = stateObjectsDestruct s" "accessL t = accessL s" "refund t = refund s"
    "logs t = logs s" "logSize t = logSize s" "preimages t = preimages s" "accounts t = accounts s"
    "storages t = storages s" "accountsOrigin t = accountsOrigin s" "storagesOrigin t = storagesOrigin s"
    "stateObjectsDirty t = stateObjectsDirty s" "stateObjectsPending t = stateObjectsPending s"
    "thash t = thash s" "txIndex t = txIndex s"
  using assms by (simp_all add: view_def)

text \<open>A journalled change of an object whose undo is a setter of the object.\<close>

lemma extends_object:
  assumes ok: "state_ok s" and so: "stateObjects s a = Some ob"
    and ob': "obj_ok s a ob'" "\<not> so_deleted ob'"
    and e: "\<And>t. je_revert e t = withLive a g t"
    and undo: "\<And>t x. view t = view (setStateObject ob' s) \<Longrightarrow> obj_ok t a x \<Longrightarrow> ov t x = ov s ob' \<Longrightarrow>
      obj_ok t a (g x) \<and> ov t (g x) = ov s ob"
  shows "extends s (setStateObject ob' (addEntry e s))"
proof (rule extends_step [OF ok, where e = e])
  let ?s' = "setStateObject ob' (addEntry e s)"
  have s': "?s' = (setStateObject ob' s)\<lparr>journ := journal_append e (journ s)\<rparr>"
    by (simp add: setStateObject_def addEntry_def)
  have wf_state: "wf_state s"
    using ok by (simp add: state_ok_def)
  have a: "so_address ob' = a"
    using ob' by (simp add: obj_ok_def)
  show "wf_state ?s'"
    unfolding s' using wf_state ob' a by (simp add: wf_setStateObject)
  have vs: "v_objs (view s) a = Some (ov s ob)"
    using so by (simp add: v_objs_view live_def)
  show "\<exists>t'. je_revert e t = Inr t' \<and> wf_state t' \<and> view t' = view s" if t: "wf_state t" "view t = view ?s'" for t
  proof -
    have v: "view t = (view s)\<lparr>v_objs := (v_objs (view s))(a \<mapsto> ov s ob')\<rparr>"
      using t(2) a unfolding s' by (simp add: view_setStateObject)
    then have "v_objs (view t) a = Some (ov s ob')" "\<not> ov_deleted (ov s ob')"
      using ob' by (simp_all add: ov_def)
    from withLive_view [OF t(1) this] obtain x t1 where x: "withLive a g t = Inr (setStateObject (g x) t1)"
      "wf_state t1" "view t1 = view t" "ov t1 x = ov s ob'" "obj_ok t1 a x"
      by blast
    have "view t1 = view (setStateObject ob' s)"
      using x(3) t(2) unfolding s' by simp
    from undo [OF this x(5,4)] have g: "obj_ok t1 a (g x)" "ov t1 (g x) = ov s ob"
      by auto
    have "so_address (g x) = a"
      using g by (simp add: obj_ok_def)
    then have "view (setStateObject (g x) t1) = view s"
      using g v x(3) vs by (simp add: view_setStateObject fun_upd_idem)
    then show ?thesis
      using e x g wf_setStateObject [OF x(2), of "g x"] \<open>so_address (g x) = a\<close> by auto
  qed
qed (simp_all add: addEntry_def)

section \<open>The operations\<close>

lemma state_ok_wf: "state_ok s \<Longrightarrow> wf_state s"
  by (simp add: state_ok_def)

lemma so_SetBalance_extends:
  assumes ok: "state_ok s" and so: "stateObjects s a = Some ob" "\<not> so_deleted ob"
    and r: "so_SetBalance b ob s = (ob', s')"
  shows "extends s (setStateObject ob' s')"
proof -
  have o: "obj_ok s a ob"
    using ok so by (simp add: state_ok_def wf_state_def)
  have "extends s (setStateObject (so_setBalance b ob)
      (addEntry (balanceChange (so_address ob) (acct_Balance (so_data ob))) s))"
  proof (rule extends_object [OF ok so(1), where g = "so_setBalance (acct_Balance (so_data ob))"])
    fix t x
    assume "obj_ok t a x" and v: "ov t x = ov s (so_setBalance b ob)"
    moreover from v have "so_data x = (so_data ob)\<lparr>acct_Balance := b\<rparr>"
      by (simp add: ov_def so_setBalance_def)
    ultimately show "obj_ok t a (so_setBalance (acct_Balance (so_data ob)) x) \<and>
        ov t (so_setBalance (acct_Balance (so_data ob)) x) = ov s ob"
      by (simp add: ov_setBalance, simp add: obj_ok_def so_setBalance_def ov_def)
  qed (use o so in \<open>auto simp: obj_ok_def so_setBalance_def\<close>)
  then show ?thesis
    using r by (auto simp: so_SetBalance_def)
qed

lemma so_SetNonce_extends:
  assumes ok: "state_ok s" and so: "stateObjects s a = Some ob" "\<not> so_deleted ob"
    and r: "so_SetNonce n ob s = (ob', s')"
  shows "extends s (setStateObject ob' s')"
proof -
  have o: "obj_ok s a ob"
    using ok so by (simp add: state_ok_def wf_state_def)
  have "extends s (setStateObject (so_setNonce n ob)
      (addEntry (nonceChange (so_address ob) (acct_Nonce (so_data ob))) s))"
  proof (rule extends_object [OF ok so(1), where g = "so_setNonce (acct_Nonce (so_data ob))"])
    fix t x
    assume "obj_ok t a x" and v: "ov t x = ov s (so_setNonce n ob)"
    moreover from v have "so_data x = (so_data ob)\<lparr>acct_Nonce := n\<rparr>"
      by (simp add: ov_def so_setNonce_def)
    ultimately show "obj_ok t a (so_setNonce (acct_Nonce (so_data ob)) x) \<and>
        ov t (so_setNonce (acct_Nonce (so_data ob)) x) = ov s ob"
      by (simp add: ov_setNonce, simp add: obj_ok_def so_setNonce_def ov_def)
  qed (use o so in \<open>auto simp: obj_ok_def so_setNonce_def\<close>)
  then show ?thesis
    using r by (auto simp: so_SetNonce_def)
qed

lemma stored_object:
  assumes ok: "state_ok s" and so: "stateObjects s a = Some ob" "\<not> so_deleted ob"
    and same: "same_obj s ob ob1" "err_only s s1"
  shows "extends s (setStateObject ob1 s1)" "state_ok (setStateObject ob1 s1)"
    "stateObjects (setStateObject ob1 s1) a = Some ob1" "\<not> so_deleted ob1"
    "ov (setStateObject ob1 s1) = ov s" "obj_ok (setStateObject ob1 s1) a ob1" "so_address ob1 = a"
proof -
  have o: "obj_ok s a ob"
    using ok so by (simp add: state_ok_def wf_state_def)
  show ext: "extends s (setStateObject ob1 s1)"
    using quiet_store [OF so(1) same state_ok_wf [OF ok]] by (rule extends_quiet [OF ok])
  then show "state_ok (setStateObject ob1 s1)"
    by (rule extends_state_ok)
  show a: "so_address ob1 = a" and "obj_ok (setStateObject ob1 s1) a ob1"
    using o same same_obj_data [OF same(1)] by (auto simp: obj_ok_def same_obj_def err_only_def)
  then show "stateObjects (setStateObject ob1 s1) a = Some ob1"
    by (simp add: setStateObject_def)
  have "ov_deleted (ov s ob1) = ov_deleted (ov s ob)"
    using same(1) by (simp add: same_obj_def)
  then show "\<not> so_deleted ob1"
    using so(2) by (simp add: ov_def)
  show "ov (setStateObject ob1 s1) = ov s"
    using same(2) by (auto simp: err_only_def fun_eq_iff setStateObject_def)
qed

lemma so_SetState_extends:
  assumes ok: "state_ok s" and so: "stateObjects s a = Some ob" "\<not> so_deleted ob"
    and r: "so_SetState k v ob s = (ob', s')"
  shows "extends s (setStateObject ob' s')"
proof -
  obtain prev ob1 s1 where g: "so_GetState ob k s = (prev, ob1, s1)"
    by (metis prod_cases3)
  note same = so_GetState_same [OF g]
  note st = stored_object [OF ok so same(1,3)]
  let ?s1 = "setStateObject ob1 s1"
  show ?thesis
  proof (cases "prev = v")
    case True
    then show ?thesis
      using r g st(1) by (auto simp: so_SetState_def)
  next
    case False
    note a = st(7)
    have "extends ?s1 (setStateObject (so_setState k v ob1) (addEntry (storageChange a k prev) ?s1))"
    proof (rule extends_object [OF st(2,3), where g = "so_setState k prev"])
      fix t x
      assume "obj_ok t a x" and v: "ov t x = ov ?s1 (so_setState k v ob1)"
      moreover have "prev = ov_state (ov s ob1) k"
        using same(1,2) by (simp add: same_obj_def)
      ultimately show "obj_ok t a (so_setState k prev x) \<and> ov t (so_setState k prev x) = ov ?s1 ob1"
        unfolding ov_setState v st(5) by (simp add: obj_ok_def so_setState_def)
    qed (use st in \<open>auto simp: obj_ok_def so_setState_def\<close>)
    also have "setStateObject (so_setState k v ob1) (addEntry (storageChange a k prev) ?s1) =
        setStateObject (so_setState k v ob1) (addEntry (storageChange a k prev) s1)"
      by (simp add: setStateObject_def addEntry_def so_setState_def)
    finally have "extends s (setStateObject (so_setState k v ob1) (addEntry (storageChange a k prev) s1))"
      using st(1) extends_trans by blast
    then show ?thesis
      using r g False a by (auto simp: so_SetState_def)
  qed
qed

lemma so_SetCode_extends:
  assumes ok: "state_ok s" and so: "stateObjects s a = Some ob" "\<not> so_deleted ob"
    and r: "so_SetCode h c ob s = (ob', s')"
  shows "extends s (setStateObject ob' s')"
proof -
  obtain prev ob1 s1 where g: "so_Code ob s = (prev, ob1, s1)"
    by (metis prod_cases3)
  note same = so_Code_same [OF g]
  note st = stored_object [OF ok so same(1,3)]
  note a = st(7)
  let ?s1 = "setStateObject ob1 s1"
  let ?e = "codeChange a prev (acct_CodeHash (so_data ob1))"
  let ?g = "so_setCode (BytesToHash (acct_CodeHash (so_data ob1))) prev"
  have len: "length (acct_CodeHash (so_data ob1)) = 32"
    using st(6) by (simp add: obj_ok_def)
  have pv: "prev = ov_code (ov ?s1 ob1)"
    using same(1,2) st(5) by (simp add: same_obj_def)
  have "extends ?s1 (setStateObject (so_setCode h c ob1) (addEntry ?e ?s1))"
  proof (rule extends_object [OF st(2,3), where g = ?g])
    fix t x
    assume vt: "view t = view (setStateObject (so_setCode h c ob1) ?s1)" and x: "obj_ok t a x"
      and v: "ov t x = ov ?s1 (so_setCode h c ob1)"
    have "so_data x = (so_data ob1)\<lparr>acct_CodeHash := HashBytes h\<rparr>"
      using v by (simp add: ov_def so_setCode_def)
    moreover have "code_value t a (BytesToHash (acct_CodeHash (so_data ob1))) prev =
        code_value ?s1 a (BytesToHash (acct_CodeHash (so_data ob1))) prev"
      using view_env(1) [OF vt] by (simp add: code_value_def)
    moreover have "code_value ?s1 a (BytesToHash (acct_CodeHash (so_data ob1))) prev = prev"
      using ov_code_value [OF len, of ?s1] a by (simp only: pv [symmetric])
    ultimately show "obj_ok t a (?g x) \<and> ov t (?g x) = ov ?s1 ob1"
      using x v len pv unfolding ov_setCode
      by (simp add: obj_ok_def so_setCode_def be_bytes_BytesToHash, simp add: ov_def)
  qed (use st in \<open>auto simp: obj_ok_def so_setCode_def\<close>)
  also have "setStateObject (so_setCode h c ob1) (addEntry ?e ?s1) =
      setStateObject (so_setCode h c ob1) (addEntry ?e s1)"
    by (simp add: setStateObject_def addEntry_def so_setCode_def)
  finally have "extends s (setStateObject (so_setCode h c ob1) (addEntry ?e s1))"
    using st(1) extends_trans by blast
  then show ?thesis
    using r g a by (auto simp: so_SetCode_def)
qed

text \<open>Creating an object that did not exist.\<close>

lemma obj_ok_newObject: "obj_ok s a (newObject s a None)" "so_address (newObject s a None) = a"
  by (simp_all add: obj_ok_def newObject_def NewEmptyStateAccount_def)

lemma createObject_fresh:
  assumes ok: "state_ok s" and none: "stateObjects s a = None" "live s a = None"
    and ob: "obj_ok s a ob"
  shows "extends s (setStateObject ob (addEntry (createObjectChange a) s))" (is "extends s ?s'")
proof (rule extends_step [OF ok, where e = "createObjectChange a"])
  have s': "?s' = (setStateObject ob s)\<lparr>journ := journal_append (createObjectChange a) (journ s)\<rparr>"
    by (simp add: setStateObject_def addEntry_def)
  have wf_state: "wf_state s"
    using ok by (simp add: state_ok_def)
  have a: "so_address ob = a"
    using ob by (simp add: obj_ok_def)
  show "wf_state ?s'"
    unfolding s' using wf_state ob a by (simp add: wf_setStateObject)
  have nd: "a \<notin> stateObjectsDirty s"
    using wf_state none by (auto simp: wf_state_def)
  have ld: "loaded s a = None"
    using none by (simp add: live_def)
  show "\<exists>t'. je_revert (createObjectChange a) t = Inr t' \<and> wf_state t' \<and> view t' = view s"
    if t: "wf_state t" "view t = view ?s'" for t
  proof -
    let ?t' = "t\<lparr>stateObjects := (stateObjects t)(a := None), stateObjectsDirty := stateObjectsDirty t - {a}\<rparr>"
    have v: "view t = (view s)\<lparr>v_objs := (v_objs (view s))(a \<mapsto> ov s ob)\<rparr>"
      using t(2) a unfolding s' by (simp add: view_setStateObject)
    have env: "db t = db s" "snap t = snap s" "acct_trie t = acct_trie s" "stateObjectsDirty t = stateObjectsDirty s"
      using view_env [OF t(2)] by (simp_all add: addEntry_def)
    have "loaded t a = None"
      using ld loaded_cong [of t s] env by simp
    then have "live ?t' = (live t)(a := None)"
      by (auto simp: live_def fun_eq_iff split: option.split)
    moreover have "ov ?t' = ov t"
      by (simp add: fun_eq_iff)
    ultimately have "view ?t' = (view t)\<lparr>v_objs := (v_objs (view t))(a := None)\<rparr>"
      using env nd by (simp add: view_def lookup_live) (intro HOL.ext, simp)
    moreover have "v_objs (view s) a = None"
      using none by (simp add: v_objs_view)
    ultimately have "view ?t' = view s"
      using v by (simp add: fun_upd_idem)
    moreover have "wf_state ?t'"
      using t(1) by (auto simp: wf_state_def)
    ultimately show ?thesis by simp
  qed
qed (simp_all add: addEntry_def)

text \<open>Replacing an existing object: the old one is marked destructed and its cached data is
  dropped.\<close>

definition resetState :: "address \<Rightarrow> stateObject \<Rightarrow> statedb \<Rightarrow> statedb" where
  "resetState a p s =
     (let s = (if stateObjectsDestruct s a \<noteq> None then s
               else s\<lparr>stateObjectsDestruct := (stateObjectsDestruct s)(a \<mapsto> so_origin p)\<rparr>)
      in s\<lparr>accounts := (accounts s)(so_addrHash p := None),
           storages := (storages s)(so_addrHash p := None),
           accountsOrigin := (accountsOrigin s)(a := None),
           storagesOrigin := (storagesOrigin s)(a := None)\<rparr>)"

definition resetEntry :: "address \<Rightarrow> stateObject \<Rightarrow> statedb \<Rightarrow> journalEntry" where
  "resetEntry a p s =
     resetObjectChange a p (stateObjectsDestruct s a \<noteq> None)
       (case accounts s (so_addrHash p) of None \<Rightarrow> [] | Some b \<Rightarrow> b) (storages s (so_addrHash p))
       (accountsOrigin s a \<noteq> None) (case accountsOrigin s a of None \<Rightarrow> [] | Some b \<Rightarrow> b)
       (storagesOrigin s a)"

lemma createObject_eq:
  assumes "getDeletedStateObject a s = (prev, s0)" "\<forall>p. prev = Some p \<longrightarrow> so_address p = a"
  shows "createObject a s =
    (let newobj = (newObject s0 a None)\<lparr>so_created := True\<rparr>
     in case prev of
          None \<Rightarrow> ((newobj, None), setStateObject newobj (addEntry (createObjectChange a) s0))
        | Some p \<Rightarrow> ((newobj, if so_deleted p then None else Some p),
            setStateObject newobj (addEntry (resetEntry a p s0) (resetState a p s0))))"
  using assms
  by (auto simp: createObject_def resetState_def resetEntry_def addEntry_def setStateObject_def Let_def
      intro!: statedb.equality split: option.split)

lemma je_revert_reset:
  "je_revert (resetObjectChange a p d acc st ex ao so) s =
     Inr (s\<lparr>stateObjects := (stateObjects s)(so_address p \<mapsto> p),
       stateObjectsDestruct := (if d then stateObjectsDestruct s
         else (stateObjectsDestruct s)(so_address p := None)),
       accounts := (if acc \<noteq> [] then (accounts s)(so_addrHash p \<mapsto> acc) else accounts s),
       storages := (case st of None \<Rightarrow> storages s | Some m \<Rightarrow> (storages s)(so_addrHash p \<mapsto> m)),
       accountsOrigin := (if ex then (accountsOrigin s)(so_address p \<mapsto> ao) else accountsOrigin s),
       storagesOrigin := (case so of None \<Rightarrow> storagesOrigin s
         | Some m \<Rightarrow> (storagesOrigin s)(so_address p \<mapsto> m))\<rparr>)"
  by (cases d; cases ex; cases st; cases so; cases "acc = []")
    (simp_all add: Let_def setStateObject_def)

lemma v_objs_other:
  assumes "wf_state s" "stateObjects t b = stateObjects s b" "db t = db s" "snap t = snap s"
    "originalRoot t = originalRoot s" "acct_trie t = acct_trie s"
    "stateObjectsDestruct t b = None \<longleftrightarrow> stateObjectsDestruct s b = None"
  shows "v_objs (view t) b = v_objs (view s) b"
proof -
  have l: "live t b = live s b"
    using assms loaded_cong [of t s b] by (simp add: live_def split: option.split)
  have "ov t x = ov s x" if "live s b = Some x" for x
    using assms wf_live [OF assms(1) that] by (intro ov_cong) (auto simp: obj_ok_def)
  then show ?thesis
    by (cases "live s b") (simp_all add: v_objs_view l)
qed

lemma resetState_undo:
  assumes wf_state: "wf_state s" and p: "stateObjects s a = Some p"
    and t: "wf_state t" "view t = view (setStateObject ob (resetState a p s))" and ob: "so_address ob = a"
  shows "\<exists>t'. je_revert (resetEntry a p s) t = Inr t' \<and> wf_state t' \<and> view t' = view s"
proof -
  let ?s' = "setStateObject ob (resetState a p s)"
  have pok: "obj_ok s a p"
    using wf_state p by (simp add: wf_state_def)
  then have pa: "so_address p = a"
    by (simp add: obj_ok_def)
  have env: "db t = db s" "snap t = snap s" "originalRoot t = originalRoot s" "acct_trie t = acct_trie s"
    using view_env [OF t(2)] by (auto simp: resetState_def Let_def)
  define t' where "t' = t\<lparr>stateObjects := (stateObjects t)(a \<mapsto> p),
    stateObjectsDestruct := stateObjectsDestruct s, accounts := accounts s, storages := storages s,
    accountsOrigin := accountsOrigin s, storagesOrigin := storagesOrigin s\<rparr>"
  have acc: "accounts s (so_addrHash p) \<noteq> Some []"
    using wf_state by (simp add: wf_state_def)
  have "je_revert (resetEntry a p s) t = Inr t'"
    using view_env [OF t(2)] acc pa unfolding resetEntry_def je_revert_reset t'_def
    by (auto simp: resetState_def Let_def fun_upd_idem intro!: statedb.equality split: option.split)
  moreover have "wf_state t'"
    using t(1) wf_state pok env by (auto simp: t'_def wf_state_def obj_ok_def)
  moreover have "view t' = view s"
  proof -
    have d: "stateObjectsDestruct ?s' b = stateObjectsDestruct s b" if "b \<noteq> a" for b
      using that by (simp add: resetState_def Let_def)
    have "v_objs (view t') b = v_objs (view s) b" for b
    proof (cases "b = a")
      case True
      have "ov t' p = ov s p"
        using env by (intro ov_cong) (simp_all add: t'_def)
      then show ?thesis
        using True p by (simp add: v_objs_view live_def t'_def)
    next
      case False
      have "v_objs (view t') b = v_objs (view t) b"
        using t(1) False d view_env(5) [OF t(2)] by (intro v_objs_other) (simp_all add: t'_def)
      also have "\<dots> = v_objs (view ?s') b"
        using t(2) by simp
      also have "\<dots> = v_objs (view s) b"
        using wf_state False ob d by (intro v_objs_other) (simp_all add: setStateObject_def resetState_def Let_def)
      finally show ?thesis .
    qed
    then have "v_objs (view t') = v_objs (view s)"
      by (rule HOL.ext)
    then show ?thesis
      using view_env [OF t(2)] by (simp add: view_def t'_def resetState_def Let_def split: if_splits)
  qed
  ultimately show ?thesis by blast
qed

lemma createObject_store:
  assumes ok: "state_ok s" and c: "createObject a s = ((ob, prev), s')"
    and ob': "\<And>d. d = db s \<Longrightarrow> so_address ob' = a \<and> so_addrHash ob' = Keccak256Hash d (AddressBytes a) \<and>
      length (acct_CodeHash (so_data ob')) = 32"
  shows "extends s (setStateObject ob' s')"
proof -
  obtain p s0 where g: "getDeletedStateObject a s = (p, s0)"
    by fastforce
  note q = getDeletedStateObject_quiet [OF g]
  have e0: "extends s s0"
    using ok q(1) by (rule extends_quiet)
  then have ok0: "state_ok s0"
    by (rule extends_state_ok)
  then have wf0: "wf_state s0"
    by (rule state_ok_wf)
  have vs: "view s0 = view s"
    using q(1) by (simp add: quiet_def)
  have pa: "\<forall>x. p = Some x \<longrightarrow> so_address x = a"
    using wf0 q(3) by (auto simp: wf_state_def obj_ok_def)
  have ob: "obj_ok s0 a ob'" "so_address ob' = a"
    using ob' [OF refl] view_env(1) [OF vs] by (simp_all add: obj_ok_def)
  let ?n = "(newObject s0 a None)\<lparr>so_created := True\<rparr>"
  have upd: "setStateObject ob' (setStateObject ?n u) = setStateObject ob' u" for u
    using ob(2) by (simp add: setStateObject_def newObject_def)
  have c': "s' = setStateObject ?n (case p of None \<Rightarrow> addEntry (createObjectChange a) s0
      | Some x \<Rightarrow> addEntry (resetEntry a x s0) (resetState a x s0))"
    using c unfolding createObject_eq [OF g pa] by (auto simp: Let_def split: option.splits)
  have "extends s0 (setStateObject ob' s')"
  proof (cases p)
    case None
    have "live s0 a = None"
      using q None v_objs_view [of s0 a] v_objs_view [of s a] vs by simp
    then show ?thesis
      using None createObject_fresh [OF ok0 _ _ ob(1)] q(3) by (simp add: c' upd)
  next
    case (Some x)
    have so: "stateObjects s0 a = Some x"
      using q(3) Some by simp
    have s': "setStateObject ob' s' =
        (setStateObject ob' (resetState a x s0))\<lparr>journ := journal_append (resetEntry a x s0) (journ s0)\<rparr>"
      using Some unfolding c' upd by (simp add: setStateObject_def addEntry_def resetState_def Let_def)
    show ?thesis
    proof (rule extends_step [OF ok0, where e = "resetEntry a x s0"])
      show "wf_state (setStateObject ob' s')"
        unfolding s' using wf0 ob by (auto simp: wf_state_def setStateObject_def resetState_def Let_def obj_ok_def)
      show "\<exists>t'. je_revert (resetEntry a x s0) t = Inr t' \<and> wf_state t' \<and> view t' = view s0"
        if "wf_state t" "view t = view (setStateObject ob' s')" for t
        using resetState_undo [OF wf0 so that(1) _ ob(2)] that(2) unfolding s' by simp
    qed (simp_all only: s', simp_all add: resetState_def Let_def)
  qed
  then show ?thesis
    using e0 extends_trans by blast
qed

lemma createObject_object:
  assumes ok: "state_ok s" and c: "createObject a s = ((ob, prev), s')"
  shows "so_address ob = a" "so_addrHash ob = Keccak256Hash (db s) (AddressBytes a)"
    "length (acct_CodeHash (so_data ob)) = 32" "\<not> so_deleted ob" "stateObjects s' a = Some ob"
    "setStateObject ob s' = s'"
proof -
  obtain p s0 where g: "getDeletedStateObject a s = (p, s0)"
    by fastforce
  note q = getDeletedStateObject_quiet [OF g]
  have "extends s s0"
    using ok q(1) by (rule extends_quiet)
  then have "wf_state s0"
    using extends_state_ok state_ok_wf by blast
  then have pa: "\<forall>x. p = Some x \<longrightarrow> so_address x = a"
    using q(3) by (auto simp: wf_state_def obj_ok_def)
  have d: "db s0 = db s"
    using q(1) by (auto simp: quiet_def dest: view_env(1))
  have ob: "ob = (newObject s0 a None)\<lparr>so_created := True\<rparr>" and s': "\<exists>t. s' = setStateObject ob t"
    using c unfolding createObject_eq [OF g pa] by (auto simp: Let_def split: option.splits)
  show 1: "so_address ob = a" "so_addrHash ob = Keccak256Hash (db s) (AddressBytes a)"
    "length (acct_CodeHash (so_data ob)) = 32" "\<not> so_deleted ob"
    using d by (simp_all add: ob newObject_def NewEmptyStateAccount_def)
  show "stateObjects s' a = Some ob" "setStateObject ob s' = s'"
    using s' 1(1) by (auto simp: setStateObject_def)
qed

lemma createObject_extends:
  assumes ok: "state_ok s" and c: "createObject a s = ((ob, prev), s')"
  shows "extends s s'"
  using createObject_store [OF ok c, of ob] createObject_object [OF ok c] by simp

lemma CreateAccount_extends: "state_ok s \<Longrightarrow> extends s (CreateAccount a s)"
proof -
  assume ok: "state_ok s"
  obtain ob prev s' where c: "createObject a s = ((ob, prev), s')"
    by (metis prod.exhaust)
  have "extends s (setStateObject (so_setBalance b ob) s')" for b
    using createObject_object [OF ok c] by (intro createObject_store [OF ok c]) (simp add: so_setBalance_def)
  then show ?thesis
    using c createObject_extends [OF ok c] by (simp add: CreateAccount_def split: option.split)
qed

lemma GetOrNewStateObject_extends:
  assumes ok: "state_ok s" and g: "GetOrNewStateObject a s = (ob, s')"
  shows "extends s s'" "stateObjects s' a = Some ob" "\<not> so_deleted ob"
proof -
  obtain r s0 where r: "getStateObject a s = (r, s0)"
    by fastforce
  note q = getStateObject_quiet [OF r]
  have e0: "extends s s0"
    using ok q(1) by (rule extends_quiet)
  have "extends s s' \<and> stateObjects s' a = Some ob \<and> \<not> so_deleted ob"
  proof (cases r)
    case (Some x)
    then show ?thesis
      using g r q(3) e0 by (simp add: GetOrNewStateObject_def)
  next
    case None
    obtain x prev s1 where c: "createObject a s0 = ((x, prev), s1)"
      by (metis prod.exhaust)
    then show ?thesis
      using g r None createObject_extends [OF extends_state_ok [OF e0] c] createObject_object [OF extends_state_ok [OF e0] c]
        extends_trans [OF e0]
      by (auto simp: GetOrNewStateObject_def)
  qed
  then show "extends s s'" "stateObjects s' a = Some ob" "\<not> so_deleted ob"
    by auto
qed

lemma withObject_extends:
  assumes ok: "state_ok s"
    and f: "\<And>s ob ob' s'. state_ok s \<Longrightarrow> stateObjects s a = Some ob \<Longrightarrow> \<not> so_deleted ob \<Longrightarrow>
      f ob s = (ob', s') \<Longrightarrow> extends s (setStateObject ob' s')"
  shows "extends s (withObject a f s)"
proof -
  obtain ob s1 where g: "GetOrNewStateObject a s = (ob, s1)"
    by fastforce
  obtain ob' s2 where r: "f ob s1 = (ob', s2)"
    by fastforce
  note e = GetOrNewStateObject_extends [OF ok g]
  have "extends s1 (setStateObject ob' s2)"
    using f [OF extends_state_ok [OF e(1)] e(2,3) r] .
  then show ?thesis
    using g r e(1) extends_trans by (simp add: withObject_def)
qed

end
