(* ===== verification/State_Snapshot.thy ===== *)
theory State_Snapshot
  imports State_Revert "HOL-Library.Multiset"
begin

text \<open>
  Every operation of \<open>StateDB\<close> extends the journal with entries that undo it, and
  \<open>RevertToSnapshot\<close> therefore brings back what was observable when the snapshot was taken. The
  last section states this for every run of operations, with snapshots taken and reverted in any
  order.
\<close>

section \<open>Reads\<close>

definition live_view :: "state_view \<Rightarrow> address \<Rightarrow> obj_view option" where
  "live_view v a = (case v_objs v a of Some x \<Rightarrow> if ov_deleted x then None else Some x | None \<Rightarrow> None)"

lemma ov_sel [simp]: "ov_data (ov s ob) = so_data ob" "ov_deleted (ov s ob) = so_deleted ob"
  "ov_created (ov s ob) = so_created ob" "ov_origin (ov s ob) = so_origin ob"
  by (simp_all add: ov_def)

lemma getStateObject_view:
  assumes "getStateObject a s = (r, s')"
  shows "map_option (ov s') r = live_view (view s) a"
proof -
  note q = getStateObject_quiet [OF assms]
  have "ov s' ob = ov s ob" if "r = Some ob" for ob
    using q(1,3) v_objs_view [of s a] v_objs_view [of s' a] that q(2)
    by (auto simp: live_def quiet_def split: option.splits if_splits)
  then show ?thesis
    using q(2) by (auto simp: live_view_def v_objs_view split: option.split)
qed

lemma read_quiet:
  assumes "wf_state s"
    and m: "\<And>ob s. wf_state s \<Longrightarrow> stateObjects s a = Some ob \<Longrightarrow>
      quiet s (snd (f ob s)) \<and> fst (f ob s) = g (db s) (Some (ov s ob))"
    and d: "d = g (db s) None"
  shows "quiet s (snd (case getStateObject a s of (None, s) \<Rightarrow> (d, s) | (Some ob, s) \<Rightarrow> f ob s)) \<and>
    fst (case getStateObject a s of (None, s) \<Rightarrow> (d, s) | (Some ob, s) \<Rightarrow> f ob s) =
      g (db s) (live_view (view s) a)"
proof -
  obtain r s' where r: "getStateObject a s = (r, s')"
    by fastforce
  note q = getStateObject_quiet [OF r] and v = getStateObject_view [OF r]
  have db: "db s' = db s" and wf': "wf_state s'"
    using q(1) assms(1) by (auto simp: quiet_def dest: view_env(1))
  show ?thesis
  proof (cases r)
    case None
    then show ?thesis using r q(1) v d by simp
  next
    case (Some ob)
    then show ?thesis
      using r q(1) v m [OF wf', of ob] q(3) db by (auto dest: quiet_trans)
  qed
qed

definition empty_account :: "database \<Rightarrow> StateAccount \<Rightarrow> bool" where
  "empty_account d acct \<longleftrightarrow>
     acct_Nonce acct = 0 \<and> acct_Balance acct = 0 \<and> acct_CodeHash acct = HashBytes (EmptyCodeHash d)"

lemma so_empty_account: "so_empty s ob \<longleftrightarrow> empty_account (db s) (so_data ob)"
  by (simp add: so_empty_def empty_account_def)

lemma account_reads:
  assumes wf: "wf_state s"
  shows Exist_read: "quiet s (snd (Exist a s))" "fst (Exist a s) \<longleftrightarrow> live_view (view s) a \<noteq> None"
    and Empty_read: "quiet s (snd (Empty a s))"
      "fst (Empty a s) \<longleftrightarrow> (case live_view (view s) a of None \<Rightarrow> True | Some x \<Rightarrow> empty_account (db s) (ov_data x))"
    and GetBalance_read: "quiet s (snd (GetBalance a s))"
      "fst (GetBalance a s) = (case live_view (view s) a of None \<Rightarrow> 0 | Some x \<Rightarrow> acct_Balance (ov_data x))"
    and GetNonce_read: "quiet s (snd (GetNonce a s))"
      "fst (GetNonce a s) = (case live_view (view s) a of None \<Rightarrow> 0 | Some x \<Rightarrow> acct_Nonce (ov_data x))"
    and GetStorageRoot_read: "quiet s (snd (GetStorageRoot a s))"
      "fst (GetStorageRoot a s) = (case live_view (view s) a of None \<Rightarrow> 0 | Some x \<Rightarrow> acct_Root (ov_data x))"
    and GetCodeHash_read: "quiet s (snd (GetCodeHash a s))"
      "fst (GetCodeHash a s) =
         (case live_view (view s) a of None \<Rightarrow> 0 | Some x \<Rightarrow> BytesToHash (acct_CodeHash (ov_data x)))"
proof -
  note rd = read_quiet [OF wf, of a]
  have ex: "Exist a s = (case getStateObject a s of (None, s) \<Rightarrow> (False, s) | (Some ob, s) \<Rightarrow> (True, s))"
    by (simp add: Exist_def split: prod.split option.split)
  show "quiet s (snd (Exist a s))" "fst (Exist a s) \<longleftrightarrow> live_view (view s) a \<noteq> None"
    using rd [of "\<lambda>ob s. (True, s)" "\<lambda>_ x. x \<noteq> None" False] by (simp_all add: ex)
  show "quiet s (snd (Empty a s))"
    "fst (Empty a s) \<longleftrightarrow> (case live_view (view s) a of None \<Rightarrow> True | Some x \<Rightarrow> empty_account (db s) (ov_data x))"
    using rd [of "\<lambda>ob s. (so_empty s ob, s)"
        "\<lambda>d x. case x of None \<Rightarrow> True | Some x \<Rightarrow> empty_account d (ov_data x)" True]
    by (simp_all add: Empty_def so_empty_account)
  show "quiet s (snd (GetBalance a s))"
      "fst (GetBalance a s) = (case live_view (view s) a of None \<Rightarrow> 0 | Some x \<Rightarrow> acct_Balance (ov_data x))"
    using rd [of "\<lambda>ob s. (acct_Balance (so_data ob), s)"
        "\<lambda>_ x. case x of None \<Rightarrow> 0 | Some x \<Rightarrow> acct_Balance (ov_data x)" 0]
    by (simp_all add: GetBalance_def)
  show "quiet s (snd (GetNonce a s))"
      "fst (GetNonce a s) = (case live_view (view s) a of None \<Rightarrow> 0 | Some x \<Rightarrow> acct_Nonce (ov_data x))"
    using rd [of "\<lambda>ob s. (acct_Nonce (so_data ob), s)"
        "\<lambda>_ x. case x of None \<Rightarrow> 0 | Some x \<Rightarrow> acct_Nonce (ov_data x)" 0]
    by (simp_all add: GetNonce_def)
  show "quiet s (snd (GetStorageRoot a s))"
      "fst (GetStorageRoot a s) = (case live_view (view s) a of None \<Rightarrow> 0 | Some x \<Rightarrow> acct_Root (ov_data x))"
    using rd [of "\<lambda>ob s. (acct_Root (so_data ob), s)"
        "\<lambda>_ x. case x of None \<Rightarrow> 0 | Some x \<Rightarrow> acct_Root (ov_data x)" 0]
    by (simp_all add: GetStorageRoot_def)
  show "quiet s (snd (GetCodeHash a s))"
      "fst (GetCodeHash a s) =
         (case live_view (view s) a of None \<Rightarrow> 0 | Some x \<Rightarrow> BytesToHash (acct_CodeHash (ov_data x)))"
    using rd [of "\<lambda>ob s. (BytesToHash (acct_CodeHash (so_data ob)), s)"
        "\<lambda>_ x. case x of None \<Rightarrow> 0 | Some x \<Rightarrow> BytesToHash (acct_CodeHash (ov_data x))" 0]
    by (simp_all add: GetCodeHash_def)
qed

lemma store_read:
  assumes "wf_state s" "stateObjects s a = Some ob" "m = (v, ob', s')"
    "same_obj s ob ob'" "err_only s s'" "v = w"
  shows "quiet s (snd (case m of (v, ob, s) \<Rightarrow> (v, setStateObject ob s))) \<and>
    fst (case m of (v, ob, s) \<Rightarrow> (v, setStateObject ob s)) = w"
  using assms quiet_store [OF assms(2,4,5,1)] by simp

lemma storage_reads:
  assumes wf: "wf_state s"
  shows GetCode_read: "quiet s (snd (GetCode a s))"
      "fst (GetCode a s) = (case live_view (view s) a of None \<Rightarrow> [] | Some x \<Rightarrow> ov_code x)"
    and GetState_read: "quiet s (snd (GetState a k s))"
      "fst (GetState a k s) = (case live_view (view s) a of None \<Rightarrow> 0 | Some x \<Rightarrow> ov_state x k)"
    and GetCommittedState_read: "quiet s (snd (GetCommittedState a k s))"
      "fst (GetCommittedState a k s) = (case live_view (view s) a of None \<Rightarrow> 0 | Some x \<Rightarrow> ov_committed x k)"
proof -
  note rd = read_quiet [OF wf, of a]
  have c: "quiet s (snd (case so_Code ob s of (v, ob, s) \<Rightarrow> (v, setStateObject ob s))) \<and>
      fst (case so_Code ob s of (v, ob, s) \<Rightarrow> (v, setStateObject ob s)) = ov_code (ov s ob)"
    if "wf_state s" "stateObjects s a = Some ob" for s ob
    using that so_Code_same by (cases "so_Code ob s") (rule store_read, auto)
  show "quiet s (snd (GetCode a s))"
      "fst (GetCode a s) = (case live_view (view s) a of None \<Rightarrow> [] | Some x \<Rightarrow> ov_code x)"
    using rd [of "\<lambda>ob s. case so_Code ob s of (v, ob, s) \<Rightarrow> (v, setStateObject ob s)"
        "\<lambda>_ x. case x of None \<Rightarrow> [] | Some x \<Rightarrow> ov_code x" "[]"] c
    by (simp_all add: GetCode_def)
  have c: "quiet s (snd (case so_GetState ob k s of (v, ob, s) \<Rightarrow> (v, setStateObject ob s))) \<and>
      fst (case so_GetState ob k s of (v, ob, s) \<Rightarrow> (v, setStateObject ob s)) = ov_state (ov s ob) k"
    if "wf_state s" "stateObjects s a = Some ob" for s ob
    using that so_GetState_same by (cases "so_GetState ob k s") (rule store_read, auto)
  show "quiet s (snd (GetState a k s))"
      "fst (GetState a k s) = (case live_view (view s) a of None \<Rightarrow> 0 | Some x \<Rightarrow> ov_state x k)"
    using rd [of "\<lambda>ob s. case so_GetState ob k s of (v, ob, s) \<Rightarrow> (v, setStateObject ob s)"
        "\<lambda>_ x. case x of None \<Rightarrow> 0 | Some x \<Rightarrow> ov_state x k" 0] c
    by (simp_all add: GetState_def)
  have c: "quiet s (snd (case so_GetCommittedState ob k s of (v, ob, s) \<Rightarrow> (v, setStateObject ob s))) \<and>
      fst (case so_GetCommittedState ob k s of (v, ob, s) \<Rightarrow> (v, setStateObject ob s)) = ov_committed (ov s ob) k"
    if "wf_state s" "stateObjects s a = Some ob" for s ob
    using that so_GetCommittedState_same by (cases "so_GetCommittedState ob k s") (rule store_read, auto)
  show "quiet s (snd (GetCommittedState a k s))"
      "fst (GetCommittedState a k s) = (case live_view (view s) a of None \<Rightarrow> 0 | Some x \<Rightarrow> ov_committed x k)"
    using rd [of "\<lambda>ob s. case so_GetCommittedState ob k s of (v, ob, s) \<Rightarrow> (v, setStateObject ob s)"
        "\<lambda>_ x. case x of None \<Rightarrow> 0 | Some x \<Rightarrow> ov_committed x k" 0] c
    by (simp_all add: GetCommittedState_def)
qed

lemma GetCodeSize_quiet: "quiet s (snd (GetCodeSize a s))"
proof -
  obtain r s' where r: "getStateObject a s = (r, s')"
    by fastforce
  have "quiet s' (snd (so_CodeSize ob s'))" for ob
    by (simp add: so_CodeSize_def split: sum.split)
  then show ?thesis
    using getStateObject_quiet(1) [OF r] r
    by (auto simp: GetCodeSize_def split: option.split intro: quiet_trans)
qed

section \<open>Writes\<close>

lemma touch_extends:
  assumes "state_ok s" "stateObjects s a = Some ob"
  shows "extends s (setStateObject ob (touch ob s))"
proof -
  have wf: "wf_state s"
    using assms(1) by (rule state_ok_wf)
  then have "so_address ob = a"
    using assms(2) by (auto simp: wf_state_def obj_ok_def)
  then have e: "setStateObject ob (touch ob s) = addEntry (touchChange a) s"
    using assms(2) by (simp add: touch_def setStateObject_def addEntry_def fun_upd_idem)
  show ?thesis
    unfolding e by (rule extends_step [OF assms(1)]) (use wf in \<open>auto simp: addEntry_def\<close>)
qed

lemma stored_extends:
  assumes "state_ok s" "stateObjects s a = Some ob"
  shows "extends s (setStateObject ob s)"
proof -
  have "so_address ob = a"
    using assms state_ok_wf [OF assms(1)] by (auto simp: wf_state_def obj_ok_def)
  then have "setStateObject ob s = s"
    using assms(2) by (simp add: setStateObject_def fun_upd_idem)
  then show ?thesis
    using assms(1) by (simp add: extends_refl)
qed

lemma object_writes_extend:
  assumes ok: "state_ok s"
  shows SetBalance_extends: "extends s (SetBalance a b s)"
    and AddBalance_extends: "extends s (AddBalance a b s)"
    and SubBalance_extends: "extends s (SubBalance a b s)"
    and SetNonce_extends: "extends s (SetNonce a n s)"
    and SetCode_extends: "extends s (SetCode a c s)"
    and SetState_extends: "extends s (SetState a k v s)"
  unfolding SetBalance_def AddBalance_def SubBalance_def SetNonce_def SetCode_def SetState_def
proof -
  show "extends s (withObject a (so_SetBalance b) s)"
    by (intro withObject_extends [OF ok]) (rule so_SetBalance_extends)
  show "extends s (withObject a (so_SubBalance b) s)"
    by (intro withObject_extends [OF ok])
      (auto simp: so_SubBalance_def intro: so_SetBalance_extends stored_extends split: if_splits)
  show "extends s (withObject a (so_AddBalance b) s)"
    by (intro withObject_extends [OF ok])
      (auto simp: so_AddBalance_def intro: so_SetBalance_extends stored_extends touch_extends split: if_splits)
  show "extends s (withObject a (so_SetNonce n) s)"
    by (intro withObject_extends [OF ok]) (rule so_SetNonce_extends)
  show "extends s (withObject a (so_SetCode (Keccak256Hash (db s) c) c) s)"
    by (intro withObject_extends [OF ok]) (rule so_SetCode_extends)
  show "extends s (withObject a (so_SetState k v) s)"
    by (intro withObject_extends [OF ok]) (rule so_SetState_extends)
qed

lemma view_fields:
  "view (s\<lparr>refund := x\<rparr>) = (view s)\<lparr>v_refund := x\<rparr>"
  "view (s\<lparr>logs := l\<rparr>) = (view s)\<lparr>v_logs := (l, logSize s)\<rparr>"
  "view (s\<lparr>logSize := n\<rparr>) = (view s)\<lparr>v_logs := (logs s, n)\<rparr>"
  "view (s\<lparr>preimages := p\<rparr>) = (view s)\<lparr>v_preimages := p\<rparr>"
  "view (s\<lparr>accessL := al\<rparr>) = (view s)\<lparr>v_access := al\<rparr>"
  by (simp_all add: view_def lookup_live cong: map_option_cong)

lemma view_same:
  "(view s)\<lparr>v_refund := refund s\<rparr> = view s" "(view s)\<lparr>v_logs := (logs s, logSize s)\<rparr> = view s"
  "(view s)\<lparr>v_preimages := preimages s\<rparr> = view s" "(view s)\<lparr>v_access := accessL s\<rparr> = view s"
  by (simp_all add: view_def)

lemma view_sel:
  "v_logs (view s) = (logs s, logSize s)" "v_preimages (view s) = preimages s" "v_access (view s) = accessL s"
  by (simp_all add: view_def)

lemma wf_fields:
  "wf_state (s\<lparr>refund := x\<rparr>) = wf_state s" "wf_state (s\<lparr>logSize := n\<rparr>) = wf_state s"
  "wf_state (s\<lparr>preimages := p\<rparr>) = wf_state s"
  "wf_state s \<Longrightarrow> wf_state (s\<lparr>accessL := al\<rparr>) = al_ok al"
  "wf_state s \<Longrightarrow> wf_state (s\<lparr>logs := l\<rparr>) = (\<forall>h. l h \<noteq> Some [])"
  by (auto simp: wf_state_def)

lemma AddRefund_extends:
  assumes "state_ok s"
  shows "extends s (AddRefund g s)"
  using state_ok_wf [OF assms]
  by (intro extends_step [OF assms, where e = "refundChange (refund s)"])
    (auto simp: AddRefund_def addEntry_def view_fields view_same wf_fields)

lemma SubRefund_extends:
  assumes "state_ok s" "SubRefund g s = Inr s'"
  shows "extends s s'"
  using state_ok_wf [OF assms(1)] assms(2)
  by (intro extends_step [OF assms(1), where e = "refundChange (refund s)"])
    (auto simp: SubRefund_def addEntry_def view_fields view_same wf_fields Let_def split: if_splits)

lemma AddPreimage_extends:
  assumes "state_ok s"
  shows "extends s (AddPreimage h p s)"
proof (cases "preimages s h")
  case None
  let ?s' = "(addEntry (addPreimageChange h) s)\<lparr>preimages := (preimages s)(h \<mapsto> p)\<rparr>"
  have "extends s ?s'"
  proof (rule extends_step [OF assms, where e = "addPreimageChange h"])
    show "\<exists>t'. je_revert (addPreimageChange h) t = Inr t' \<and> wf_state t' \<and> view t' = view s"
      if t: "wf_state t" "view t = view ?s'" for t
    proof -
      have "(preimages t)(h := None) = preimages s"
        using None view_env(10) [OF t(2)] by (simp add: fun_upd_idem)
      then show ?thesis
        using t by (simp add: addEntry_def view_fields view_same wf_fields)
    qed
  qed (use state_ok_wf [OF assms] in \<open>simp_all add: addEntry_def wf_fields\<close>)
  then show ?thesis using None by (simp add: AddPreimage_def)
next
  case (Some x)
  then show ?thesis using assms by (simp add: AddPreimage_def extends_refl)
qed

lemma AddLog_extends:
  assumes "state_ok s"
  shows "extends s (AddLog l s)"
proof (rule extends_step [OF assms, where e = "addLogChange (thash s)"])
  let ?h = "thash s"
  obtain l' where s': "AddLog l s = (addEntry (addLogChange ?h) s)
      \<lparr>logs := (logs s)(?h \<mapsto> (case logs s ?h of None \<Rightarrow> [] | Some ls \<Rightarrow> ls) @ [l']), logSize := logSize s + 1\<rparr>"
    by (auto simp: AddLog_def Let_def addEntry_def)
  note wf = state_ok_wf [OF assms]
  have ne: "logs s h \<noteq> Some []" for h
    using wf by (simp add: wf_state_def)
  show "wf_state (AddLog l s)"
    using wf ne by (simp add: s' addEntry_def wf_fields)
  show "\<exists>t'. je_revert (addLogChange ?h) t = Inr t' \<and> wf_state t' \<and> view t' = view s"
    if t: "wf_state t" "view t = view (AddLog l s)" for t
  proof -
    have lt: "logs t = (logs s)(?h \<mapsto> (case logs s ?h of None \<Rightarrow> [] | Some ls \<Rightarrow> ls) @ [l'])"
      "logSize t = logSize s + 1"
      using view_env(8,9) [OF t(2)] by (simp_all add: s')
    have r: "je_revert (addLogChange ?h) t = Inr (t\<lparr>logs := logs s, logSize := logSize s\<rparr>)"
    proof (cases "logs s ?h")
      case None
      then have "(logs t)(?h := None) = logs s"
        using lt by (simp add: fun_upd_idem)
      then show ?thesis using None lt by simp
    next
      case (Some ls)
      then have "(logs t)(?h \<mapsto> ls) = logs s"
        using lt by (simp add: fun_upd_idem)
      then show ?thesis using Some lt ne [of ?h] by simp
    qed
    moreover have "view (t\<lparr>logs := logs s, logSize := logSize s\<rparr>) = view s"
      using t(2) by (simp add: view_fields s' addEntry_def view_same)
    ultimately show ?thesis
      using t(1) ne by (simp add: wf_fields)
  qed
qed (simp_all add: AddLog_def Let_def addEntry_def)

lemma AddAddressToAccessList_extends:
  assumes "state_ok s"
  shows "extends s (AddAddressToAccessList a s)"
proof -
  obtain new al where r: "AddAddress (accessL s) a = (new, al)"
    by fastforce
  note wf = state_ok_wf [OF assms]
  then have "al_ok (accessL s)"
    by (simp add: wf_state_def)
  note u = AddAddress_undo [OF this r]
  show ?thesis
  proof (cases new)
    case False
    then have "AddAddressToAccessList a s = s"
      using r u by (simp add: AddAddressToAccessList_def)
    then show ?thesis
      using assms by (simp add: extends_refl)
  next
    case True
    then have s': "AddAddressToAccessList a s = addEntry (accessListAddAccountChange a) (s\<lparr>accessL := al\<rparr>)"
      using r by (simp add: AddAddressToAccessList_def)
    show ?thesis
      unfolding s'
    proof (rule extends_step [OF assms, where e = "accessListAddAccountChange a"])
      show "\<exists>t'. je_revert (accessListAddAccountChange a) t = Inr t' \<and> wf_state t' \<and> view t' = view s"
        if t: "wf_state t" "view t = view (addEntry (accessListAddAccountChange a) (s\<lparr>accessL := al\<rparr>))" for t
        using t view_env(6) [OF t(2)] True u \<open>al_ok (accessL s)\<close>
        by (simp add: addEntry_def view_fields view_same wf_fields)
    qed (use wf u in \<open>simp_all add: addEntry_def wf_fields\<close>)
  qed
qed

text \<open>Adding a slot of an unknown address is adding the address, then the slot.\<close>

lemma AddSlot_via_address:
  assumes "addresses al a = None"
  obtains al' where "AddSlot al a k = Inr ((True, True), al')"
    "AddSlot (snd (AddAddress al a)) a k = Inr ((False, True), al')" "fst (AddAddress al a)"
  using assms by (simp add: AddSlot_def AddAddress_def)

lemma AddSlot_known_extends:
  assumes ok: "state_ok s" and known: "addresses (accessL s) a \<noteq> None"
  shows "\<exists>s'. AddSlotToAccessList a k s = Inr s' \<and> extends s s'"
proof -
  note wf = state_ok_wf [OF ok]
  have al: "al_ok (accessL s)" "a \<in> al_addrs (accessL s)"
    using wf known by (auto simp: wf_state_def al_addrs_def)
  obtain nS al' where r: "AddSlot (accessL s) a k = Inr ((False, nS), al')" "al_ok al'"
    and u: "if nS then DeleteSlot al' a k = Inr (accessL s) else al' = accessL s"
    using acl.addS_known [OF al, of k] by blast
  have s': "AddSlotToAccessList a k s =
      Inr (if nS then addEntry (accessListAddSlotChange a k) (s\<lparr>accessL := al'\<rparr>) else s\<lparr>accessL := al'\<rparr>)"
    using r by (simp add: AddSlotToAccessList_def Let_def)
  have "extends s (addEntry (accessListAddSlotChange a k) (s\<lparr>accessL := al'\<rparr>))" if nS
  proof (rule extends_step [OF ok, where e = "accessListAddSlotChange a k"])
    show "\<exists>t'. je_revert (accessListAddSlotChange a k) t = Inr t' \<and> wf_state t' \<and> view t' = view s"
      if t: "wf_state t" "view t = view (addEntry (accessListAddSlotChange a k) (s\<lparr>accessL := al'\<rparr>))" for t
      using t view_env(6) [OF t(2)] u \<open>nS\<close> al(1)
      by (simp add: addEntry_def view_fields view_same wf_fields)
  qed (use wf r(2) in \<open>simp_all add: addEntry_def wf_fields\<close>)
  then show ?thesis
    using s' u extends_refl [OF ok] by auto
qed

lemma AddSlotToAccessList_extends:
  assumes ok: "state_ok s"
  shows "\<exists>s'. AddSlotToAccessList a k s = Inr s' \<and> extends s s'"
proof (cases "addresses (accessL s) a")
  case None
  let ?s1 = "AddAddressToAccessList a s"
  obtain al' where al': "AddSlot (accessL s) a k = Inr ((True, True), al')"
    "AddSlot (snd (AddAddress (accessL s) a)) a k = Inr ((False, True), al')" "fst (AddAddress (accessL s) a)"
    using AddSlot_via_address [OF None] by blast
  have s1: "?s1 = addEntry (accessListAddAccountChange a) (s\<lparr>accessL := snd (AddAddress (accessL s) a)\<rparr>)"
    using al'(3) by (auto simp: AddAddressToAccessList_def Let_def split: prod.split)
  have "AddSlotToAccessList a k s = AddSlotToAccessList a k ?s1"
    using al' unfolding s1 by (simp add: AddSlotToAccessList_def addEntry_def Let_def)
  moreover have "addresses (accessL ?s1) a \<noteq> None"
    using None by (simp add: s1 AddAddress_def addEntry_def)
  moreover have e: "extends s ?s1"
    by (rule AddAddressToAccessList_extends [OF ok])
  ultimately show ?thesis
    using AddSlot_known_extends [OF extends_state_ok [OF e]] extends_trans [OF e] by metis
next
  case (Some i)
  then show ?thesis
    using AddSlot_known_extends [OF ok] by simp
qed

section \<open>Snapshots\<close>

lemma search_from_correct:
  assumes "\<And>k. k < n \<Longrightarrow> \<not> f k" "\<And>k. n \<le> k \<Longrightarrow> k < j \<Longrightarrow> f k" "i \<le> n" "n \<le> j"
  shows "search_from i j f = n"
  using assms
proof (induction i j f rule: search_from.induct)
  case (1 i j f)
  let ?h = "(i + j) div 2"
  show ?case
  proof (cases "i < j")
    case True
    then have h: "?h < j" "i \<le> ?h" by auto
    have "f ?h \<longleftrightarrow> n \<le> ?h"
      using 1 h by (meson not_le)
    then show ?thesis
      using True 1 h by (subst search_from.simps) (auto simp: Let_def)
  next
    case False
    then show ?thesis
      using 1 by (subst search_from.simps) auto
  qed
qed

text \<open>Reverting to a snapshot undoes everything written since, and nothing else.\<close>

lemma Snapshot_extends:
  assumes "state_ok s" "Snapshot s = (i, s')"
  shows "extends s s'"
  using assms ul.undoes_refl [of s s']
  by (auto simp: Snapshot_def extends_def state_ok_def revs_ok_def less_Suc_eq)

lemma journal_eqI: "entries j = entries j' \<Longrightarrow> dirties j = dirties j' \<Longrightarrow> j = j'" for j :: journal
  by simp

lemma RevertToSnapshot_correct:
  assumes ok: "state_ok s" and sn: "Snapshot s = (i, s1)" and e: "extends s1 s2"
  shows "\<exists>s3. RevertToSnapshot i s2 = Inr s3 \<and> state_ok s3 \<and> view s3 = view s \<and> journ s3 = journ s \<and>
    validRevisions s3 = validRevisions s \<and> nextRevisionId s3 = nextRevisionId s2"
proof -
  let ?n = "length (validRevisions s)" and ?m = "length (entries (journ s))"
  have i: "i = nextRevisionId s"
    and s1: "validRevisions s1 = validRevisions s @ [\<lparr>rev_id = i, journalIndex = ?m\<rparr>]"
      "nextRevisionId s1 = i + 1" "journ s1 = journ s" "view s1 = view s"
    using sn by (auto simp: Snapshot_def)
  obtain es where es: "entries (journ s2) = entries (journ s) @ es" "undoes wf_state view undo_entries es s2 s1"
    using e s1(3) by (auto simp: extends_def)
  obtain rs where rs: "validRevisions s2 = validRevisions s @ \<lparr>rev_id = i, journalIndex = ?m\<rparr> # rs"
    "\<forall>r \<in> set rs. i + 1 \<le> rev_id r"
    using e s1 by (auto simp: extends_def)
  have old: "rev_id (validRevisions s ! k) < i" if "k < ?n" for k
    using ok that by (simp add: i state_ok_def revs_ok_def)
  have idx: "search_from 0 (length (validRevisions s2)) (\<lambda>k. i \<le> rev_id (validRevisions s2 ! k)) = ?n"
  proof (rule search_from_correct)
    show "\<not> i \<le> rev_id (validRevisions s2 ! k)" if "k < ?n" for k
      using old [OF that] that by (simp add: rs(1) nth_append)
    show "i \<le> rev_id (validRevisions s2 ! k)" if "?n \<le> k" "k < length (validRevisions s2)" for k
    proof (cases "k = ?n")
      case False
      then have "validRevisions s2 ! k \<in> set rs"
        using that by (simp add: rs(1) nth_append nth_Cons')
      then show ?thesis using rs(2) by fastforce
    qed (simp add: rs(1) nth_append)
  qed (simp_all add: rs(1))
  have ok2: "state_ok s2"
    using e by (rule extends_state_ok)
  then obtain t where t: "undo_entries (rev es) s2 = Inr t" "wf_state t" "view t = view s"
    using es(2) s1(4) by (auto simp: undoes_def state_ok_def)
  have "\<forall>a. dirties (journ s2) a = (if entry_count a (entries (journ s) @ es) = 0 then None
      else Some (int (entry_count a (entries (journ s) @ es))))"
    using ok2 es(1) by (simp add: state_ok_def journal_ok_def)
  note j = undo_entries_journ [OF t(1) this]
  let ?t' = "t\<lparr>journ := (journ t)\<lparr>entries := entries (journ s)\<rparr>\<rparr>"
  have jr: "journal_revert ?m s2 = Inr ?t'"
    using t(1) j es(1) by (simp add: journal_revert_def go_slice_def)
  have jt: "(journ t)\<lparr>entries := entries (journ s)\<rparr> = journ s"
    using j ok by (intro journal_eqI) (auto simp: state_ok_def journal_ok_def)
  let ?s3 = "t\<lparr>journ := journ s, validRevisions := validRevisions s\<rparr>"
  have "RevertToSnapshot i s2 = Inr ?s3"
    unfolding RevertToSnapshot_def Let_def idx using jr jt j by (simp add: rs(1) nth_append)
  moreover have nx: "nextRevisionId t = nextRevisionId s2" "i < nextRevisionId s2"
    using j e s1(2) by (auto simp: extends_def)
  moreover have "rev_id r < nextRevisionId s2" if "r \<in> set (validRevisions s)" for r
    using ok that nx(2) i by (fastforce simp: state_ok_def revs_ok_def)
  then have "state_ok ?s3"
    using ok t(2) nx(1) by (simp add: state_ok_def revs_ok_def)
  ultimately show ?thesis
    using t(3) by simp
qed

section \<open>What a write changes\<close>

lemma addEntry_sel [simp]:
  "stateObjects (addEntry e s) = stateObjects s" "db (addEntry e s) = db s" "snap (addEntry e s) = snap s"
  "originalRoot (addEntry e s) = originalRoot s" "acct_trie (addEntry e s) = acct_trie s"
  "stateObjectsDestruct (addEntry e s) = stateObjectsDestruct s"
  by (simp_all add: addEntry_def)

lemma stateObjects_set [simp]:
  "stateObjects (setStateObject ob s) = (stateObjects s)(so_address ob \<mapsto> ob)"
  by (simp add: setStateObject_def)

lemma resetState_sel [simp]:
  "stateObjects (resetState a p s) = stateObjects s" "db (resetState a p s) = db s"
  "snap (resetState a p s) = snap s" "originalRoot (resetState a p s) = originalRoot s"
  "acct_trie (resetState a p s) = acct_trie s"
  "b \<noteq> a \<Longrightarrow> stateObjectsDestruct (resetState a p s) b = stateObjectsDestruct s b"
  by (simp_all add: resetState_def Let_def)

lemma createObject_other:
  assumes ok: "state_ok s" and c: "createObject a s = ((ob, prev), s')" and b: "b \<noteq> a"
  shows "v_objs (view s') b = v_objs (view s) b"
proof -
  obtain p s0 where g: "getDeletedStateObject a s = (p, s0)"
    by fastforce
  note q = getDeletedStateObject_quiet [OF g]
  have "wf_state s0"
    using q(1) state_ok_wf [OF ok] by (simp add: quiet_def)
  moreover have pa: "\<forall>x. p = Some x \<longrightarrow> so_address x = a"
    using q(3) calculation by (auto simp: wf_state_def obj_ok_def)
  moreover have "s' = setStateObject ((newObject s0 a None)\<lparr>so_created := True\<rparr>)
      (case p of None \<Rightarrow> addEntry (createObjectChange a) s0
        | Some x \<Rightarrow> addEntry (resetEntry a x s0) (resetState a x s0))"
    using c unfolding createObject_eq [OF g pa] by (auto simp: Let_def split: option.splits)
  ultimately have "v_objs (view s') b = v_objs (view s0) b"
    using b by (intro v_objs_other) (simp_all add: newObject_def split: option.split)
  then show ?thesis
    using q(1) by (simp add: quiet_def)
qed

lemma GetOrNewStateObject_view:
  assumes ok: "state_ok s" and g: "GetOrNewStateObject a s = (ob, s1)"
  shows "b \<noteq> a \<Longrightarrow> v_objs (view s1) b = v_objs (view s) b"
    and "live_view (view s) a = Some x \<Longrightarrow> ov s1 ob = x"
    and "live_view (view s) a = None \<Longrightarrow> so_data ob = NewEmptyStateAccount (db s)"
proof -
  obtain r s0 where r: "getStateObject a s = (r, s0)"
    by fastforce
  note q = getStateObject_quiet [OF r] and v = getStateObject_view [OF r]
  have v0: "view s0 = view s"
    using q(1) by (simp add: quiet_def)
  have ok0: "state_ok s0"
    by (rule extends_state_ok [OF extends_quiet [OF ok q(1)]])
  have "(b \<noteq> a \<longrightarrow> v_objs (view s1) b = v_objs (view s) b) \<and>
    (live_view (view s) a = Some x \<longrightarrow> ov s1 ob = x) \<and>
    (live_view (view s) a = None \<longrightarrow> so_data ob = NewEmptyStateAccount (db s))"
  proof (cases r)
    case None
    obtain o1 prev t where c: "createObject a s0 = ((o1, prev), t)"
      by (metis prod.exhaust)
    obtain p u where p: "getDeletedStateObject a s0 = (p, u)"
      by fastforce
    have "o1 = (newObject u a None)\<lparr>so_created := True\<rparr>"
      using c p by (auto simp: createObject_def newObject_def Let_def split: option.splits if_splits)
    moreover have "db u = db s"
      using getDeletedStateObject_quiet(1) [OF p] v0 by (auto simp: quiet_def dest: view_env(1))
    ultimately show ?thesis
      using g r None c v createObject_other [OF ok0 c] v0
      by (auto simp: GetOrNewStateObject_def newObject_def)
  next
    case (Some y)
    then show ?thesis
      using g r v v0 by (auto simp: GetOrNewStateObject_def)
  qed
  then show "b \<noteq> a \<Longrightarrow> v_objs (view s1) b = v_objs (view s) b"
    and "live_view (view s) a = Some x \<Longrightarrow> ov s1 ob = x"
    and "live_view (view s) a = None \<Longrightarrow> so_data ob = NewEmptyStateAccount (db s)"
    by auto
qed

lemma withObject_view:
  assumes ok: "state_ok s"
    and f: "\<And>ob s ob' s'. f ob s = (ob', s') \<Longrightarrow> so_address ob' = so_address ob \<and>
      so_deleted ob' = so_deleted ob \<and> view s' = view s"
  obtains ob s1 ob' s2 where "GetOrNewStateObject a s = (ob, s1)" "f ob s1 = (ob', s2)"
    "view s2 = view s1" "live_view (view (withObject a f s)) a = Some (ov s2 ob')"
    "\<And>b. b \<noteq> a \<Longrightarrow> live_view (view (withObject a f s)) b = live_view (view s) b"
proof -
  obtain ob s1 where g: "GetOrNewStateObject a s = (ob, s1)"
    by fastforce
  obtain ob' s2 where r: "f ob s1 = (ob', s2)"
    by fastforce
  note e = GetOrNewStateObject_extends [OF ok g] and w = GetOrNewStateObject_view(1) [OF ok g]
  have "so_address ob = a"
    using extends_state_ok [OF e(1)] e(2) by (auto simp: state_ok_def wf_state_def obj_ok_def)
  then have o': "so_address ob' = a" "\<not> so_deleted ob'" and vs: "view s2 = view s1"
    using f [OF r] e(3) by auto
  then have "view (withObject a f s) = (view s1)\<lparr>v_objs := (v_objs (view s1))(a \<mapsto> ov s2 ob')\<rparr>"
    using g r by (simp add: withObject_def view_setStateObject)
  then show thesis
    using that [OF g r vs] o'(2) w by (simp add: live_view_def)
qed

lemma balance_view: "wf_state s \<Longrightarrow>
  fst (GetBalance b s) = (case live_view (view s) b of None \<Rightarrow> 0 | Some x \<Rightarrow> acct_Balance (ov_data x))"
  by (rule GetBalance_read(2))

lemma touch_view [simp]: "view (touch ob s) = view s"
  by (simp add: touch_def addEntry_def)

lemma view_addEntry [simp]: "view (addEntry e s) = view s"
  by (simp add: addEntry_def)

lemma GetBalance_withObject:
  assumes ok: "state_ok s"
    and f: "\<And>ob s ob' s'. f ob s = (ob', s') \<Longrightarrow> so_address ob' = so_address ob \<and>
      so_deleted ob' = so_deleted ob \<and> view s' = view s \<and>
      acct_Balance (so_data ob') = h (acct_Balance (so_data ob))"
    and e: "extends s (withObject a f s)"
  shows "fst (GetBalance b (withObject a f s)) =
    (if b = a then h (fst (GetBalance b s)) else fst (GetBalance b s))"
proof -
  obtain ob s1 ob' s2 where g: "GetOrNewStateObject a s = (ob, s1)" "f ob s1 = (ob', s2)"
    and v: "live_view (view (withObject a f s)) a = Some (ov s2 ob')"
    "\<And>b. b \<noteq> a \<Longrightarrow> live_view (view (withObject a f s)) b = live_view (view s) b"
    using withObject_view [OF ok, of f a] f by metis
  have "acct_Balance (so_data ob) = fst (GetBalance a s)"
    using GetOrNewStateObject_view(2,3) [OF ok g(1)] balance_view [OF state_ok_wf [OF ok], of a]
    by (cases "live_view (view s) a") (auto simp: NewEmptyStateAccount_def)
  then show ?thesis
    using v f [OF g(2)] balance_view [OF state_ok_wf [OF ok]]
      balance_view [OF state_ok_wf [OF extends_state_ok [OF e]]] by simp
qed

lemma balance_after:
  assumes ok: "state_ok s"
  shows GetBalance_AddBalance: "fst (GetBalance b (AddBalance a n s)) = fst (GetBalance b s) + (if b = a then n else 0)"
    and GetBalance_SubBalance: "fst (GetBalance b (SubBalance a n s)) = fst (GetBalance b s) - (if b = a then n else 0)"
proof -
  show "fst (GetBalance b (AddBalance a n s)) = fst (GetBalance b s) + (if b = a then n else 0)"
    unfolding AddBalance_def
    by (subst GetBalance_withObject [OF ok, where h = "\<lambda>x. x + n"])
      (use AddBalance_extends [OF ok, of a n] in
        \<open>auto simp: so_AddBalance_def AddBalance_def so_SetBalance_def so_setBalance_def split: if_splits\<close>)
  show "fst (GetBalance b (SubBalance a n s)) = fst (GetBalance b s) - (if b = a then n else 0)"
    unfolding SubBalance_def
    by (subst GetBalance_withObject [OF ok, where h = "\<lambda>x. x - n"])
      (use SubBalance_extends [OF ok, of a n] in
        \<open>auto simp: so_SubBalance_def SubBalance_def so_SetBalance_def so_setBalance_def split: if_splits\<close>)
qed

section \<open>Runs of operations\<close>

text \<open>The operations that read or change the state inside a transaction.\<close>

datatype db_op =
    OpCreateAccount address
  | OpAddBalance address int | OpSubBalance address int | OpSetBalance address int
  | OpSetNonce address uint64 | OpSetCode address bytes | OpSetState address hash hash
  | OpAddLog zlog | OpAddPreimage hash bytes | OpAddRefund uint64 | OpSubRefund uint64
  | OpAddAddressToAccessList address | OpAddSlotToAccessList address hash
  | OpExist address | OpEmpty address | OpGetBalance address | OpGetNonce address
  | OpGetStorageRoot address | OpGetCode address | OpGetCodeSize address | OpGetCodeHash address
  | OpGetState address hash | OpGetCommittedState address hash

fun db_run :: "db_op \<Rightarrow> statedb \<Rightarrow> statedb go" where
  "db_run (OpCreateAccount a) s = Inr (CreateAccount a s)"
| "db_run (OpAddBalance a n) s = Inr (AddBalance a n s)"
| "db_run (OpSubBalance a n) s = Inr (SubBalance a n s)"
| "db_run (OpSetBalance a n) s = Inr (SetBalance a n s)"
| "db_run (OpSetNonce a n) s = Inr (SetNonce a n s)"
| "db_run (OpSetCode a c) s = Inr (SetCode a c s)"
| "db_run (OpSetState a k v) s = Inr (SetState a k v s)"
| "db_run (OpAddLog l) s = Inr (AddLog l s)"
| "db_run (OpAddPreimage h p) s = Inr (AddPreimage h p s)"
| "db_run (OpAddRefund g) s = Inr (AddRefund g s)"
| "db_run (OpSubRefund g) s = SubRefund g s"
| "db_run (OpAddAddressToAccessList a) s = Inr (AddAddressToAccessList a s)"
| "db_run (OpAddSlotToAccessList a k) s = AddSlotToAccessList a k s"
| "db_run (OpExist a) s = Inr (snd (Exist a s))"
| "db_run (OpEmpty a) s = Inr (snd (Empty a s))"
| "db_run (OpGetBalance a) s = Inr (snd (GetBalance a s))"
| "db_run (OpGetNonce a) s = Inr (snd (GetNonce a s))"
| "db_run (OpGetStorageRoot a) s = Inr (snd (GetStorageRoot a s))"
| "db_run (OpGetCode a) s = Inr (snd (GetCode a s))"
| "db_run (OpGetCodeSize a) s = Inr (snd (GetCodeSize a s))"
| "db_run (OpGetCodeHash a) s = Inr (snd (GetCodeHash a s))"
| "db_run (OpGetState a k) s = Inr (snd (GetState a k s))"
| "db_run (OpGetCommittedState a k) s = Inr (snd (GetCommittedState a k s))"

lemma db_run_extends:
  assumes "state_ok s" "db_run p s = Inr s'"
  shows "extends s s'"
proof -
  note wf = state_ok_wf [OF assms(1)]
  note reads = Exist_read Empty_read GetBalance_read GetNonce_read GetStorageRoot_read GetCode_read
    GetCodeHash_read GetState_read GetCommittedState_read
  have "extends s s'" if "AddSlotToAccessList a k s = Inr s'" for a k
    using that AddSlotToAccessList_extends [OF assms(1), of a k] by auto
  then show ?thesis
    using assms
    by (cases p)
      (auto intro: CreateAccount_extends AddBalance_extends SubBalance_extends SetBalance_extends
        SetNonce_extends SetCode_extends SetState_extends AddLog_extends AddPreimage_extends
        AddRefund_extends SubRefund_extends AddAddressToAccessList_extends
        extends_quiet reads(1,3,5,7,9,11,13,15,17) [OF wf] GetCodeSize_quiet)
qed

lemma createObject_revs:
  assumes "createObject a s = (x, s')"
  shows "validRevisions s' = validRevisions s"
proof -
  obtain p s0 where g: "getDeletedStateObject a s = (p, s0)"
    by fastforce
  have "validRevisions s0 = validRevisions s"
    using getDeletedStateObject_quiet(1) [OF g] by (simp add: quiet_def)
  then show ?thesis
    using assms g
    by (cases p) (auto simp: createObject_def Let_def addEntry_def split: if_splits)
qed

lemma withObject_revs:
  assumes f: "\<And>ob s ob' s'. f ob s = (ob', s') \<Longrightarrow> validRevisions s' = validRevisions s"
  shows "validRevisions (withObject a f s) = validRevisions s"
proof -
  obtain ob s1 where g: "GetOrNewStateObject a s = (ob, s1)"
    by fastforce
  obtain r s0 where r: "getStateObject a s = (r, s0)"
    by fastforce
  have "validRevisions s0 = validRevisions s"
    using getStateObject_quiet(1) [OF r] by (simp add: quiet_def)
  then have "validRevisions s1 = validRevisions s"
    using g r createObject_revs [of a s0]
    by (auto simp: GetOrNewStateObject_def split: option.splits prod.splits)
  then show ?thesis
    using g f by (auto simp: withObject_def split: prod.split)
qed

lemma so_revs:
  "so_SetBalance n ob s = (ob', s') \<Longrightarrow> validRevisions s' = validRevisions s"
  "so_AddBalance n ob s = (ob', s') \<Longrightarrow> validRevisions s' = validRevisions s"
  "so_SubBalance n ob s = (ob', s') \<Longrightarrow> validRevisions s' = validRevisions s"
  "so_SetNonce m ob s = (ob', s') \<Longrightarrow> validRevisions s' = validRevisions s"
  "so_SetCode h c ob s = (ob', s') \<Longrightarrow> validRevisions s' = validRevisions s"
  "so_SetState k v ob s = (ob', s') \<Longrightarrow> validRevisions s' = validRevisions s"
  using so_Code_same(3) [of ob s] so_GetState_same(3) [of ob k s]
  by (auto simp: so_SetBalance_def so_AddBalance_def so_SubBalance_def so_SetNonce_def so_SetCode_def
      so_SetState_def addEntry_def touch_def err_only_def split: if_splits prod.splits)

lemma write_revs [simp]:
  "validRevisions (SetBalance a n s) = validRevisions s"
  "validRevisions (AddBalance a n s) = validRevisions s"
  "validRevisions (SubBalance a n s) = validRevisions s"
  "validRevisions (SetNonce a m s) = validRevisions s"
  "validRevisions (SetCode a c s) = validRevisions s"
  "validRevisions (SetState a k v s) = validRevisions s"
  unfolding SetBalance_def AddBalance_def SubBalance_def SetNonce_def SetCode_def SetState_def
  by (rule withObject_revs, erule so_revs)+

lemma other_revs [simp]:
  "validRevisions (AddLog l s) = validRevisions s"
  "validRevisions (AddPreimage h p s) = validRevisions s"
  "validRevisions (AddRefund g s) = validRevisions s"
  "validRevisions (AddAddressToAccessList a s) = validRevisions s"
  "validRevisions (CreateAccount a s) = validRevisions s"
  using createObject_revs [of a s]
  by (auto simp: AddLog_def AddPreimage_def AddRefund_def AddAddressToAccessList_def CreateAccount_def
      addEntry_def Let_def split: prod.split option.split)

lemma go_revs:
  "SubRefund g s = Inr s' \<Longrightarrow> validRevisions s' = validRevisions s"
  "AddSlotToAccessList a k s = Inr s' \<Longrightarrow> validRevisions s' = validRevisions s"
  by (auto simp: SubRefund_def AddSlotToAccessList_def addEntry_def Let_def split: if_splits)

lemma quiet_revs: "quiet s s' \<Longrightarrow> validRevisions s' = validRevisions s"
  by (simp add: quiet_def)

lemma db_run_revs:
  assumes "state_ok s" "db_run p s = Inr s'"
  shows "validRevisions s' = validRevisions s"
proof -
  note reads = Exist_read Empty_read GetBalance_read GetNonce_read GetStorageRoot_read GetCode_read
    GetCodeHash_read GetState_read GetCommittedState_read
  note rq = reads(1,3,5,7,9,11,13,15,17) [OF state_ok_wf [OF assms(1)], THEN quiet_revs]
    GetCodeSize_quiet [THEN quiet_revs]
  show ?thesis
    using assms(2) by (cases p) (auto simp: rq go_revs)
qed

text \<open>The end and the beginning of a transaction keep the invariant of the state.\<close>

lemma finaliseAddress_wf: "wf_state s \<Longrightarrow> wf_state (finaliseAddress del a s)"
  by (auto simp: finaliseAddress_def so_finalise_def wf_state_def obj_ok_def Let_def split: option.split)

lemma finaliseAddress_journ [simp]:
  "journ (finaliseAddress del a s) = journ s" "nextRevisionId (finaliseAddress del a s) = nextRevisionId s"
  by (simp_all add: finaliseAddress_def Let_def split: option.split)

lemma fold_finalise:
  assumes "wf_state s"
  shows "wf_state (fold (finaliseAddress del) order s) \<and> journ (fold (finaliseAddress del) order s) = journ s"
  using assms by (induction order arbitrary: s) (simp_all add: finaliseAddress_wf)

lemma Finalise_ok:
  assumes "state_ok s"
  shows "state_ok (Finalise order del s)" "validRevisions (Finalise order del s) = []"
proof -
  have "journal_ok newJournal"
    by (simp add: journal_ok_def newJournal_def entry_count_def)
  then show "state_ok (Finalise order del s)"
    using assms fold_finalise [of s del order]
    by (auto simp: Finalise_def clearJournalAndRefund_def state_ok_def revs_ok_def wf_fields)
  show "validRevisions (Finalise order del s) = []"
    by (simp add: Finalise_def clearJournalAndRefund_def)
qed

lemma addSlots_ok: "al_ok al \<Longrightarrow> \<exists>al'. addSlots a ks al = Inr al' \<and> al_ok al'"
proof (induction ks arbitrary: al)
  case (Cons k ks)
  then show ?case
    using AddSlot_undo [OF Cons.prems, of a k] by fastforce
qed simp

lemma addTuples_ok: "al_ok al \<Longrightarrow> \<exists>al'. addTuples els al = Inr al' \<and> al_ok al'"
proof (induction els arbitrary: al)
  case (Cons el els)
  then show ?case
    using addSlots_ok [OF AddAddress_spec(2) [OF Cons.prems], of "fst el" "snd el" "fst el"] by fastforce
qed simp

lemma fold_AddAddress_ok: "al_ok al \<Longrightarrow> al_ok (fold (\<lambda>a al. snd (AddAddress al a)) as al)"
  by (induction as arbitrary: al) (simp_all add: AddAddress_spec(2))

lemma Prepare_ok:
  assumes "wf_state s"
  shows "\<exists>al. Prepare sender coinbase dst precompiles list s = Inr (s\<lparr>accessL := al\<rparr>) \<and> al_ok al"
proof -
  let ?al = "fold (\<lambda>a al. snd (AddAddress al a)) precompiles
    (case dst of None \<Rightarrow> snd (AddAddress newAccessList sender)
     | Some d \<Rightarrow> snd (AddAddress (snd (AddAddress newAccessList sender)) d))"
  have "al_ok ?al"
    by (intro fold_AddAddress_ok) (simp add: AddAddress_spec(2) split: option.split)
  from addTuples_ok [OF this, of list] show ?thesis
    by (auto simp: Prepare_def Let_def AddAddress_spec(2))
qed

lemma SetTxContext_ok: "state_ok s \<Longrightarrow> state_ok (SetTxContext x n s)"
  by (simp add: SetTxContext_def state_ok_def revs_ok_def wf_state_def)

lemma New_ok:
  assumes "env_ok (New root d tr sn)"
  shows "state_ok (New root d tr sn)" "validRevisions (New root d tr sn) = []"
  using assms by (simp_all add: New_def state_ok_def wf_state_def revs_ok_def journal_ok_def newJournal_def
      entry_count_def)

text \<open>A run starts in a state with no open snapshot. \<open>h\<close> records, for each id that \<open>Snapshot\<close>
  returned, the state in which it was called.\<close>

inductive db_reach :: "statedb \<Rightarrow> (nat \<Rightarrow> statedb option) \<Rightarrow> bool" where
  start: "state_ok s \<Longrightarrow> validRevisions s = [] \<Longrightarrow> db_reach s Map.empty"
| oper: "db_reach s h \<Longrightarrow> db_run p s = Inr s' \<Longrightarrow> db_reach s' h"
| snapshot: "db_reach s h \<Longrightarrow> Snapshot s = (i, s') \<Longrightarrow> db_reach s' (h(i \<mapsto> s))"
| revert: "db_reach s h \<Longrightarrow> RevertToSnapshot i s = Inr s' \<Longrightarrow> db_reach s' h"
| finalise: "db_reach s h \<Longrightarrow> db_reach (Finalise order del s) h"
| txcontext: "db_reach s h \<Longrightarrow> validRevisions s = [] \<Longrightarrow> db_reach (SetTxContext x n s) h"
| prepare: "db_reach s h \<Longrightarrow> validRevisions s = [] \<Longrightarrow>
    Prepare sender coinbase dst precompiles list s = Inr s' \<Longrightarrow> db_reach s' h"

text \<open>The open snapshots form a chain: each one was taken in a state that extends the one before.\<close>

fun chain :: "(nat \<Rightarrow> statedb option) \<Rightarrow> nat list \<Rightarrow> statedb \<Rightarrow> bool" where
  "chain h [] s \<longleftrightarrow> state_ok s \<and> validRevisions s = []"
| "chain h (i # is) s \<longleftrightarrow>
     (\<exists>g g'. h i = Some g \<and> Snapshot g = (i, g') \<and> chain h is g \<and> extends g' s \<and>
        validRevisions s = validRevisions g')"

lemma chain_state_ok: "chain h is s \<Longrightarrow> state_ok s"
  by (cases "is") (auto simp: extends_state_ok)

lemma chain_ids: "chain h is s \<Longrightarrow> map rev_id (validRevisions s) = rev is"
  by (induction "is" arbitrary: s) (auto simp: Snapshot_def)

lemma chain_mono: "chain h is s \<Longrightarrow> extends s s' \<Longrightarrow> validRevisions s' = validRevisions s \<Longrightarrow> chain h is s'"
  by (cases "is") (auto simp: extends_state_ok intro: extends_trans)

lemma chain_next: "chain h is s \<Longrightarrow> \<forall>i \<in> set is. i < nextRevisionId s"
proof -
  assume c: "chain h is s"
  have "set is = rev_id ` set (validRevisions s)"
    by (metis chain_ids [OF c] image_set set_rev)
  then show ?thesis
    using chain_state_ok [OF c] by (auto simp: state_ok_def revs_ok_def)
qed

lemma chain_upd: "chain h is s \<Longrightarrow> i \<notin> set is \<Longrightarrow> chain (h(i \<mapsto> g)) is s"
  by (induction "is" arbitrary: s) auto

lemma chain_push:
  assumes "chain h is s" "Snapshot s = (i, s')"
  shows "chain (h(i \<mapsto> s)) (i # is) s'"
proof -
  have "i \<notin> set is"
    using chain_next [OF assms(1)] assms(2) by (auto simp: Snapshot_def)
  then show ?thesis
    using chain_upd [OF assms(1)] assms(2) extends_refl
      extends_state_ok [OF Snapshot_extends [OF chain_state_ok [OF assms(1)] assms(2)]] by auto
qed

text \<open>Every open snapshot extends to the current state, and the chain below it is intact.\<close>

lemma chain_open:
  assumes "chain h is s" "i \<in> set is"
  obtains g g' is' where "h i = Some g" "Snapshot g = (i, g')" "extends g' s" "chain h is' g"
  using assms
proof (induction "is" arbitrary: s thesis)
  case (Cons j js)
  from Cons.prems(2) obtain g g' where g: "h j = Some g" "Snapshot g = (j, g')" "chain h js g" "extends g' s"
    by auto
  show ?case
  proof (cases "i = j")
    case True
    then show ?thesis using g Cons.prems(1) by blast
  next
    case False
    then have "i \<in> set js"
      using Cons.prems(3) by simp
    then obtain u u' us where u: "h i = Some u" "Snapshot u = (i, u')" "extends u' g" "chain h us u"
      using Cons.IH [OF _ g(3)] by blast
    have "extends g g'"
      by (rule Snapshot_extends [OF chain_state_ok [OF g(3)] g(2)])
    then have "extends u' s"
      using u(3) g(4) extends_trans by blast
    then show ?thesis
      using u Cons.prems(1) by blast
  qed
qed simp

lemma search_from_le: "m \<le> n \<Longrightarrow> search_from m n f \<le> n"
proof (induction m n f rule: search_from.induct)
  case (1 i j f)
  show ?case
  proof (cases "i < j")
    case True
    then have h: "i \<le> (i + j) div 2" "(i + j) div 2 < j"
      by auto
    then show ?thesis
      using 1(1,2) [OF True refl] True order_trans [OF _ less_imp_le [OF h(2)]]
      by (subst search_from.simps) (auto simp: Let_def)
  next
    case False
    then show ?thesis
      using 1(3) by (subst search_from.simps) simp
  qed
qed

lemma RevertToSnapshot_open:
  assumes "RevertToSnapshot i s = Inr s'"
  shows "i \<in> rev_id ` set (validRevisions s)"
proof -
  define k where "k = search_from 0 (length (validRevisions s)) (\<lambda>k. i \<le> rev_id (validRevisions s ! k))"
  have "k \<le> length (validRevisions s)"
    by (simp add: k_def search_from_le)
  moreover have "k \<noteq> length (validRevisions s)" "rev_id (validRevisions s ! k) = i"
    using assms by (auto simp: RevertToSnapshot_def Let_def k_def split: if_splits)
  ultimately show ?thesis
    using nth_mem [of k "validRevisions s"] by (metis image_eqI le_neq_implies_less)
qed

text \<open>A state with the view, journal and snapshots of \<open>g\<close> has the chain of \<open>g\<close>.\<close>

lemma chain_same:
  assumes c: "chain h is g" and ok: "state_ok s" and v: "view s = view g" "journ s = journ g"
    "validRevisions s = validRevisions g" "nextRevisionId g \<le> nextRevisionId s"
  shows "chain h is s"
proof (rule chain_mono [OF c _ v(3)])
  show "extends g s"
    using ok v ul.undoes_refl [of g s] by (auto simp: extends_def)
qed

lemma db_reach_chain: "db_reach s h \<Longrightarrow> \<exists>is. chain h is s"
proof (induction rule: db_reach.induct)
  case (start s)
  then have "chain Map.empty [] s" by simp
  then show ?case ..
next
  case (oper s h p s')
  then obtain js where c: "chain h js s" by blast
  have "chain h js s'"
    using c chain_state_ok [OF c] oper(2) by (intro chain_mono [OF c] db_run_extends db_run_revs)
  then show ?case ..
next
  case (snapshot s h i s')
  then show ?case using chain_push by blast
next
  case (revert s h i s')
  then obtain js where c: "chain h js s" by blast
  have "i \<in> set js"
    using RevertToSnapshot_open [OF revert(2)] chain_ids [OF c] by (metis image_set set_rev)
  then obtain g g' js' where g: "h i = Some g" "Snapshot g = (i, g')" "extends g' s" "chain h js' g"
    using chain_open [OF c] by blast
  have n: "nextRevisionId g \<le> nextRevisionId s"
    using g(2,3) by (auto simp: Snapshot_def extends_def)
  have "chain h js' s'"
    using RevertToSnapshot_correct [OF chain_state_ok [OF g(4)] g(2,3)] revert(2) n
    by (intro chain_same [OF g(4)]) auto
  then show ?case ..
next
  case (finalise s h order del)
  then have "chain h [] (Finalise order del s)"
    using Finalise_ok chain_state_ok by (metis chain.simps(1))
  then show ?case ..
next
  case (txcontext s h x n)
  then have "chain h [] (SetTxContext x n s)"
    using SetTxContext_ok chain_state_ok by (auto simp: SetTxContext_def)
  then show ?case ..
next
  case (prepare s h sender coinbase dst precompiles list s')
  then have ok: "state_ok s"
    using chain_state_ok by blast
  obtain al where "s' = s\<lparr>accessL := al\<rparr>" "al_ok al"
    using Prepare_ok [OF state_ok_wf [OF ok], of sender coinbase dst precompiles list] prepare(3) by auto
  then have "chain h [] s'"
    using ok prepare(2) by (simp add: state_ok_def revs_ok_def wf_fields)
  then show ?case ..
qed

text \<open>C7: in every run of operations, with snapshots taken and reverted in any order, reverting to
  any snapshot that is still open succeeds, and gives back everything a client could observe in the
  state where that snapshot was taken, with its journal (entries and dirty counts) and the
  snapshots that were open then.\<close>

theorem RevertToSnapshot_restores:
  assumes "db_reach s h" "i \<in> rev_id ` set (validRevisions s)"
  shows "\<exists>g s'. h i = Some g \<and> RevertToSnapshot i s = Inr s' \<and> view s' = view g \<and>
    journ s' = journ g \<and> validRevisions s' = validRevisions g"
proof -
  obtain js where c: "chain h js s"
    using db_reach_chain [OF assms(1)] ..
  have "i \<in> set js"
    using assms(2) chain_ids [OF c] by (metis image_set set_rev)
  then obtain g g' js' where g: "h i = Some g" "Snapshot g = (i, g')" "extends g' s" "chain h js' g"
    using chain_open [OF c] by blast
  show ?thesis
    using RevertToSnapshot_correct [OF chain_state_ok [OF g(4)] g(2,3)] g(1) by blast
qed

text \<open>A database in which every address has a balance of seven and no code.\<close>

definition sample_db :: database where
  "sample_db = \<lparr>Keccak256Hash = (\<lambda>b. of_nat (length b)), OpenStorageTrie = (\<lambda>_ _ _. Inr (\<lambda>_. Inr [])),
     ContractCode = (\<lambda>_ _. Inr [])\<rparr>"

definition sample_state :: statedb where
  "sample_state = New 0 sample_db (\<lambda>_. Inr (Some \<lparr>acct_Nonce = 0, acct_Balance = 7, acct_Root = 0,
     acct_CodeHash = replicate 32 0\<rparr>)) None"

lemma sample_ok: "state_ok sample_state" "validRevisions sample_state = []" "nextRevisionId sample_state = 0"
proof -
  have "env_ok sample_state"
    by (simp add: sample_state_def env_ok_def readAccount_def New_def)
  then show "state_ok sample_state" "validRevisions sample_state = []" "nextRevisionId sample_state = 0"
    using New_ok unfolding sample_state_def by (auto simp: New_def)
qed

theorem RevertToSnapshot_restores_witness:
  "\<exists>s'. RevertToSnapshot 0 (SetNonce 2 9 (AddBalance 1 5 (snd (Snapshot sample_state)))) = Inr s' \<and>
     view s' = view sample_state \<and> validRevisions s' = []"
proof -
  let ?h = "Map.empty(0 \<mapsto> sample_state)"
  have "db_reach (snd (Snapshot sample_state)) ?h"
    using db_reach.start [OF sample_ok(1,2)] db_reach.snapshot sample_ok(3) by (auto simp: Snapshot_def)
  then have "db_reach (AddBalance 1 5 (snd (Snapshot sample_state))) ?h"
    using db_reach.oper [where p = "OpAddBalance 1 5"] by simp
  then have "db_reach (SetNonce 2 9 (AddBalance 1 5 (snd (Snapshot sample_state)))) ?h"
    using db_reach.oper [where p = "OpSetNonce 2 9"] by simp
  from RevertToSnapshot_restores [OF this, of 0] show ?thesis
    using sample_ok by (auto simp: Snapshot_def)
qed

section \<open>The order in which a transaction is finalised\<close>

lemma finalise_other:
  assumes "b \<noteq> a"
  shows "stateObjects (finaliseAddress del a s) b = stateObjects s b" "db (finaliseAddress del a s) = db s"
  using assms by (auto simp: finaliseAddress_def Let_def split: option.split)

definition finalised :: "bool \<Rightarrow> stateObject \<Rightarrow> statedb \<Rightarrow> statedb" where
  "finalised e ob s =
     s\<lparr>stateObjects := (stateObjects s)(so_address ob \<mapsto>
         (if e then ob\<lparr>so_deleted := True\<rparr> else so_finalise ob)\<lparr>so_created := False\<rparr>),
       stateObjectsPending := insert (so_address ob) (stateObjectsPending s),
       stateObjectsDirty := insert (so_address ob) (stateObjectsDirty s),
       stateObjectsDestruct := (\<lambda>b. if e \<and> b = so_address ob \<and> stateObjectsDestruct s b = None
         then Some (so_origin ob) else stateObjectsDestruct s b),
       accounts := (\<lambda>h. if e \<and> h = so_addrHash ob then None else accounts s h),
       storages := (\<lambda>h. if e \<and> h = so_addrHash ob then None else storages s h),
       accountsOrigin := (\<lambda>b. if e \<and> b = so_address ob then None else accountsOrigin s b),
       storagesOrigin := (\<lambda>b. if e \<and> b = so_address ob then None else storagesOrigin s b)\<rparr>"

lemma finaliseAddress_eq:
  assumes "stateObjects s a = Some ob" "so_address ob = a"
  shows "finaliseAddress del a s = finalised (del \<and> so_empty s ob) ob s"
  using assms
  by (auto simp: finaliseAddress_def finalised_def Let_def fun_eq_iff intro!: statedb.equality)

lemma finalised_swap:
  "so_address x \<noteq> so_address y \<Longrightarrow> finalised e x (finalised e' y s) = finalised e' y (finalised e x s)"
  by (rule statedb.equality) (auto simp: finalised_def fun_eq_iff)

lemma finaliseAddress_swap:
  assumes wf: "wf_state s"
  shows "finaliseAddress del a (finaliseAddress del b s) = finaliseAddress del b (finaliseAddress del a s)"
proof (cases "a = b \<or> stateObjects s a = None \<or> stateObjects s b = None")
  case True
  moreover have "finaliseAddress del c s = s" if "stateObjects s c = None" for c s
    using that by (simp add: finaliseAddress_def)
  ultimately show ?thesis
    using finalise_other(1) by (cases "a = b") force+
next
  case False
  then obtain x y where xy: "stateObjects s a = Some x" "stateObjects s b = Some y" "a \<noteq> b"
    by auto
  have ad: "so_address x = a" "so_address y = b"
    using wf xy by (auto simp: wf_state_def obj_ok_def)
  have em: "so_empty (finaliseAddress del c s) z = so_empty s z" for c z
    by (simp add: so_empty_def finaliseAddress_def Let_def split: option.split)
  have "stateObjects (finaliseAddress del b s) a = Some x" "stateObjects (finaliseAddress del a s) b = Some y"
    using xy finalise_other(1) by auto
  note eqs = this [THEN finaliseAddress_eq] xy(1,2) [THEN finaliseAddress_eq]
  have "finaliseAddress del a (finaliseAddress del b s) =
      finalised (del \<and> so_empty s x) x (finalised (del \<and> so_empty s y) y s)"
    "finaliseAddress del b (finaliseAddress del a s) =
      finalised (del \<and> so_empty s y) y (finalised (del \<and> so_empty s x) x s)"
    using eqs(1,2) [of del] eqs(3,4) [of del, symmetric] ad em by (simp_all only:)
  then show ?thesis
    using finalised_swap [of x y] ad xy(3) by simp
qed

text \<open>C18: Go visits the dirty addresses of the journal in no fixed order; \<open>Finalise\<close> gives the same
  state whatever the order is.\<close>

theorem Finalise_any_order:
  assumes "wf_state s" "mset order = mset order'"
  shows "Finalise order del s = Finalise order' del s"
proof -
  have "fold (finaliseAddress del) order s = fold (finaliseAddress del) order' s"
    using assms finaliseAddress_wf finaliseAddress_swap
    by (intro fold_permuted_eq [where P = wf_state]) auto
  then show ?thesis by (simp add: Finalise_def)
qed

theorem Finalise_any_order_witness:
  "Finalise [1, 2] True (SetBalance 2 0 (AddBalance 1 5 sample_state)) =
     Finalise [2, 1] True (SetBalance 2 0 (AddBalance 1 5 sample_state))"
proof (rule Finalise_any_order)
  have "state_ok (SetBalance 2 0 (AddBalance 1 5 sample_state))"
    using sample_ok(1) AddBalance_extends SetBalance_extends extends_state_ok by blast
  then show "wf_state (SetBalance 2 0 (AddBalance 1 5 sample_state))"
    by (rule state_ok_wf)
qed simp

end
