(* ===== verification/ZVM_Env.thy ===== *)
theory ZVM_Env
  imports ZVM_Contract State_Snapshot
begin

text \<open>
  The environment and the state of the virtual machine: the block and transaction context
  (\<open>BlockContext\<close>, \<open>TxContext\<close> and \<open>Config\<close> of \<open>core/vm\<close>), the parts of \<open>ZVM\<close> and
  \<open>ZVMInterpreter\<close> that change while code runs, the scope of one call (\<open>ScopeContext\<close> with its
  program counter), and the balance functions of \<open>core/zvm.go\<close>. The arithmetic of
  \<open>github.com/holiman/uint256\<close>, the tree hashing of \<open>fastssz\<close> and SHA-256 are not part of the
  repository, and the pairing curve of \<open>crypto/bn256\<close> is left abstract: they are the records
  \<open>u256_lib\<close> and \<open>crypto_lib\<close>, arguments of every definition that uses them.
\<close>

section \<open>Libraries\<close>

record u256_lib =
  u_Add :: "uint256 \<Rightarrow> uint256 \<Rightarrow> uint256"
  u_Sub :: "uint256 \<Rightarrow> uint256 \<Rightarrow> uint256"
  u_Mul :: "uint256 \<Rightarrow> uint256 \<Rightarrow> uint256"
  u_Div :: "uint256 \<Rightarrow> uint256 \<Rightarrow> uint256"
  u_SDiv :: "uint256 \<Rightarrow> uint256 \<Rightarrow> uint256"
  u_Mod :: "uint256 \<Rightarrow> uint256 \<Rightarrow> uint256"
  u_SMod :: "uint256 \<Rightarrow> uint256 \<Rightarrow> uint256"
  u_Exp :: "uint256 \<Rightarrow> uint256 \<Rightarrow> uint256"
  u_ExtendSign :: "uint256 \<Rightarrow> uint256 \<Rightarrow> uint256"
  u_Not :: "uint256 \<Rightarrow> uint256"
  u_And :: "uint256 \<Rightarrow> uint256 \<Rightarrow> uint256"
  u_Or :: "uint256 \<Rightarrow> uint256 \<Rightarrow> uint256"
  u_Xor :: "uint256 \<Rightarrow> uint256 \<Rightarrow> uint256"
  u_Byte :: "uint256 \<Rightarrow> uint256 \<Rightarrow> uint256"
  u_AddMod :: "uint256 \<Rightarrow> uint256 \<Rightarrow> uint256 \<Rightarrow> uint256"
  u_MulMod :: "uint256 \<Rightarrow> uint256 \<Rightarrow> uint256 \<Rightarrow> uint256"
  u_Lsh :: "uint256 \<Rightarrow> nat \<Rightarrow> uint256"
  u_Rsh :: "uint256 \<Rightarrow> nat \<Rightarrow> uint256"
  u_SRsh :: "uint256 \<Rightarrow> nat \<Rightarrow> uint256"
  u_Lt :: "uint256 \<Rightarrow> uint256 \<Rightarrow> bool"
  u_Gt :: "uint256 \<Rightarrow> uint256 \<Rightarrow> bool"
  u_Slt :: "uint256 \<Rightarrow> uint256 \<Rightarrow> bool"
  u_Sgt :: "uint256 \<Rightarrow> uint256 \<Rightarrow> bool"
  u_Eq :: "uint256 \<Rightarrow> uint256 \<Rightarrow> bool"
  u_LtUint64 :: "uint256 \<Rightarrow> uint64 \<Rightarrow> bool"
  u_GtUint64 :: "uint256 \<Rightarrow> uint64 \<Rightarrow> bool"
  u_Sign :: "uint256 \<Rightarrow> int"
  u_BitLen :: "uint256 \<Rightarrow> nat"

text \<open>What the virtual machine sees of a precompiled contract.\<close>

record PrecompiledContract =
  RequiredGas :: "bytes \<Rightarrow> uint64 go"
  pre_Run :: "bytes \<Rightarrow> (bytes \<times> vmerror option) go"

section \<open>Context\<close>

record BlockContext =
  GetHash :: "uint64 \<Rightarrow> hash"
  Coinbase :: address
  GasLimit :: uint64
  BlockNumber :: int
  BlockTime :: uint64
  BaseFee :: "int option"
  Random :: "hash option"

record TxContext =
  Origin :: address
  GasPrice :: int

text \<open>What stays fixed while a transaction runs. \<open>precompile\<close> is the lookup in the table of
  precompiled contracts and \<open>ChainID\<close> the field of the chain configuration.\<close>

record zenv =
  u256 :: u256_lib
  Context :: BlockContext
  TxCtx :: TxContext
  ChainID :: int
  EnablePreimageRecording :: bool
  NoBaseFee :: bool
  precompile :: "address \<Rightarrow> PrecompiledContract option"

section \<open>State\<close>

text \<open>
  \<open>aborts\<close> is what the successive reads of the flag \<open>abort\<close> return, which another goroutine may
  set at any time. \<open>jumpdests\<close> is the map of analysed code that a contract shares with the
  contract that called it.
\<close>

record zvm =
  StateDB :: statedb
  z_depth :: int
  callGasTemp :: uint64
  readOnly :: bool
  returnData :: bytes
  z_jumpdests :: jumpdests
  aborts :: "nat \<Rightarrow> bool"

record frame =
  f_pc :: uint64
  f_mem :: memory
  f_stk :: stack
  f_con :: contract

definition abort_Load :: "zvm \<Rightarrow> bool \<times> zvm" where
  "abort_Load z = (aborts z 0, z\<lparr>aborts := (\<lambda>n. aborts z (Suc n))\<rparr>)"

definition setDB :: "statedb \<Rightarrow> zvm \<Rightarrow> zvm" where
  "setDB s z = z\<lparr>StateDB := s\<rparr>"

definition SetCodeOptionalHash :: "contract \<Rightarrow> address \<Rightarrow> bytes \<Rightarrow> hash \<Rightarrow> contract" where
  "SetCodeOptionalHash c addr code h = c\<lparr>Code := code, CodeHash := h, CodeAddr := Some addr\<rparr>"

text \<open>The interpreter's \<open>Run\<close>, as the functions that call it see it: the contract, its input and
  the read-only flag give the returned bytes, an error, and the contract and machine afterwards.\<close>

type_synonym runner = "contract \<Rightarrow> bytes \<Rightarrow> bool \<Rightarrow> zvm \<Rightarrow> (bytes \<times> vmerror option \<times> contract \<times> zvm) go"

text \<open>A function of the instruction set, and the result it gives to the interpreter.\<close>

type_synonym opresult = "((bytes \<times> vmerror option) \<times> frame \<times> zvm) go"
type_synonym executionFunc = "zenv \<Rightarrow> runner \<Rightarrow> frame \<Rightarrow> zvm \<Rightarrow> opresult"
type_synonym gasFunc = "zenv \<Rightarrow> frame \<Rightarrow> uint64 \<Rightarrow> zvm \<Rightarrow> ((vmerror + uint64) \<times> frame \<times> zvm) go"
type_synonym memorySizeFunc = "stack \<Rightarrow> (uint64 \<times> bool) go"

section \<open>Balances\<close>

definition CanTransfer :: "statedb \<Rightarrow> address \<Rightarrow> int \<Rightarrow> bool \<times> statedb" where
  "CanTransfer s addr amount = (case GetBalance addr s of (b, s) \<Rightarrow> (amount \<le> b, s))"

definition Transfer :: "statedb \<Rightarrow> address \<Rightarrow> address \<Rightarrow> int \<Rightarrow> statedb" where
  "Transfer s sender recipient amount = AddBalance recipient amount (SubBalance sender amount s)"

lemma CanTransfer_quiet:
  assumes "wf_state s" "CanTransfer s a n = (b, s')"
  shows "quiet s s'"
  using assms GetBalance_read(1) [of s a] by (auto simp: CanTransfer_def split: prod.splits)

lemma Transfer_extends: "state_ok s \<Longrightarrow> extends s (Transfer s a b n)"
  unfolding Transfer_def
  using SubBalance_extends AddBalance_extends extends_state_ok extends_trans by blast

section \<open>Addresses of new contracts\<close>

definition CreateAddress :: "database \<Rightarrow> address \<Rightarrow> uint64 \<Rightarrow> address go" where
  "CreateAddress d b nonce =
     (case buf_list getEncBuffer of (i, buf) \<Rightarrow>
        andThen (listEnd i (writeUint64 nonce (writeBytes (AddressBytes b) buf))) (\<lambda>buf.
        andThen (makeBytes buf) (\<lambda>data.
        Inr (BytesToAddress (drop 12 (HashBytes (Keccak256Hash d data)))))))"

definition CreateAddress2 :: "database \<Rightarrow> address \<Rightarrow> hash \<Rightarrow> bytes \<Rightarrow> address" where
  "CreateAddress2 d b salt inithash =
     BytesToAddress (drop 12 (HashBytes (Keccak256Hash d
       ([0xff] @ AddressBytes b @ HashBytes salt @ inithash))))"

end
