(* ===== verification/ZVM_Precompiles.thy ===== *)
theory ZVM_Precompiles
  imports ZVM_Env
begin

text \<open>
  The precompiled contracts of \<open>core/vm/contracts.go\<close>. The hash functions and the curve
  arithmetic they call are the fields of \<open>crypto_lib\<close>; the gas rules, the splitting of the input
  and modular exponentiation are translated.
\<close>

section \<open>Libraries\<close>

record ('g1, 'g2, 'h) crypto_lib =
  sha256_Sum256 :: "bytes \<Rightarrow> bytes"
  G1_Unmarshal :: "bytes \<Rightarrow> string + 'g1"
  G1_Marshal :: "'g1 \<Rightarrow> bytes"
  G1_Add :: "'g1 \<Rightarrow> 'g1 \<Rightarrow> 'g1"
  G1_ScalarMult :: "'g1 \<Rightarrow> int \<Rightarrow> 'g1"
  G2_Unmarshal :: "bytes \<Rightarrow> string + 'g2"
  PairingCheck :: "'g1 list \<Rightarrow> 'g2 list \<Rightarrow> bool"
  ssz_Hasher :: 'h
  ssz_Index :: "'h \<Rightarrow> nat"
  ssz_PutBytes :: "bytes \<Rightarrow> 'h \<Rightarrow> 'h"
  ssz_PutUint64 :: "uint64 \<Rightarrow> 'h \<Rightarrow> 'h"
  ssz_Merkleize :: "nat \<Rightarrow> 'h \<Rightarrow> 'h"
  ssz_MerkleizeVectorizedHTR :: "nat \<Rightarrow> 'h \<Rightarrow> 'h"
  ssz_EnableVectorizedHTR :: bool
  ssz_HashRoot :: "'h \<Rightarrow> string + bytes"

section \<open>Gas constants\<close>

definition Sha256BaseGas :: uint64 where [params]: "Sha256BaseGas = 60"
definition Sha256PerWordGas :: uint64 where [params]: "Sha256PerWordGas = 12"
definition IdentityBaseGas :: uint64 where [params]: "IdentityBaseGas = 15"
definition IdentityPerWordGas :: uint64 where [params]: "IdentityPerWordGas = 3"
definition Bn256AddGasIstanbul :: uint64 where [params]: "Bn256AddGasIstanbul = 150"
definition Bn256ScalarMulGasIstanbul :: uint64 where [params]: "Bn256ScalarMulGasIstanbul = 6000"
definition Bn256PairingBaseGasIstanbul :: uint64 where [params]: "Bn256PairingBaseGasIstanbul = 45000"
definition Bn256PairingPerPointGasIstanbul :: uint64 where
  [params]: "Bn256PairingPerPointGasIstanbul = 34000"

section \<open>Running a precompiled contract\<close>

definition RunPrecompiledContract ::
  "PrecompiledContract \<Rightarrow> bytes \<Rightarrow> uint64 \<Rightarrow> (bytes \<times> uint64 \<times> vmerror option) go" where
  "RunPrecompiledContract p input suppliedGas =
     andThen (RequiredGas p input) (\<lambda>gasCost.
     if suppliedGas < gasCost then Inr ([], 0, Some ErrOutOfGas)
     else andThen (pre_Run p input) (\<lambda>(output, err). Inr (output, suppliedGas - gasCost, err)))"

section \<open>Deposit root\<close>

record depositdata =
  PublicKey :: bytes
  WithdrawalCredentials :: bytes
  Amount :: uint64
  Signature :: bytes

definition HashTreeRootWith ::
  "('g1, 'g2, 'h) crypto_lib \<Rightarrow> depositdata \<Rightarrow> 'h \<Rightarrow> string + 'h" where
  "HashTreeRootWith L d hh =
     (let indx = ssz_Index L hh in
      if length (PublicKey d) \<noteq> 2592 then Inl ''--.Pubkey''
      else let hh = ssz_PutBytes L (PublicKey d) hh in
      if length (WithdrawalCredentials d) \<noteq> 32 then Inl ''--.WithdrawalCredentials''
      else let hh = ssz_PutBytes L (WithdrawalCredentials d) hh;
               hh = ssz_PutUint64 L (Amount d) hh in
      if length (Signature d) \<noteq> 4595 then Inl ''--.Signature''
      else let hh = ssz_PutBytes L (Signature d) hh in
      Inr (if ssz_EnableVectorizedHTR L then ssz_MerkleizeVectorizedHTR L indx hh
           else ssz_Merkleize L indx hh))"

definition HashTreeRoot :: "('g1, 'g2, 'h) crypto_lib \<Rightarrow> depositdata \<Rightarrow> string + bytes" where
  "HashTreeRoot L d =
     (case HashTreeRootWith L d (ssz_Hasher L) of Inl e \<Rightarrow> Inl e | Inr hh \<Rightarrow> ssz_HashRoot L hh)"

definition depositroot_RequiredGas :: "bytes \<Rightarrow> uint64 go" where
  "depositroot_RequiredGas input = Inr ((2 * Sha256PerWordGas + Sha256BaseGas) * 238)"

text \<open>\<open>binary.Read\<close> of eight bytes, least significant byte first.\<close>

definition little_uint64 :: "bytes \<Rightarrow> uint64" where
  "little_uint64 b = of_nat (be_nat (rev (take 8 b)))"

definition depositroot_Run ::
  "('g1, 'g2, 'h) crypto_lib \<Rightarrow> bytes \<Rightarrow> (bytes \<times> vmerror option) go" where
  "depositroot_Run L input =
     andThen (getData input 0 2592) (\<lambda>pkBytes.
     andThen (getData input 2592 32) (\<lambda>credsBytes.
     andThen (getData input 2624 8) (\<lambda>amountBytes.
     andThen (getData input 2632 4595) (\<lambda>sigBytes.
     if length amountBytes < 8 then Inr ([], Some (ErrPrecompile ''unexpected EOF''))
     else case HashTreeRoot L \<lparr>PublicKey = pkBytes, WithdrawalCredentials = credsBytes,
                 Amount = little_uint64 amountBytes, Signature = sigBytes\<rparr> of
            Inl e \<Rightarrow> Inr ([], Some (ErrPrecompile (''could not hash tree root deposit data item: '' @ e)))
          | Inr h \<Rightarrow> Inr (h, None)))))"

section \<open>Hash and copy\<close>

definition sha256hash_RequiredGas :: "bytes \<Rightarrow> uint64 go" where
  "sha256hash_RequiredGas input =
     Inr (of_nat (length input + 31) div 32 * Sha256PerWordGas + Sha256BaseGas)"

definition sha256hash_Run :: "('g1, 'g2, 'h) crypto_lib \<Rightarrow> bytes \<Rightarrow> (bytes \<times> vmerror option) go" where
  "sha256hash_Run L input = Inr (sha256_Sum256 L input, None)"

definition dataCopy_RequiredGas :: "bytes \<Rightarrow> uint64 go" where
  "dataCopy_RequiredGas input =
     Inr (of_nat (length input + 31) div 32 * IdentityPerWordGas + IdentityBaseGas)"

definition dataCopy_Run :: "bytes \<Rightarrow> (bytes \<times> vmerror option) go" where
  "dataCopy_Run input = Inr (input, None)"

section \<open>Modular exponentiation\<close>

definition modexpMultComplexity :: "int \<Rightarrow> int" where
  "modexpMultComplexity x =
     (if x \<le> 64 then x * x
      else if x \<le> 1024 then x * x div 4 + (96 * x - 3072)
      else x * x div 16 + (480 * x - 199680))"

text \<open>The head of the exponent and the adjusted exponent length.\<close>

definition modexp_expHead :: "bytes \<Rightarrow> int \<Rightarrow> int \<Rightarrow> int go" where
  "modexp_expHead input baseLen expLen =
     (if int (length input) \<le> baseLen then Inr 0
      else andThen (getData input (word_of_int baseLen) (if 32 < expLen then 32 else word_of_int expLen))
        (\<lambda>b. Inr (int (be_nat b))))"

definition modexp_adjExpLen :: "int \<Rightarrow> int \<Rightarrow> int" where
  "modexp_adjExpLen expLen expHead =
     (let bitlen = BitLen expHead;
          msb = (if 0 < bitlen then bitlen - 1 else 0);
          adj = (if 32 < expLen then 8 * (expLen - 32) else 0)
      in adj + msb)"

definition bigModExp_RequiredGas :: "bool \<Rightarrow> bytes \<Rightarrow> uint64 go" where
  "bigModExp_RequiredGas eip2565 input =
     andThen (getData input 0 32) (\<lambda>b.
     andThen (getData input 32 32) (\<lambda>e.
     andThen (getData input 64 32) (\<lambda>m.
     let baseLen = int (be_nat b); expLen = int (be_nat e); modLen = int (be_nat m);
         input = (if 96 < length input then drop 96 input else []) in
     andThen (modexp_expHead input baseLen expLen) (\<lambda>expHead.
     let adjExpLen = modexp_adjExpLen expLen expHead;
         gas = max modLen baseLen in
     if eip2565 then
       let gas = (gas + 7) div 8;
           gas = gas * gas * max adjExpLen 1 div 3 in
       Inr (if 64 < BitLen gas then MaxUint64
            else if (word_of_int gas :: uint64) < 200 then 200 else word_of_int gas)
     else
       let gas = modexpMultComplexity gas * max adjExpLen 1 div 20 in
       Inr (if 64 < BitLen gas then MaxUint64 else word_of_int gas)))))"

text \<open>\<open>big.Int.Bytes\<close>: the big-endian bytes of a non-negative integer without leading zeroes.\<close>

definition big_Bytes :: "int \<Rightarrow> bytes" where
  "big_Bytes x = be_bytes (nat ((BitLen x + 7) div 8)) (nat x)"

definition bigModExp_Run :: "bytes \<Rightarrow> (bytes \<times> vmerror option) go" where
  "bigModExp_Run input =
     andThen (getData input 0 32) (\<lambda>b.
     andThen (getData input 32 32) (\<lambda>e.
     andThen (getData input 64 32) (\<lambda>m.
     let baseLen = of_nat (be_nat b) :: uint64; expLen = of_nat (be_nat e) :: uint64;
         modLen = of_nat (be_nat m) :: uint64;
         input = (if 96 < length input then drop 96 input else []) in
     if baseLen = 0 \<and> modLen = 0 then Inr ([], None)
     else
       andThen (getData input 0 baseLen) (\<lambda>b.
       andThen (getData input baseLen expLen) (\<lambda>e.
       andThen (getData input (baseLen + expLen) modLen) (\<lambda>m.
       let base = int (be_nat b); exp = int (be_nat e); mo = int (be_nat m) in
       Inr (LeftPadBytes
              (if BitLen mo = 0 then []
               else if BitLen base = 1 then big_Bytes (base mod mo)
               else big_Bytes (base ^ nat exp mod mo)) (sint modLen), None)))))))"

section \<open>Curve operations\<close>

definition bn256AddIstanbul_RequiredGas :: "bytes \<Rightarrow> uint64 go" where
  "bn256AddIstanbul_RequiredGas input = Inr Bn256AddGasIstanbul"

definition runBn256Add :: "('g1, 'g2, 'h) crypto_lib \<Rightarrow> bytes \<Rightarrow> (bytes \<times> vmerror option) go" where
  "runBn256Add L input =
     andThen (getData input 0 64) (\<lambda>xb.
     case G1_Unmarshal L xb of
       Inl e \<Rightarrow> Inr ([], Some (ErrPrecompile e))
     | Inr x \<Rightarrow>
         andThen (getData input 64 64) (\<lambda>yb.
         case G1_Unmarshal L yb of
           Inl e \<Rightarrow> Inr ([], Some (ErrPrecompile e))
         | Inr y \<Rightarrow> Inr (G1_Marshal L (G1_Add L x y), None)))"

definition bn256ScalarMulIstanbul_RequiredGas :: "bytes \<Rightarrow> uint64 go" where
  "bn256ScalarMulIstanbul_RequiredGas input = Inr Bn256ScalarMulGasIstanbul"

definition runBn256ScalarMul :: "('g1, 'g2, 'h) crypto_lib \<Rightarrow> bytes \<Rightarrow> (bytes \<times> vmerror option) go" where
  "runBn256ScalarMul L input =
     andThen (getData input 0 64) (\<lambda>pb.
     case G1_Unmarshal L pb of
       Inl e \<Rightarrow> Inr ([], Some (ErrPrecompile e))
     | Inr p \<Rightarrow>
         andThen (getData input 64 32) (\<lambda>k.
         Inr (G1_Marshal L (G1_ScalarMult L p (int (be_nat k))), None)))"

definition bn256PairingIstanbul_RequiredGas :: "bytes \<Rightarrow> uint64 go" where
  "bn256PairingIstanbul_RequiredGas input =
     Inr (Bn256PairingBaseGasIstanbul + of_nat (length input div 192) * Bn256PairingPerPointGasIstanbul)"

text \<open>The loop over the pairs of points, \<open>n\<close> of them left.\<close>

primrec pairingPoints ::
  "('g1, 'g2, 'h) crypto_lib \<Rightarrow> bytes \<Rightarrow> nat \<Rightarrow> nat \<Rightarrow> 'g1 list \<Rightarrow> 'g2 list \<Rightarrow> (string + 'g1 list \<times> 'g2 list) go"
where
  "pairingPoints L input i 0 cs ts = Inr (Inr (cs, ts))"
| "pairingPoints L input i (Suc n) cs ts =
     andThen (go_slice input (int i) (int (i + 64))) (\<lambda>cb.
     case G1_Unmarshal L cb of
       Inl e \<Rightarrow> Inr (Inl e)
     | Inr c \<Rightarrow>
         andThen (go_slice input (int (i + 64)) (int (i + 192))) (\<lambda>tb.
         case G2_Unmarshal L tb of
           Inl e \<Rightarrow> Inr (Inl e)
         | Inr t \<Rightarrow> pairingPoints L input (i + 192) n (cs @ [c]) (ts @ [t])))"

definition runBn256Pairing :: "('g1, 'g2, 'h) crypto_lib \<Rightarrow> bytes \<Rightarrow> (bytes \<times> vmerror option) go" where
  "runBn256Pairing L input =
     (if 0 < length input mod 192 then Inr ([], Some (ErrPrecompile ''bad elliptic curve pairing size''))
      else andThen (pairingPoints L input 0 (length input div 192) [] []) (\<lambda>r.
        case r of
          Inl e \<Rightarrow> Inr ([], Some (ErrPrecompile e))
        | Inr (cs, ts) \<Rightarrow> Inr (replicate 31 0 @ [if PairingCheck L cs ts then 1 else 0], None)))"

section \<open>The table\<close>

definition PrecompiledContractsBerlin ::
  "('g1, 'g2, 'h) crypto_lib \<Rightarrow> address \<Rightarrow> PrecompiledContract option" where
  "PrecompiledContractsBerlin L =
     [1 \<mapsto> \<lparr>RequiredGas = depositroot_RequiredGas, pre_Run = depositroot_Run L\<rparr>,
      2 \<mapsto> \<lparr>RequiredGas = sha256hash_RequiredGas, pre_Run = sha256hash_Run L\<rparr>,
      4 \<mapsto> \<lparr>RequiredGas = dataCopy_RequiredGas, pre_Run = dataCopy_Run\<rparr>,
      5 \<mapsto> \<lparr>RequiredGas = bigModExp_RequiredGas True, pre_Run = bigModExp_Run\<rparr>,
      6 \<mapsto> \<lparr>RequiredGas = bn256AddIstanbul_RequiredGas, pre_Run = runBn256Add L\<rparr>,
      7 \<mapsto> \<lparr>RequiredGas = bn256ScalarMulIstanbul_RequiredGas, pre_Run = runBn256ScalarMul L\<rparr>,
      8 \<mapsto> \<lparr>RequiredGas = bn256PairingIstanbul_RequiredGas, pre_Run = runBn256Pairing L\<rparr>]"

end
