(* ===== verification/ZVM_Calls.thy ===== *)
theory ZVM_Calls
  imports ZVM_Precompiles
begin

text \<open>
  The entry points of \<open>core/vm/zvm.go\<close>: \<open>Call\<close>, \<open>DelegateCall\<close>, \<open>StaticCall\<close>, \<open>Create\<close> and
  \<open>Create2\<close>. They take the interpreter's \<open>Run\<close> as the argument \<open>run\<close>; the interpreter passes
  itself. Tracing is off.
\<close>

definition withoutGas :: "vmerror option \<Rightarrow> uint64 \<Rightarrow> uint64" where
  "withoutGas err gas = (if err \<noteq> Some ErrExecutionReverted then 0 else gas)"

text \<open>The end of every call: on an error, the state goes back to the snapshot, and unless the code
  reverted, the gas that is left is consumed.\<close>

definition finishCall ::
  "nat \<Rightarrow> bytes \<Rightarrow> uint64 \<Rightarrow> vmerror option \<Rightarrow> zvm \<Rightarrow> (bytes \<times> uint64 \<times> vmerror option \<times> zvm) go" where
  "finishCall snapshot ret gas err z =
     (if err \<noteq> None then
        andThen (RevertToSnapshot snapshot (StateDB z)) (\<lambda>s.
        Inr (ret, withoutGas err gas, err, setDB s z))
      else Inr (ret, gas, err, z))"

text \<open>The execution of the callee in \<open>Call\<close>, after the value has been transferred.\<close>

definition executeCall ::
  "zenv \<Rightarrow> runner \<Rightarrow> nat \<Rightarrow> contractRef \<Rightarrow> address \<Rightarrow> bytes \<Rightarrow> uint64 \<Rightarrow> int \<Rightarrow> zvm \<Rightarrow>
     (bytes \<times> uint64 \<times> vmerror option \<times> zvm) go" where
  "executeCall E run snapshot clr addr input gas val z =
     (case precompile E addr of
        Some p \<Rightarrow>
          andThen (RunPrecompiledContract p input gas) (\<lambda>(ret, gas, err). finishCall snapshot ret gas err z)
      | None \<Rightarrow>
          (case GetCode addr (StateDB z) of (code, s) \<Rightarrow>
             if code = [] then finishCall snapshot [] gas None (setDB s z)
             else
               (case GetCodeHash addr s of (codeHash, s) \<Rightarrow>
                  let con = SetCallCode (NewContract clr addr val gas) addr codeHash code;
                      z = z\<lparr>StateDB := s, z_jumpdests := NewContract_jumpdests clr (z_jumpdests z)\<rparr> in
                  andThen (run con input False z) (\<lambda>(ret, err, con, z).
                  finishCall snapshot ret (Gas con) err z))))"

definition Call ::
  "zenv \<Rightarrow> runner \<Rightarrow> contractRef \<Rightarrow> address \<Rightarrow> bytes \<Rightarrow> uint64 \<Rightarrow> int \<Rightarrow> zvm \<Rightarrow>
     (bytes \<times> uint64 \<times> vmerror option \<times> zvm) go" where
  "Call E run clr addr input gas val z =
     (if z_depth z > int (unat CallCreateDepth) then Inr ([], gas, Some ErrDepth, z)
      else
        case (if val \<noteq> 0 then CanTransfer (StateDB z) (ref_Address clr) val
              else (True, StateDB z)) of (can, s) \<Rightarrow>
        if \<not> can then Inr ([], gas, Some ErrInsufficientBalance, setDB s z)
        else
          case Snapshot s of (snapshot, s) \<Rightarrow>
          case Exist addr s of (exists, s) \<Rightarrow>
          if \<not> exists \<and> precompile E addr = None \<and> val = 0 then Inr ([], gas, None, setDB s z)
          else
            let s = (if \<not> exists then CreateAccount addr s else s);
                s = Transfer s (ref_Address clr) addr val in
            executeCall E run snapshot clr addr input gas val (setDB s z))"

definition DelegateCall ::
  "zenv \<Rightarrow> runner \<Rightarrow> contractRef \<Rightarrow> address \<Rightarrow> bytes \<Rightarrow> uint64 \<Rightarrow> zvm \<Rightarrow>
     (bytes \<times> uint64 \<times> vmerror option \<times> zvm) go" where
  "DelegateCall E run clr addr input gas z =
     (if z_depth z > int (unat CallCreateDepth) then Inr ([], gas, Some ErrDepth, z)
      else
        let (snapshot, s) = Snapshot (StateDB z) in
        case precompile E addr of
          Some p \<Rightarrow>
            andThen (RunPrecompiledContract p input gas) (\<lambda>(ret, gas, err).
            finishCall snapshot ret gas err (setDB s z))
        | None \<Rightarrow>
            andThen (AsDelegate (NewContract clr (ref_Address clr) 0 gas)) (\<lambda>con.
            let (codeHash, s) = GetCodeHash addr s;
                (code, s) = GetCode addr s;
                con = SetCallCode con addr codeHash code;
                z = z\<lparr>StateDB := s, z_jumpdests := NewContract_jumpdests clr (z_jumpdests z)\<rparr> in
            andThen (run con input False z) (\<lambda>(ret, err, con, z).
            finishCall snapshot ret (Gas con) err z)))"

definition StaticCall ::
  "zenv \<Rightarrow> runner \<Rightarrow> contractRef \<Rightarrow> address \<Rightarrow> bytes \<Rightarrow> uint64 \<Rightarrow> zvm \<Rightarrow>
     (bytes \<times> uint64 \<times> vmerror option \<times> zvm) go" where
  "StaticCall E run clr addr input gas z =
     (if z_depth z > int (unat CallCreateDepth) then Inr ([], gas, Some ErrDepth, z)
      else
        let (snapshot, s) = Snapshot (StateDB z);
            s = AddBalance addr 0 s in
        case precompile E addr of
          Some p \<Rightarrow>
            andThen (RunPrecompiledContract p input gas) (\<lambda>(ret, gas, err).
            finishCall snapshot ret gas err (setDB s z))
        | None \<Rightarrow>
            let con = NewContract clr addr 0 gas;
                (codeHash, s) = GetCodeHash addr s;
                (code, s) = GetCode addr s;
                con = SetCallCode con addr codeHash code;
                z = z\<lparr>StateDB := s, z_jumpdests := NewContract_jumpdests clr (z_jumpdests z)\<rparr> in
            andThen (run con input True z) (\<lambda>(ret, err, con, z).
            finishCall snapshot ret (Gas con) err z))"

section \<open>Contract creation\<close>

text \<open>What becomes of the code that the constructor returned: the error it is rejected with, and the
  contract and state after paying for its storage.\<close>

definition storeCode ::
  "address \<Rightarrow> bytes \<Rightarrow> vmerror option \<Rightarrow> contract \<Rightarrow> zvm \<Rightarrow> vmerror option \<times> contract \<times> zvm" where
  "storeCode addr ret err con z =
     (let err = (if err = None \<and> MaxCodeSize < length ret then Some ErrMaxCodeSizeExceeded else err);
          err = (if err = None \<and> 1 \<le> length ret \<and> ret ! 0 = 0xEF then Some ErrInvalidCode else err) in
      if err = None then
        (case UseGas con (of_nat (length ret) * CreateDataGas) of
           (con, True) \<Rightarrow> (None, con, setDB (SetCode addr ret (StateDB z)) z)
         | (con, False) \<Rightarrow> (Some ErrCodeStoreOutOfGas, con, z))
      else (err, con, z))"

definition finishCreate ::
  "nat \<Rightarrow> address \<Rightarrow> bytes \<Rightarrow> vmerror option \<Rightarrow> contract \<Rightarrow> zvm \<Rightarrow>
     (bytes \<times> address \<times> uint64 \<times> vmerror option \<times> zvm) go" where
  "finishCreate snapshot addr ret err con z =
     (if err \<noteq> None \<and> err \<noteq> Some ErrCodeStoreOutOfGas then
        andThen (RevertToSnapshot snapshot (StateDB z)) (\<lambda>s.
        let con = (if err \<noteq> Some ErrExecutionReverted then fst (UseGas con (Gas con)) else con) in
        Inr (ret, addr, Gas con, err, setDB s z))
      else Inr (ret, addr, Gas con, err, z))"

definition executeCreate ::
  "runner \<Rightarrow> contractRef \<Rightarrow> bytes \<Rightarrow> hash \<Rightarrow> uint64 \<Rightarrow> int \<Rightarrow> address \<Rightarrow> zvm \<Rightarrow>
     (bytes \<times> address \<times> uint64 \<times> vmerror option \<times> zvm) go" where
  "executeCreate run clr code codehash gas val addr z =
     (case Snapshot (StateDB z) of (snapshot, s) \<Rightarrow>
        let s = Transfer (SetNonce addr 1 (CreateAccount addr s)) (ref_Address clr) addr val;
            con = SetCodeOptionalHash (NewContract clr addr val gas) addr code codehash;
            z = z\<lparr>StateDB := s, z_jumpdests := NewContract_jumpdests clr (z_jumpdests z)\<rparr> in
        andThen (run con [] False z) (\<lambda>(ret, err, con, z).
        case storeCode addr ret err con z of
          (err, con, z) \<Rightarrow> finishCreate snapshot addr ret err con z))"

definition create ::
  "zenv \<Rightarrow> runner \<Rightarrow> contractRef \<Rightarrow> bytes \<Rightarrow> hash \<Rightarrow> uint64 \<Rightarrow> int \<Rightarrow> address \<Rightarrow> zvm \<Rightarrow>
     (bytes \<times> address \<times> uint64 \<times> vmerror option \<times> zvm) go" where
  "create E run clr code codehash gas val addr z =
     (if z_depth z > int (unat CallCreateDepth) then Inr ([], 0, gas, Some ErrDepth, z)
      else
        case CanTransfer (StateDB z) (ref_Address clr) val of (can, s) \<Rightarrow>
        if \<not> can then Inr ([], 0, gas, Some ErrInsufficientBalance, setDB s z)
        else
          case GetNonce (ref_Address clr) s of (nonce, s) \<Rightarrow>
          if nonce + 1 < nonce then Inr ([], 0, gas, Some ErrNonceUintOverflow, setDB s z)
          else
            case GetCodeHash addr (AddAddressToAccessList addr (SetNonce (ref_Address clr) (nonce + 1) s))
            of (contractHash, s) \<Rightarrow>
            case GetNonce addr s of (addrNonce, s) \<Rightarrow>
            if addrNonce \<noteq> 0 \<or> (contractHash \<noteq> 0 \<and> contractHash \<noteq> EmptyCodeHash (db s))
            then Inr ([], 0, 0, Some ErrContractAddressCollision, setDB s z)
            else executeCreate run clr code codehash gas val addr (setDB s z))"

text \<open>\<open>Create\<close> leaves the hash of the init code unset; \<open>Create2\<close> computes it for the address.\<close>

definition Create ::
  "zenv \<Rightarrow> runner \<Rightarrow> contractRef \<Rightarrow> bytes \<Rightarrow> uint64 \<Rightarrow> int \<Rightarrow> zvm \<Rightarrow>
     (bytes \<times> address \<times> uint64 \<times> vmerror option \<times> zvm) go" where
  "Create E run clr code gas val z =
     (let (nonce, s) = GetNonce (ref_Address clr) (StateDB z) in
      andThen (CreateAddress (db s) (ref_Address clr) nonce) (\<lambda>contractAddr.
      create E run clr code 0 gas val contractAddr (setDB s z)))"

definition Create2 ::
  "zenv \<Rightarrow> runner \<Rightarrow> contractRef \<Rightarrow> bytes \<Rightarrow> uint64 \<Rightarrow> int \<Rightarrow> hash \<Rightarrow> zvm \<Rightarrow>
     (bytes \<times> address \<times> uint64 \<times> vmerror option \<times> zvm) go" where
  "Create2 E run clr code gas endowment salt z =
     (let h = Keccak256Hash (db (StateDB z)) code;
          contractAddr = CreateAddress2 (db (StateDB z)) (ref_Address clr) salt (HashBytes h) in
      create E run clr code h gas endowment contractAddr z)"

end
