(* ===== verification/ZVM_Gas.thy ===== *)
theory ZVM_Gas
  imports ZVM_Calls
begin

text \<open>
  Dynamic gas (\<open>core/vm/gas_table.go\<close> and \<open>core/vm/operations_acl.go\<close>) and the memory an
  instruction needs (\<open>core/vm/memory_table.go\<close>). A gas function gets the scope and the machine
  and gives the cost or an error; some of them also warm the access list, move the refund counter,
  set \<open>callGasTemp\<close> or, between their first and last step, charge the contract.
\<close>

section \<open>Memory sizes\<close>

definition memoryKeccak256 :: memorySizeFunc where
  "memoryKeccak256 st = andThen (Back st 0) (\<lambda>a. andThen (Back st 1) (\<lambda>b. Inr (calcMemSize64 a b)))"

definition memoryCallDataCopy :: memorySizeFunc where
  "memoryCallDataCopy st = andThen (Back st 0) (\<lambda>a. andThen (Back st 2) (\<lambda>b. Inr (calcMemSize64 a b)))"

definition memoryReturnDataCopy :: memorySizeFunc where
  "memoryReturnDataCopy st = andThen (Back st 0) (\<lambda>a. andThen (Back st 2) (\<lambda>b. Inr (calcMemSize64 a b)))"

definition memoryCodeCopy :: memorySizeFunc where
  "memoryCodeCopy st = andThen (Back st 0) (\<lambda>a. andThen (Back st 2) (\<lambda>b. Inr (calcMemSize64 a b)))"

definition memoryExtCodeCopy :: memorySizeFunc where
  "memoryExtCodeCopy st = andThen (Back st 1) (\<lambda>a. andThen (Back st 3) (\<lambda>b. Inr (calcMemSize64 a b)))"

definition memoryMLoad :: memorySizeFunc where
  "memoryMLoad st = andThen (Back st 0) (\<lambda>a. Inr (calcMemSize64WithUint a 32))"

definition memoryMStore8 :: memorySizeFunc where
  "memoryMStore8 st = andThen (Back st 0) (\<lambda>a. Inr (calcMemSize64WithUint a 1))"

definition memoryMStore :: memorySizeFunc where
  "memoryMStore st = andThen (Back st 0) (\<lambda>a. Inr (calcMemSize64WithUint a 32))"

definition memoryCreate :: memorySizeFunc where
  "memoryCreate st = andThen (Back st 1) (\<lambda>a. andThen (Back st 2) (\<lambda>b. Inr (calcMemSize64 a b)))"

definition memoryCreate2 :: memorySizeFunc where
  "memoryCreate2 st = andThen (Back st 1) (\<lambda>a. andThen (Back st 2) (\<lambda>b. Inr (calcMemSize64 a b)))"

definition memoryCall :: memorySizeFunc where
  "memoryCall st =
     andThen (Back st 5) (\<lambda>a. andThen (Back st 6) (\<lambda>b.
     case calcMemSize64 a b of (x, overflow) \<Rightarrow>
     if overflow then Inr (0, True)
     else andThen (Back st 3) (\<lambda>a. andThen (Back st 4) (\<lambda>b.
       case calcMemSize64 a b of (y, overflow) \<Rightarrow>
       if overflow then Inr (0, True)
       else if y < x then Inr (x, False) else Inr (y, False)))))"

definition memoryDelegateCall :: memorySizeFunc where
  "memoryDelegateCall st =
     andThen (Back st 4) (\<lambda>a. andThen (Back st 5) (\<lambda>b.
     case calcMemSize64 a b of (x, overflow) \<Rightarrow>
     if overflow then Inr (0, True)
     else andThen (Back st 2) (\<lambda>a. andThen (Back st 3) (\<lambda>b.
       case calcMemSize64 a b of (y, overflow) \<Rightarrow>
       if overflow then Inr (0, True)
       else if y < x then Inr (x, False) else Inr (y, False)))))"

definition memoryStaticCall :: memorySizeFunc where
  "memoryStaticCall st =
     andThen (Back st 4) (\<lambda>a. andThen (Back st 5) (\<lambda>b.
     case calcMemSize64 a b of (x, overflow) \<Rightarrow>
     if overflow then Inr (0, True)
     else andThen (Back st 2) (\<lambda>a. andThen (Back st 3) (\<lambda>b.
       case calcMemSize64 a b of (y, overflow) \<Rightarrow>
       if overflow then Inr (0, True)
       else if y < x then Inr (x, False) else Inr (y, False)))))"

definition memoryReturn :: memorySizeFunc where
  "memoryReturn st = andThen (Back st 0) (\<lambda>a. andThen (Back st 1) (\<lambda>b. Inr (calcMemSize64 a b)))"

definition memoryRevert :: memorySizeFunc where
  "memoryRevert st = andThen (Back st 0) (\<lambda>a. andThen (Back st 1) (\<lambda>b. Inr (calcMemSize64 a b)))"

definition memoryLog :: memorySizeFunc where
  "memoryLog st = andThen (Back st 0) (\<lambda>a. andThen (Back st 1) (\<lambda>b. Inr (calcMemSize64 a b)))"

section \<open>Results of gas functions\<close>

definition gasErr :: "vmerror \<Rightarrow> frame \<Rightarrow> zvm \<Rightarrow> ((vmerror + uint64) \<times> frame \<times> zvm) go" where
  "gasErr e f z = Inr (Inl e, f, z)"

definition gasIs :: "uint64 \<Rightarrow> frame \<Rightarrow> zvm \<Rightarrow> ((vmerror + uint64) \<times> frame \<times> zvm) go" where
  "gasIs g f z = Inr (Inr g, f, z)"

text \<open>\<open>if gas, overflow = math.SafeAdd(a, b); overflow { return 0, ErrGasUintOverflow }\<close>, and the same
  for a product.\<close>

definition addGas ::
  "uint64 \<Rightarrow> uint64 \<Rightarrow> frame \<Rightarrow> zvm \<Rightarrow> (uint64 \<Rightarrow> ((vmerror + uint64) \<times> frame \<times> zvm) go) \<Rightarrow>
     ((vmerror + uint64) \<times> frame \<times> zvm) go" where
  "addGas a b f z k = (case SafeAdd a b of (g, overflow) \<Rightarrow> if overflow then gasErr ErrGasUintOverflow f z else k g)"

definition mulGas ::
  "uint64 \<Rightarrow> uint64 \<Rightarrow> frame \<Rightarrow> zvm \<Rightarrow> (uint64 \<Rightarrow> ((vmerror + uint64) \<times> frame \<times> zvm) go) \<Rightarrow>
     ((vmerror + uint64) \<times> frame \<times> zvm) go" where
  "mulGas a b f z k = (case SafeMul a b of (g, overflow) \<Rightarrow> if overflow then gasErr ErrGasUintOverflow f z else k g)"

text \<open>The price of the memory, which every gas function with dynamic memory asks for.\<close>

definition withMemoryGas ::
  "frame \<Rightarrow> uint64 \<Rightarrow> zvm \<Rightarrow> (uint64 \<Rightarrow> frame \<Rightarrow> ((vmerror + uint64) \<times> frame \<times> zvm) go) \<Rightarrow>
     ((vmerror + uint64) \<times> frame \<times> zvm) go" where
  "withMemoryGas f memorySize z k =
     (case memoryGasCost (f_mem f) memorySize of
        Inl e \<Rightarrow> gasErr e f z
      | Inr (gas, m) \<Rightarrow> k gas (f\<lparr>f_mem := m\<rparr>))"

section \<open>Gas of the plain instructions\<close>

definition memoryCopierGas :: "nat \<Rightarrow> gasFunc" where
  "memoryCopierGas stackpos E f memorySize z =
     withMemoryGas f memorySize z (\<lambda>gas f.
     andThen (Back (f_stk f) stackpos) (\<lambda>w.
     if \<not> IsUint64 w then gasErr ErrGasUintOverflow f z
     else mulGas (toWordSize (Uint64 w)) CopyGas f z (\<lambda>words.
       addGas gas words f z (\<lambda>gas. gasIs gas f z))))"

definition gasCallDataCopy :: gasFunc where "gasCallDataCopy = memoryCopierGas 2"
definition gasCodeCopy :: gasFunc where "gasCodeCopy = memoryCopierGas 2"
definition gasExtCodeCopy :: gasFunc where "gasExtCodeCopy = memoryCopierGas 3"
definition gasReturnDataCopy :: gasFunc where "gasReturnDataCopy = memoryCopierGas 2"

definition makeGasLog :: "uint64 \<Rightarrow> gasFunc" where
  "makeGasLog n E f memorySize z =
     andThen (Back (f_stk f) 1) (\<lambda>w.
     if \<not> IsUint64 w then gasErr ErrGasUintOverflow f z
     else withMemoryGas f memorySize z (\<lambda>gas f.
       addGas gas LogGas f z (\<lambda>gas.
       addGas gas (n * LogTopicGas) f z (\<lambda>gas.
       mulGas (Uint64 w) LogDataGas f z (\<lambda>memorySizeGas.
       addGas gas memorySizeGas f z (\<lambda>gas. gasIs gas f z))))))"

definition gasKeccak256 :: gasFunc where
  "gasKeccak256 E f memorySize z =
     withMemoryGas f memorySize z (\<lambda>gas f.
     andThen (Back (f_stk f) 1) (\<lambda>w.
     if \<not> IsUint64 w then gasErr ErrGasUintOverflow f z
     else mulGas (toWordSize (Uint64 w)) Keccak256WordGas f z (\<lambda>wordGas.
       addGas gas wordGas f z (\<lambda>gas. gasIs gas f z))))"

definition pureMemoryGascost :: gasFunc where
  "pureMemoryGascost E f memorySize z = withMemoryGas f memorySize z (\<lambda>gas f. gasIs gas f z)"

definition gasReturn :: gasFunc where "gasReturn = pureMemoryGascost"
definition gasRevert :: gasFunc where "gasRevert = pureMemoryGascost"
definition gasMLoad :: gasFunc where "gasMLoad = pureMemoryGascost"
definition gasMStore8 :: gasFunc where "gasMStore8 = pureMemoryGascost"
definition gasMStore :: gasFunc where "gasMStore = pureMemoryGascost"

definition gasCreateEip3860 :: gasFunc where
  "gasCreateEip3860 E f memorySize z =
     withMemoryGas f memorySize z (\<lambda>gas f.
     andThen (Back (f_stk f) 2) (\<lambda>sz.
     if \<not> IsUint64 sz \<or> of_nat MaxInitCodeSize < Uint64 sz then gasErr ErrGasUintOverflow f z
     else addGas gas (InitCodeWordGas * ((Uint64 sz + 31) div 32)) f z (\<lambda>gas. gasIs gas f z)))"

definition gasCreate2Eip3860 :: gasFunc where
  "gasCreate2Eip3860 E f memorySize z =
     withMemoryGas f memorySize z (\<lambda>gas f.
     andThen (Back (f_stk f) 2) (\<lambda>sz.
     if \<not> IsUint64 sz \<or> of_nat MaxInitCodeSize < Uint64 sz then gasErr ErrGasUintOverflow f z
     else addGas gas ((InitCodeWordGas + Keccak256WordGas) * ((Uint64 sz + 31) div 32)) f z
       (\<lambda>gas. gasIs gas f z)))"

definition gasExpEIP158 :: gasFunc where
  "gasExpEIP158 E f memorySize z =
     andThen (Back (f_stk f) 1) (\<lambda>e.
     let expByteLen = of_nat ((u_BitLen (u256 E) e + 7) div 8) in
     addGas (expByteLen * ExpByteEIP158) ExpGas f z (\<lambda>gas. gasIs gas f z))"

section \<open>Gas of the calls\<close>

text \<open>The last step of the three gas functions: what the callee gets is remembered in
  \<open>callGasTemp\<close> and added to the price.\<close>

definition chargeCallGas :: "uint64 \<Rightarrow> frame \<Rightarrow> zvm \<Rightarrow> ((vmerror + uint64) \<times> frame \<times> zvm) go" where
  "chargeCallGas gas f z =
     andThen (Back (f_stk f) 0) (\<lambda>callCost.
     let z = z\<lparr>callGasTemp := callGas (Gas (f_con f)) gas callCost\<rparr> in
     addGas gas (callGasTemp z) f z (\<lambda>gas. gasIs gas f z))"

definition gasCall :: gasFunc where
  "gasCall E f memorySize z =
     andThen (Back (f_stk f) 2) (\<lambda>val.
     andThen (Back (f_stk f) 1) (\<lambda>a.
     let transfersValue = (val \<noteq> 0);
         (isEmpty, s) = (if transfersValue then Empty (Bytes20 a) (StateDB z) else (False, StateDB z));
         z = setDB s z;
         gas = (if transfersValue \<and> isEmpty then CallNewAccountGas else 0);
         gas = (if transfersValue then gas + CallValueTransferGas else gas) in
     withMemoryGas f memorySize z (\<lambda>memoryGas f.
     addGas gas memoryGas f z (\<lambda>gas. chargeCallGas gas f z))))"

definition gasDelegateCall :: gasFunc where
  "gasDelegateCall E f memorySize z =
     withMemoryGas f memorySize z (\<lambda>gas f. chargeCallGas gas f z)"

definition gasStaticCall :: gasFunc where
  "gasStaticCall E f memorySize z =
     withMemoryGas f memorySize z (\<lambda>gas f. chargeCallGas gas f z)"

section \<open>Access lists\<close>

text \<open>The tail of the \<open>SSTORE\<close> rule, once the slot's original, current and new values are known.\<close>

definition sstoreCost ::
  "uint64 \<Rightarrow> uint64 \<Rightarrow> hash \<Rightarrow> hash \<Rightarrow> hash \<Rightarrow> statedb \<Rightarrow> (uint64 \<times> statedb) go" where
  "sstoreCost clearingRefund cost original current v s =
     (if original = current then
        if original = 0 then Inr (cost + SstoreSetGasEIP2200, s)
        else Inr (cost + (SstoreResetGasEIP2200 - ColdSloadCostEIP2929),
                  if v = 0 then AddRefund clearingRefund s else s)
      else
        andThen (if original \<noteq> 0 then
                   (if current = 0 then SubRefund clearingRefund s
                    else Inr (if v = 0 then AddRefund clearingRefund s else s))
                 else Inr s) (\<lambda>s.
        let s = (if original = v then
                   (if original = 0 then
                      AddRefund (SstoreSetGasEIP2200 - WarmStorageReadCostEIP2929) s
                    else AddRefund ((SstoreResetGasEIP2200 - ColdSloadCostEIP2929)
                           - WarmStorageReadCostEIP2929) s)
                 else s)
        in Inr (cost + WarmStorageReadCostEIP2929, s)))"

text \<open>The first part of the rule: the slot is put into the access list, and a cold one costs.\<close>

definition warmSlot :: "address \<Rightarrow> hash \<Rightarrow> statedb \<Rightarrow> (uint64 \<times> statedb) go" where
  "warmSlot a slot s =
     andThen (SlotInAccessList a slot s) (\<lambda>(addrPresent, slotPresent).
     if \<not> slotPresent then
       andThen (AddSlotToAccessList a slot s) (\<lambda>s.
       if \<not> addrPresent
       then Inl (PanicMsg ''impossible case: address was not present in access list during sstore op'')
       else Inr (ColdSloadCostEIP2929, s))
     else Inr (0, s))"

definition sstorePrice ::
  "uint64 \<Rightarrow> address \<Rightarrow> hash \<Rightarrow> hash \<Rightarrow> hash \<Rightarrow> uint64 \<Rightarrow> statedb \<Rightarrow> (uint64 \<times> statedb) go" where
  "sstorePrice clearingRefund a slot current v cost s =
     (if current = v then Inr (cost + WarmStorageReadCostEIP2929, s)
      else let (original, s) = GetCommittedState a slot s
           in sstoreCost clearingRefund cost original current v s)"

definition makeGasSStoreFunc :: "uint64 \<Rightarrow> gasFunc" where
  "makeGasSStoreFunc clearingRefund E f memorySize z =
     (if Gas (f_con f) \<le> SstoreSentryGasEIP2200 then gasErr errReentrancySentry f z
      else
        andThen (Back (f_stk f) 1) (\<lambda>y.
        andThen (peek (f_stk f)) (\<lambda>x.
        let a = self (f_con f);
            (current, s) = GetState a x (StateDB z) in
        andThen (warmSlot a x s) (\<lambda>(cost, s).
        andThen (sstorePrice clearingRefund a x current y cost s) (\<lambda>(gas, s).
        gasIs gas f (setDB s z))))))"

definition gasSLoadEIP2929 :: gasFunc where
  "gasSLoadEIP2929 E f memorySize z =
     andThen (peek (f_stk f)) (\<lambda>loc.
     andThen (SlotInAccessList (self (f_con f)) loc (StateDB z)) (\<lambda>(_, slotPresent).
     if \<not> slotPresent then
       andThen (AddSlotToAccessList (self (f_con f)) loc (StateDB z)) (\<lambda>s.
       gasIs ColdSloadCostEIP2929 f (setDB s z))
     else gasIs WarmStorageReadCostEIP2929 f z))"

definition gasExtCodeCopyEIP2929 :: gasFunc where
  "gasExtCodeCopyEIP2929 E f memorySize z =
     andThen (gasExtCodeCopy E f memorySize z) (\<lambda>(r, f, z).
     case r of
       Inl e \<Rightarrow> gasErr e f z
     | Inr gas \<Rightarrow>
         andThen (peek (f_stk f)) (\<lambda>a.
         if \<not> AddressInAccessList (Bytes20 a) (StateDB z) then
           let z = setDB (AddAddressToAccessList (Bytes20 a) (StateDB z)) z in
           addGas gas (ColdAccountAccessCostEIP2929 - WarmStorageReadCostEIP2929) f z (\<lambda>gas. gasIs gas f z)
         else gasIs gas f z))"

definition gasEip2929AccountCheck :: gasFunc where
  "gasEip2929AccountCheck E f memorySize z =
     andThen (peek (f_stk f)) (\<lambda>a.
     if \<not> AddressInAccessList (Bytes20 a) (StateDB z) then
       gasIs (ColdAccountAccessCostEIP2929 - WarmStorageReadCostEIP2929) f
         (setDB (AddAddressToAccessList (Bytes20 a) (StateDB z)) z)
     else gasIs 0 f z)"

definition makeCallVariantGasCallEIP2929 :: "gasFunc \<Rightarrow> gasFunc" where
  "makeCallVariantGasCallEIP2929 oldCalculator E f memorySize z =
     andThen (Back (f_stk f) 1) (\<lambda>a.
     let addr = Bytes20 a;
         warmAccess = AddressInAccessList addr (StateDB z);
         coldCost = ColdAccountAccessCostEIP2929 - WarmStorageReadCostEIP2929;
         z = (if warmAccess then z else setDB (AddAddressToAccessList addr (StateDB z)) z);
         (con, paid) = (if warmAccess then (f_con f, True) else UseGas (f_con f) coldCost);
         f = f\<lparr>f_con := con\<rparr> in
     if \<not> paid then gasErr ErrOutOfGas f z
     else andThen (oldCalculator E f memorySize z) (\<lambda>(r, f, z).
       case r of
         Inl e \<Rightarrow> gasErr e f z
       | Inr gas \<Rightarrow>
           if warmAccess then gasIs gas f z
           else gasIs (gas + coldCost) (f\<lparr>f_con := (f_con f)\<lparr>Gas := Gas (f_con f) + coldCost\<rparr>\<rparr>) z))"

definition gasCallEIP2929 :: gasFunc where
  "gasCallEIP2929 = makeCallVariantGasCallEIP2929 gasCall"

definition gasDelegateCallEIP2929 :: gasFunc where
  "gasDelegateCallEIP2929 = makeCallVariantGasCallEIP2929 gasDelegateCall"

definition gasStaticCallEIP2929 :: gasFunc where
  "gasStaticCallEIP2929 = makeCallVariantGasCallEIP2929 gasStaticCall"

definition gasSStoreEIP3529 :: gasFunc where
  "gasSStoreEIP3529 = makeGasSStoreFunc SstoreClearsScheduleRefundEIP3529"

end
