(* ===== verification/ZVM_Instructions.thy ===== *)
theory ZVM_Instructions
  imports ZVM_Gas
begin

text \<open>
  The instructions of \<open>core/vm/instructions.go\<close> and \<open>core/vm/eips.go\<close>, one definition per
  function. An instruction gets the environment, the interpreter (for nested calls), the scope with
  its program counter and the machine; it gives the returned bytes and an error, \<open>errStopToken\<close>
  included, with the scope and machine afterwards.
\<close>

definition cont :: "frame \<Rightarrow> zvm \<Rightarrow> opresult" where
  "cont f z = Inr (([], None), f, z)"

definition opErr :: "vmerror \<Rightarrow> frame \<Rightarrow> zvm \<Rightarrow> opresult" where
  "opErr e f z = Inr (([], Some e), f, z)"

definition SetBytes :: "bytes \<Rightarrow> uint256" where
  "SetBytes b = of_nat (be_nat b)"

definition SetUint64 :: "uint64 \<Rightarrow> uint256" where
  "SetUint64 n = ucast n"

text \<open>The common shapes: pop the first operand and replace the top of the stack; replace the top;
  push.\<close>

definition unop :: "(uint256 \<Rightarrow> uint256) \<Rightarrow> frame \<Rightarrow> zvm \<Rightarrow> opresult" where
  "unop g f z = andThen (peek (f_stk f)) (\<lambda>x. cont (f\<lparr>f_stk := setTop (g x) (f_stk f)\<rparr>) z)"

definition binop :: "(uint256 \<Rightarrow> uint256 \<Rightarrow> uint256) \<Rightarrow> frame \<Rightarrow> zvm \<Rightarrow> opresult" where
  "binop g f z =
     andThen (pop (f_stk f)) (\<lambda>(x, st).
     andThen (peek st) (\<lambda>y. cont (f\<lparr>f_stk := setTop (g x y) st\<rparr>) z))"

definition ternop :: "(uint256 \<Rightarrow> uint256 \<Rightarrow> uint256 \<Rightarrow> uint256) \<Rightarrow> frame \<Rightarrow> zvm \<Rightarrow> opresult" where
  "ternop g f z =
     andThen (pop (f_stk f)) (\<lambda>(x, st).
     andThen (pop st) (\<lambda>(y, st).
     andThen (peek st) (\<lambda>w. cont (f\<lparr>f_stk := setTop (g x y w) st\<rparr>) z)))"

definition pushop :: "uint256 \<Rightarrow> frame \<Rightarrow> zvm \<Rightarrow> opresult" where
  "pushop v f z = cont (f\<lparr>f_stk := push v (f_stk f)\<rparr>) z"

definition flag :: "bool \<Rightarrow> uint256" where
  "flag b = (if b then 1 else 0)"

section \<open>Arithmetic and logic\<close>

definition opAdd :: executionFunc where "opAdd E run = binop (u_Add (u256 E))"
definition opSub :: executionFunc where "opSub E run = binop (u_Sub (u256 E))"
definition opMul :: executionFunc where "opMul E run = binop (u_Mul (u256 E))"
definition opDiv :: executionFunc where "opDiv E run = binop (u_Div (u256 E))"
definition opSdiv :: executionFunc where "opSdiv E run = binop (u_SDiv (u256 E))"
definition opMod :: executionFunc where "opMod E run = binop (u_Mod (u256 E))"
definition opSmod :: executionFunc where "opSmod E run = binop (u_SMod (u256 E))"
definition opExp :: executionFunc where "opExp E run = binop (u_Exp (u256 E))"
definition opSignExtend :: executionFunc where
  "opSignExtend E run = binop (\<lambda>back num. u_ExtendSign (u256 E) num back)"
definition opNot :: executionFunc where "opNot E run = unop (u_Not (u256 E))"
definition opLt :: executionFunc where "opLt E run = binop (\<lambda>x y. flag (u_Lt (u256 E) x y))"
definition opGt :: executionFunc where "opGt E run = binop (\<lambda>x y. flag (u_Gt (u256 E) x y))"
definition opSlt :: executionFunc where "opSlt E run = binop (\<lambda>x y. flag (u_Slt (u256 E) x y))"
definition opSgt :: executionFunc where "opSgt E run = binop (\<lambda>x y. flag (u_Sgt (u256 E) x y))"
definition opEq :: executionFunc where "opEq E run = binop (\<lambda>x y. flag (u_Eq (u256 E) x y))"
definition opIszero :: executionFunc where "opIszero E run = unop (\<lambda>x. flag (x = 0))"
definition opAnd :: executionFunc where "opAnd E run = binop (u_And (u256 E))"
definition opOr :: executionFunc where "opOr E run = binop (u_Or (u256 E))"
definition opXor :: executionFunc where "opXor E run = binop (u_Xor (u256 E))"
definition opByte :: executionFunc where "opByte E run = binop (\<lambda>th val. u_Byte (u256 E) val th)"
definition opAddmod :: executionFunc where
  "opAddmod E run = ternop (\<lambda>x y w. if w = 0 then 0 else u_AddMod (u256 E) x y w)"
definition opMulmod :: executionFunc where "opMulmod E run = ternop (u_MulMod (u256 E))"

definition opSHL :: executionFunc where
  "opSHL E run = binop (\<lambda>shift val.
     if u_LtUint64 (u256 E) shift 256 then u_Lsh (u256 E) val (unat (Uint64 shift)) else 0)"

definition opSHR :: executionFunc where
  "opSHR E run = binop (\<lambda>shift val.
     if u_LtUint64 (u256 E) shift 256 then u_Rsh (u256 E) val (unat (Uint64 shift)) else 0)"

definition opSAR :: executionFunc where
  "opSAR E run = binop (\<lambda>shift val.
     if u_GtUint64 (u256 E) shift 256 then (if 0 \<le> u_Sign (u256 E) val then 0 else - 1)
     else u_SRsh (u256 E) val (unat (Uint64 shift)))"

section \<open>Hashing and the context\<close>

definition opKeccak256 :: executionFunc where
  "opKeccak256 E run f z =
     andThen (pop (f_stk f)) (\<lambda>(off, st).
     andThen (peek st) (\<lambda>sz.
     andThen (Mem_GetPtr (f_mem f) (sint (Uint64 off)) (sint (Uint64 sz))) (\<lambda>data.
     let h = Keccak256Hash (db (StateDB z)) data;
         z = (if EnablePreimageRecording E then setDB (AddPreimage h data (StateDB z)) z else z) in
     cont (f\<lparr>f_stk := setTop h st\<rparr>) z)))"

definition opAddress :: executionFunc where
  "opAddress E run f = pushop (SetBytes (AddressBytes (self (f_con f)))) f"

definition opBalance :: executionFunc where
  "opBalance E run f z =
     andThen (peek (f_stk f)) (\<lambda>slot.
     case GetBalance (Bytes20 slot) (StateDB z) of (b, s) \<Rightarrow>
     cont (f\<lparr>f_stk := setTop (word_of_int b) (f_stk f)\<rparr>) (setDB s z))"

definition opOrigin :: executionFunc where
  "opOrigin E run = pushop (SetBytes (AddressBytes (Origin (TxCtx E))))"

definition opCaller :: executionFunc where
  "opCaller E run f = pushop (SetBytes (AddressBytes (CallerAddress (f_con f)))) f"

definition opCallValue :: executionFunc where
  "opCallValue E run f = pushop (word_of_int (con_value (f_con f))) f"

definition opCallDataLoad :: executionFunc where
  "opCallDataLoad E run f z =
     andThen (peek (f_stk f)) (\<lambda>x.
     if IsUint64 x then
       andThen (getData (Input (f_con f)) (Uint64 x) 32) (\<lambda>data.
       cont (f\<lparr>f_stk := setTop (SetBytes data) (f_stk f)\<rparr>) z)
     else cont (f\<lparr>f_stk := setTop 0 (f_stk f)\<rparr>) z)"

definition opCallDataSize :: executionFunc where
  "opCallDataSize E run f = pushop (SetUint64 (of_nat (length (Input (f_con f))))) f"

text \<open>An offset into call data or code beyond 64 bits is read as the largest one.\<close>

definition offset64 :: "uint256 \<Rightarrow> uint64" where
  "offset64 x = (if IsUint64 x then Uint64 x else MaxUint64)"

definition opCallDataCopy :: executionFunc where
  "opCallDataCopy E run f z =
     andThen (pop (f_stk f)) (\<lambda>(memOffset, st).
     andThen (pop st) (\<lambda>(dataOffset, st).
     andThen (pop st) (\<lambda>(len, st).
     andThen (getData (Input (f_con f)) (offset64 dataOffset) (Uint64 len)) (\<lambda>data.
     andThen (Mem_Set (f_mem f) (Uint64 memOffset) (Uint64 len) data) (\<lambda>m.
     cont (f\<lparr>f_stk := st, f_mem := m\<rparr>) z)))))"

definition opReturnDataSize :: executionFunc where
  "opReturnDataSize E run f z = pushop (SetUint64 (of_nat (length (returnData z)))) f z"

definition opReturnDataCopy :: executionFunc where
  "opReturnDataCopy E run f z =
     andThen (pop (f_stk f)) (\<lambda>(memOffset, st).
     andThen (pop st) (\<lambda>(dataOffset, st).
     andThen (pop st) (\<lambda>(len, st).
     let f = f\<lparr>f_stk := st\<rparr> in
     if \<not> IsUint64 dataOffset then opErr ErrReturnDataOutOfBounds f z
     else
       let end = u_Add (u256 E) dataOffset len in
       if \<not> IsUint64 end \<or> of_nat (length (returnData z)) < Uint64 end
       then opErr ErrReturnDataOutOfBounds f z
       else
         andThen (go_slice (returnData z) (uint (Uint64 dataOffset)) (uint (Uint64 end))) (\<lambda>data.
         andThen (Mem_Set (f_mem f) (Uint64 memOffset) (Uint64 len) data) (\<lambda>m.
         cont (f\<lparr>f_mem := m\<rparr>) z)))))"

definition opExtCodeSize :: executionFunc where
  "opExtCodeSize E run f z =
     andThen (peek (f_stk f)) (\<lambda>slot.
     case GetCodeSize (Bytes20 slot) (StateDB z) of (n, s) \<Rightarrow>
     cont (f\<lparr>f_stk := setTop (SetUint64 (of_nat n)) (f_stk f)\<rparr>) (setDB s z))"

definition opCodeSize :: executionFunc where
  "opCodeSize E run f = pushop (SetUint64 (of_nat (length (Code (f_con f))))) f"

definition opCodeCopy :: executionFunc where
  "opCodeCopy E run f z =
     andThen (pop (f_stk f)) (\<lambda>(memOffset, st).
     andThen (pop st) (\<lambda>(codeOffset, st).
     andThen (pop st) (\<lambda>(len, st).
     andThen (getData (Code (f_con f)) (offset64 codeOffset) (Uint64 len)) (\<lambda>codeCopy.
     andThen (Mem_Set (f_mem f) (Uint64 memOffset) (Uint64 len) codeCopy) (\<lambda>m.
     cont (f\<lparr>f_stk := st, f_mem := m\<rparr>) z)))))"

definition opExtCodeCopy :: executionFunc where
  "opExtCodeCopy E run f z =
     andThen (pop (f_stk f)) (\<lambda>(a, st).
     andThen (pop st) (\<lambda>(memOffset, st).
     andThen (pop st) (\<lambda>(codeOffset, st).
     andThen (pop st) (\<lambda>(len, st).
     case GetCode (Bytes20 a) (StateDB z) of (code, s) \<Rightarrow>
     andThen (getData code (offset64 codeOffset) (Uint64 len)) (\<lambda>codeCopy.
     andThen (Mem_Set (f_mem f) (Uint64 memOffset) (Uint64 len) codeCopy) (\<lambda>m.
     cont (f\<lparr>f_stk := st, f_mem := m\<rparr>) (setDB s z)))))))"

definition opExtCodeHash :: executionFunc where
  "opExtCodeHash E run f z =
     andThen (peek (f_stk f)) (\<lambda>slot.
     case Empty (Bytes20 slot) (StateDB z) of (isEmpty, s) \<Rightarrow>
     if isEmpty then cont (f\<lparr>f_stk := setTop 0 (f_stk f)\<rparr>) (setDB s z)
     else case GetCodeHash (Bytes20 slot) s of (h, s) \<Rightarrow>
       cont (f\<lparr>f_stk := setTop h (f_stk f)\<rparr>) (setDB s z))"

section \<open>The block\<close>

definition opGasprice :: executionFunc where
  "opGasprice E run = pushop (word_of_int (GasPrice (TxCtx E)))"

definition opBlockhash :: executionFunc where
  "opBlockhash E run = unop (\<lambda>num.
     if \<not> IsUint64 num then 0
     else
       let upper = word_of_int (BlockNumber (Context E)) :: uint64;
           lower = (if upper < 257 then 0 else upper - 256) in
       if lower \<le> Uint64 num \<and> Uint64 num < upper then GetHash (Context E) (Uint64 num) else 0)"

definition opCoinbase :: executionFunc where
  "opCoinbase E run = pushop (SetBytes (AddressBytes (Coinbase (Context E))))"

definition opTimestamp :: executionFunc where
  "opTimestamp E run = pushop (SetUint64 (BlockTime (Context E)))"

definition opNumber :: executionFunc where
  "opNumber E run = pushop (word_of_int (BlockNumber (Context E)))"

definition opRandom :: executionFunc where
  "opRandom E run f z =
     (case Random (Context E) of None \<Rightarrow> Inl NilDereference | Some h \<Rightarrow> pushop h f z)"

definition opGasLimit :: executionFunc where
  "opGasLimit E run = pushop (SetUint64 (GasLimit (Context E)))"

definition opSelfBalance :: executionFunc where
  "opSelfBalance E run f z =
     (case GetBalance (self (f_con f)) (StateDB z) of (b, s) \<Rightarrow>
      pushop (word_of_int b) f (setDB s z))"

definition opChainID :: executionFunc where
  "opChainID E run = pushop (word_of_int (ChainID E))"

definition opBaseFee :: executionFunc where
  "opBaseFee E run f z =
     (case BaseFee (Context E) of None \<Rightarrow> Inl NilDereference | Some b \<Rightarrow> pushop (word_of_int b) f z)"

section \<open>Stack, memory, storage and control flow\<close>

definition opPop :: executionFunc where
  "opPop E run f z = andThen (pop (f_stk f)) (\<lambda>(_, st). cont (f\<lparr>f_stk := st\<rparr>) z)"

definition opMload :: executionFunc where
  "opMload E run f z =
     andThen (peek (f_stk f)) (\<lambda>v.
     andThen (Mem_GetPtr (f_mem f) (sint (Uint64 v)) 32) (\<lambda>data.
     cont (f\<lparr>f_stk := setTop (SetBytes data) (f_stk f)\<rparr>) z))"

definition opMstore :: executionFunc where
  "opMstore E run f z =
     andThen (pop (f_stk f)) (\<lambda>(mStart, st).
     andThen (pop st) (\<lambda>(val, st).
     andThen (Mem_Set32 (f_mem f) (Uint64 mStart) val) (\<lambda>m.
     cont (f\<lparr>f_stk := st, f_mem := m\<rparr>) z)))"

definition opMstore8 :: executionFunc where
  "opMstore8 E run f z =
     andThen (pop (f_stk f)) (\<lambda>(off, st).
     andThen (pop st) (\<lambda>(val, st).
     andThen (Mem_Set8 (f_mem f) (Uint64 off) (ucast (Uint64 val))) (\<lambda>m.
     cont (f\<lparr>f_stk := st, f_mem := m\<rparr>) z)))"

definition opSload :: executionFunc where
  "opSload E run f z =
     andThen (peek (f_stk f)) (\<lambda>loc.
     case GetState (self (f_con f)) loc (StateDB z) of (val, s) \<Rightarrow>
     cont (f\<lparr>f_stk := setTop val (f_stk f)\<rparr>) (setDB s z))"

definition opSstore :: executionFunc where
  "opSstore E run f z =
     (if readOnly z then opErr ErrWriteProtection f z
      else
        andThen (pop (f_stk f)) (\<lambda>(loc, st).
        andThen (pop st) (\<lambda>(val, st).
        cont (f\<lparr>f_stk := st\<rparr>) (setDB (SetState (self (f_con f)) loc val (StateDB z)) z))))"

text \<open>The jump both jump instructions end in.\<close>

definition jumpTo :: "uint256 \<Rightarrow> frame \<Rightarrow> zvm \<Rightarrow> opresult" where
  "jumpTo pos f z =
     andThen (validJumpdest (f_con f) (z_jumpdests z) pos) (\<lambda>(ok, con, jd).
     let f = f\<lparr>f_con := con\<rparr>; z = z\<lparr>z_jumpdests := jd\<rparr> in
     if \<not> ok then opErr ErrInvalidJump f z else cont (f\<lparr>f_pc := Uint64 pos - 1\<rparr>) z)"

definition opJump :: executionFunc where
  "opJump E run f z =
     (case abort_Load z of (stop, z) \<Rightarrow>
        if stop then opErr errStopToken f z
        else andThen (pop (f_stk f)) (\<lambda>(pos, st). jumpTo pos (f\<lparr>f_stk := st\<rparr>) z))"

definition opJumpi :: executionFunc where
  "opJumpi E run f z =
     (case abort_Load z of (stop, z) \<Rightarrow>
        if stop then opErr errStopToken f z
        else
          andThen (pop (f_stk f)) (\<lambda>(pos, st).
          andThen (pop st) (\<lambda>(cond, st).
          let f = f\<lparr>f_stk := st\<rparr> in
          if cond \<noteq> 0 then jumpTo pos f z else cont f z)))"

definition opJumpdest :: executionFunc where "opJumpdest E run = cont"

definition opPc :: executionFunc where
  "opPc E run f = pushop (SetUint64 (f_pc f)) f"

definition opMsize :: executionFunc where
  "opMsize E run f = pushop (SetUint64 (Mem_Len (f_mem f))) f"

definition opGas :: executionFunc where
  "opGas E run f = pushop (SetUint64 (Gas (f_con f))) f"

section \<open>Calls and contract creation\<close>

text \<open>What both creation instructions do with the result.\<close>

definition afterCreate ::
  "stack \<Rightarrow> frame \<Rightarrow> bytes \<times> address \<times> uint64 \<times> vmerror option \<times> zvm \<Rightarrow> opresult" where
  "afterCreate st f r =
     (case r of (res, addr, returnGas, suberr, z) \<Rightarrow>
        let stackvalue = (if suberr \<noteq> None then 0 else SetBytes (AddressBytes addr));
            f = f\<lparr>f_stk := push stackvalue st,
                   f_con := (f_con f)\<lparr>Gas := Gas (f_con f) + returnGas\<rparr>\<rparr> in
        if suberr = Some ErrExecutionReverted
        then Inr ((res, None), f, z\<lparr>returnData := res\<rparr>)
        else cont f (z\<lparr>returnData := []\<rparr>))"

definition opCreate :: executionFunc where
  "opCreate E run f z =
     (if readOnly z then opErr ErrWriteProtection f z
      else
        andThen (pop (f_stk f)) (\<lambda>(val, st).
        andThen (pop st) (\<lambda>(off, st).
        andThen (pop st) (\<lambda>(sz, st).
        andThen (Mem_GetCopy (f_mem f) (sint (Uint64 off)) (sint (Uint64 sz))) (\<lambda>input.
        let gas = Gas (f_con f); gas = gas - gas div 64;
            f = f\<lparr>f_con := fst (UseGas (f_con f) gas)\<rparr> in
        andThen (Create E run (con_ref (f_con f)) input gas (uint val) z) (afterCreate st f))))))"

definition opCreate2 :: executionFunc where
  "opCreate2 E run f z =
     (if readOnly z then opErr ErrWriteProtection f z
      else
        andThen (pop (f_stk f)) (\<lambda>(endowment, st).
        andThen (pop st) (\<lambda>(off, st).
        andThen (pop st) (\<lambda>(sz, st).
        andThen (pop st) (\<lambda>(salt, st).
        andThen (Mem_GetCopy (f_mem f) (sint (Uint64 off)) (sint (Uint64 sz))) (\<lambda>input.
        let gas = Gas (f_con f); gas = gas - gas div 64;
            f = f\<lparr>f_con := fst (UseGas (f_con f) gas)\<rparr> in
        andThen (Create2 E run (con_ref (f_con f)) input gas (uint endowment) salt z)
          (afterCreate st f)))))))"

text \<open>What the three call instructions do with the result.\<close>

definition afterCall ::
  "uint256 \<Rightarrow> uint256 \<Rightarrow> stack \<Rightarrow> frame \<Rightarrow> bytes \<times> uint64 \<times> vmerror option \<times> zvm \<Rightarrow> opresult" where
  "afterCall retOffset retSize st f r =
     (case r of (ret, returnGas, err, z) \<Rightarrow>
        andThen (if err = None \<or> err = Some ErrExecutionReverted
                 then Mem_Set (f_mem f) (Uint64 retOffset) (Uint64 retSize) ret
                 else Inr (f_mem f)) (\<lambda>m.
        Inr ((ret, None),
             f\<lparr>f_stk := push (if err \<noteq> None then 0 else 1) st, f_mem := m,
                f_con := (f_con f)\<lparr>Gas := Gas (f_con f) + returnGas\<rparr>\<rparr>,
             z\<lparr>returnData := ret\<rparr>)))"

definition opCall :: executionFunc where
  "opCall E run f z =
     andThen (pop (f_stk f)) (\<lambda>(_, st).
     andThen (pop st) (\<lambda>(addr, st).
     andThen (pop st) (\<lambda>(val, st).
     andThen (pop st) (\<lambda>(inOffset, st).
     andThen (pop st) (\<lambda>(inSize, st).
     andThen (pop st) (\<lambda>(retOffset, st).
     andThen (pop st) (\<lambda>(retSize, st).
     andThen (Mem_GetPtr (f_mem f) (sint (Uint64 inOffset)) (sint (Uint64 inSize))) (\<lambda>args.
     if readOnly z \<and> val \<noteq> 0 then opErr ErrWriteProtection (f\<lparr>f_stk := st\<rparr>) z
     else
       let gas = (if val \<noteq> 0 then callGasTemp z + CallStipend else callGasTemp z) in
       andThen (Call E run (con_ref (f_con f)) (Bytes20 addr) args gas (uint val) z)
         (afterCall retOffset retSize st f)))))))))"

definition opDelegateCall :: executionFunc where
  "opDelegateCall E run f z =
     andThen (pop (f_stk f)) (\<lambda>(_, st).
     andThen (pop st) (\<lambda>(addr, st).
     andThen (pop st) (\<lambda>(inOffset, st).
     andThen (pop st) (\<lambda>(inSize, st).
     andThen (pop st) (\<lambda>(retOffset, st).
     andThen (pop st) (\<lambda>(retSize, st).
     andThen (Mem_GetPtr (f_mem f) (sint (Uint64 inOffset)) (sint (Uint64 inSize))) (\<lambda>args.
     andThen (DelegateCall E run (con_ref (f_con f)) (Bytes20 addr) args (callGasTemp z) z)
       (afterCall retOffset retSize st f))))))))"

definition opStaticCall :: executionFunc where
  "opStaticCall E run f z =
     andThen (pop (f_stk f)) (\<lambda>(_, st).
     andThen (pop st) (\<lambda>(addr, st).
     andThen (pop st) (\<lambda>(inOffset, st).
     andThen (pop st) (\<lambda>(inSize, st).
     andThen (pop st) (\<lambda>(retOffset, st).
     andThen (pop st) (\<lambda>(retSize, st).
     andThen (Mem_GetPtr (f_mem f) (sint (Uint64 inOffset)) (sint (Uint64 inSize))) (\<lambda>args.
     andThen (StaticCall E run (con_ref (f_con f)) (Bytes20 addr) args (callGasTemp z) z)
       (afterCall retOffset retSize st f))))))))"

definition opReturn :: executionFunc where
  "opReturn E run f z =
     andThen (pop (f_stk f)) (\<lambda>(off, st).
     andThen (pop st) (\<lambda>(sz, st).
     andThen (Mem_GetPtr (f_mem f) (sint (Uint64 off)) (sint (Uint64 sz))) (\<lambda>ret.
     Inr ((ret, Some errStopToken), f\<lparr>f_stk := st\<rparr>, z))))"

definition opRevert :: executionFunc where
  "opRevert E run f z =
     andThen (pop (f_stk f)) (\<lambda>(off, st).
     andThen (pop st) (\<lambda>(sz, st).
     andThen (Mem_GetPtr (f_mem f) (sint (Uint64 off)) (sint (Uint64 sz))) (\<lambda>ret.
     Inr ((ret, Some ErrExecutionReverted), f\<lparr>f_stk := st\<rparr>, z\<lparr>returnData := ret\<rparr>))))"

definition opUndefined :: executionFunc where
  "opUndefined E run f z =
     andThen (go_index (Code (f_con f)) (uint (f_pc f))) (\<lambda>opcode. opErr (ErrInvalidOpCode opcode) f z)"

definition opStop :: executionFunc where
  "opStop E run f z = opErr errStopToken f z"

section \<open>Families of instructions\<close>

primrec popN :: "nat \<Rightarrow> stack \<Rightarrow> (uint256 list \<times> stack) go" where
  "popN 0 st = Inr ([], st)"
| "popN (Suc n) st = andThen (pop st) (\<lambda>(x, st). andThen (popN n st) (\<lambda>(xs, st). Inr (x # xs, st)))"

definition makeLog :: "nat \<Rightarrow> executionFunc" where
  "makeLog n E run f z =
     (if readOnly z then opErr ErrWriteProtection f z
      else
        andThen (pop (f_stk f)) (\<lambda>(mStart, st).
        andThen (pop st) (\<lambda>(mSize, st).
        andThen (popN n st) (\<lambda>(topics, st).
        andThen (Mem_GetCopy (f_mem f) (sint (Uint64 mStart)) (sint (Uint64 mSize))) (\<lambda>d.
        cont (f\<lparr>f_stk := st\<rparr>)
          (setDB (AddLog \<lparr>log_Address = self (f_con f), log_Topics = topics, log_Data = d,
              log_BlockNumber = word_of_int (BlockNumber (Context E)), log_TxHash = 0,
              log_TxIndex = 0, log_BlockHash = 0, log_Index = 0\<rparr> (StateDB z)) z))))))"

definition opPush0 :: executionFunc where "opPush0 E run = pushop 0"

definition opPush1 :: executionFunc where
  "opPush1 E run f z =
     (let pc = f_pc f + 1;
          code = Code (f_con f);
          f = f\<lparr>f_pc := pc\<rparr> in
      if pc < of_nat (length code) then pushop (SetUint64 (ucast (code ! unat pc))) f z
      else pushop 0 f z)"

definition makePush :: "uint64 \<Rightarrow> nat \<Rightarrow> executionFunc" where
  "makePush n pushByteSize E run f z =
     (let codeLen = int (length (Code (f_con f)));
          startMin = (if sint (f_pc f + 1) < codeLen then sint (f_pc f + 1) else codeLen);
          endMin = (if startMin + int pushByteSize < codeLen then startMin + int pushByteSize else codeLen) in
      andThen (go_slice (Code (f_con f)) startMin endMin) (\<lambda>b.
      pushop (SetBytes (RightPadBytes b (int pushByteSize))) (f\<lparr>f_pc := f_pc f + n\<rparr>) z))"

definition makeDup :: "nat \<Rightarrow> executionFunc" where
  "makeDup n E run f z = andThen (dup n (f_stk f)) (\<lambda>st. cont (f\<lparr>f_stk := st\<rparr>) z)"

definition makeSwap :: "nat \<Rightarrow> executionFunc" where
  "makeSwap n E run f z = andThen (swap (n + 1) (f_stk f)) (\<lambda>st. cont (f\<lparr>f_stk := st\<rparr>) z)"

end
