(* ===== verification/ZVM_Interpreter.thy ===== *)
theory ZVM_Interpreter
  imports ZVM_Instructions
begin

text \<open>
  The interpreter: the jump table of \<open>core/vm/jump_table.go\<close> in the order of the source, the main
  loop of \<open>core/vm/interpreter.go\<close>, and the names of the opcodes in \<open>core/vm/opcodes.go\<close>. The loop
  has an explicit bound on its iterations and on the depth of nested calls; \<open>ZVM_Termination\<close> shows that
  a bound above the gas is enough.
\<close>

section \<open>The jump table\<close>

record operation =
  execute :: executionFunc
  constantGas :: uint64
  dynamicGas :: "gasFunc option"
  op_minStack :: int
  op_maxStack :: int
  memorySize :: "memorySizeFunc option"

definition shanghai_1 :: "(byte \<times> operation) list" where
  "shanghai_1 =
     [(0x00, \<lparr>execute = opStop, constantGas = 0, dynamicGas = None,
        op_minStack = minStack 0 0, op_maxStack = maxStack 0 0, memorySize = None\<rparr>),
      (0x01, \<lparr>execute = opAdd, constantGas = GasFastestStep, dynamicGas = None,
        op_minStack = minStack 2 1, op_maxStack = maxStack 2 1, memorySize = None\<rparr>),
      (0x02, \<lparr>execute = opMul, constantGas = GasFastStep, dynamicGas = None,
        op_minStack = minStack 2 1, op_maxStack = maxStack 2 1, memorySize = None\<rparr>),
      (0x03, \<lparr>execute = opSub, constantGas = GasFastestStep, dynamicGas = None,
        op_minStack = minStack 2 1, op_maxStack = maxStack 2 1, memorySize = None\<rparr>),
      (0x04, \<lparr>execute = opDiv, constantGas = GasFastStep, dynamicGas = None,
        op_minStack = minStack 2 1, op_maxStack = maxStack 2 1, memorySize = None\<rparr>),
      (0x05, \<lparr>execute = opSdiv, constantGas = GasFastStep, dynamicGas = None,
        op_minStack = minStack 2 1, op_maxStack = maxStack 2 1, memorySize = None\<rparr>),
      (0x06, \<lparr>execute = opMod, constantGas = GasFastStep, dynamicGas = None,
        op_minStack = minStack 2 1, op_maxStack = maxStack 2 1, memorySize = None\<rparr>),
      (0x07, \<lparr>execute = opSmod, constantGas = GasFastStep, dynamicGas = None,
        op_minStack = minStack 2 1, op_maxStack = maxStack 2 1, memorySize = None\<rparr>),
      (0x08, \<lparr>execute = opAddmod, constantGas = GasMidStep, dynamicGas = None,
        op_minStack = minStack 3 1, op_maxStack = maxStack 3 1, memorySize = None\<rparr>),
      (0x09, \<lparr>execute = opMulmod, constantGas = GasMidStep, dynamicGas = None,
        op_minStack = minStack 3 1, op_maxStack = maxStack 3 1, memorySize = None\<rparr>),
      (0x0a, \<lparr>execute = opExp, constantGas = 0, dynamicGas = Some gasExpEIP158,
        op_minStack = minStack 2 1, op_maxStack = maxStack 2 1, memorySize = None\<rparr>),
      (0x0b, \<lparr>execute = opSignExtend, constantGas = GasFastStep, dynamicGas = None,
        op_minStack = minStack 2 1, op_maxStack = maxStack 2 1, memorySize = None\<rparr>),
      (0x10, \<lparr>execute = opLt, constantGas = GasFastestStep, dynamicGas = None,
        op_minStack = minStack 2 1, op_maxStack = maxStack 2 1, memorySize = None\<rparr>),
      (0x11, \<lparr>execute = opGt, constantGas = GasFastestStep, dynamicGas = None,
        op_minStack = minStack 2 1, op_maxStack = maxStack 2 1, memorySize = None\<rparr>),
      (0x12, \<lparr>execute = opSlt, constantGas = GasFastestStep, dynamicGas = None,
        op_minStack = minStack 2 1, op_maxStack = maxStack 2 1, memorySize = None\<rparr>),
      (0x13, \<lparr>execute = opSgt, constantGas = GasFastestStep, dynamicGas = None,
        op_minStack = minStack 2 1, op_maxStack = maxStack 2 1, memorySize = None\<rparr>),
      (0x14, \<lparr>execute = opEq, constantGas = GasFastestStep, dynamicGas = None,
        op_minStack = minStack 2 1, op_maxStack = maxStack 2 1, memorySize = None\<rparr>),
      (0x15, \<lparr>execute = opIszero, constantGas = GasFastestStep, dynamicGas = None,
        op_minStack = minStack 1 1, op_maxStack = maxStack 1 1, memorySize = None\<rparr>),
      (0x16, \<lparr>execute = opAnd, constantGas = GasFastestStep, dynamicGas = None,
        op_minStack = minStack 2 1, op_maxStack = maxStack 2 1, memorySize = None\<rparr>),
      (0x18, \<lparr>execute = opXor, constantGas = GasFastestStep, dynamicGas = None,
        op_minStack = minStack 2 1, op_maxStack = maxStack 2 1, memorySize = None\<rparr>),
      (0x17, \<lparr>execute = opOr, constantGas = GasFastestStep, dynamicGas = None,
        op_minStack = minStack 2 1, op_maxStack = maxStack 2 1, memorySize = None\<rparr>),
      (0x19, \<lparr>execute = opNot, constantGas = GasFastestStep, dynamicGas = None,
        op_minStack = minStack 1 1, op_maxStack = maxStack 1 1, memorySize = None\<rparr>),
      (0x1a, \<lparr>execute = opByte, constantGas = GasFastestStep, dynamicGas = None,
        op_minStack = minStack 2 1, op_maxStack = maxStack 2 1, memorySize = None\<rparr>),
      (0x20, \<lparr>execute = opKeccak256, constantGas = Keccak256Gas, dynamicGas = Some gasKeccak256,
        op_minStack = minStack 2 1, op_maxStack = maxStack 2 1, memorySize = Some memoryKeccak256\<rparr>)]"

definition shanghai_2 :: "(byte \<times> operation) list" where
  "shanghai_2 =
     [(0x30, \<lparr>execute = opAddress, constantGas = GasQuickStep, dynamicGas = None,
        op_minStack = minStack 0 1, op_maxStack = maxStack 0 1, memorySize = None\<rparr>),
      (0x31, \<lparr>execute = opBalance, constantGas = WarmStorageReadCostEIP2929, dynamicGas = Some gasEip2929AccountCheck,
        op_minStack = minStack 1 1, op_maxStack = maxStack 1 1, memorySize = None\<rparr>),
      (0x32, \<lparr>execute = opOrigin, constantGas = GasQuickStep, dynamicGas = None,
        op_minStack = minStack 0 1, op_maxStack = maxStack 0 1, memorySize = None\<rparr>),
      (0x33, \<lparr>execute = opCaller, constantGas = GasQuickStep, dynamicGas = None,
        op_minStack = minStack 0 1, op_maxStack = maxStack 0 1, memorySize = None\<rparr>),
      (0x34, \<lparr>execute = opCallValue, constantGas = GasQuickStep, dynamicGas = None,
        op_minStack = minStack 0 1, op_maxStack = maxStack 0 1, memorySize = None\<rparr>),
      (0x35, \<lparr>execute = opCallDataLoad, constantGas = GasFastestStep, dynamicGas = None,
        op_minStack = minStack 1 1, op_maxStack = maxStack 1 1, memorySize = None\<rparr>),
      (0x36, \<lparr>execute = opCallDataSize, constantGas = GasQuickStep, dynamicGas = None,
        op_minStack = minStack 0 1, op_maxStack = maxStack 0 1, memorySize = None\<rparr>),
      (0x37, \<lparr>execute = opCallDataCopy, constantGas = GasFastestStep, dynamicGas = Some gasCallDataCopy,
        op_minStack = minStack 3 0, op_maxStack = maxStack 3 0, memorySize = Some memoryCallDataCopy\<rparr>),
      (0x38, \<lparr>execute = opCodeSize, constantGas = GasQuickStep, dynamicGas = None,
        op_minStack = minStack 0 1, op_maxStack = maxStack 0 1, memorySize = None\<rparr>),
      (0x39, \<lparr>execute = opCodeCopy, constantGas = GasFastestStep, dynamicGas = Some gasCodeCopy,
        op_minStack = minStack 3 0, op_maxStack = maxStack 3 0, memorySize = Some memoryCodeCopy\<rparr>),
      (0x3a, \<lparr>execute = opGasprice, constantGas = GasQuickStep, dynamicGas = None,
        op_minStack = minStack 0 1, op_maxStack = maxStack 0 1, memorySize = None\<rparr>),
      (0x3b, \<lparr>execute = opExtCodeSize, constantGas = WarmStorageReadCostEIP2929, dynamicGas = Some gasEip2929AccountCheck,
        op_minStack = minStack 1 1, op_maxStack = maxStack 1 1, memorySize = None\<rparr>),
      (0x3c, \<lparr>execute = opExtCodeCopy, constantGas = WarmStorageReadCostEIP2929, dynamicGas = Some gasExtCodeCopyEIP2929,
        op_minStack = minStack 4 0, op_maxStack = maxStack 4 0, memorySize = Some memoryExtCodeCopy\<rparr>),
      (0x40, \<lparr>execute = opBlockhash, constantGas = GasExtStep, dynamicGas = None,
        op_minStack = minStack 1 1, op_maxStack = maxStack 1 1, memorySize = None\<rparr>),
      (0x41, \<lparr>execute = opCoinbase, constantGas = GasQuickStep, dynamicGas = None,
        op_minStack = minStack 0 1, op_maxStack = maxStack 0 1, memorySize = None\<rparr>),
      (0x42, \<lparr>execute = opTimestamp, constantGas = GasQuickStep, dynamicGas = None,
        op_minStack = minStack 0 1, op_maxStack = maxStack 0 1, memorySize = None\<rparr>),
      (0x43, \<lparr>execute = opNumber, constantGas = GasQuickStep, dynamicGas = None,
        op_minStack = minStack 0 1, op_maxStack = maxStack 0 1, memorySize = None\<rparr>),
      (0x45, \<lparr>execute = opGasLimit, constantGas = GasQuickStep, dynamicGas = None,
        op_minStack = minStack 0 1, op_maxStack = maxStack 0 1, memorySize = None\<rparr>),
      (0x50, \<lparr>execute = opPop, constantGas = GasQuickStep, dynamicGas = None,
        op_minStack = minStack 1 0, op_maxStack = maxStack 1 0, memorySize = None\<rparr>),
      (0x51, \<lparr>execute = opMload, constantGas = GasFastestStep, dynamicGas = Some gasMLoad,
        op_minStack = minStack 1 1, op_maxStack = maxStack 1 1, memorySize = Some memoryMLoad\<rparr>),
      (0x52, \<lparr>execute = opMstore, constantGas = GasFastestStep, dynamicGas = Some gasMStore,
        op_minStack = minStack 2 0, op_maxStack = maxStack 2 0, memorySize = Some memoryMStore\<rparr>),
      (0x53, \<lparr>execute = opMstore8, constantGas = GasFastestStep, dynamicGas = Some gasMStore8,
        op_minStack = minStack 2 0, op_maxStack = maxStack 2 0, memorySize = Some memoryMStore8\<rparr>)]"

definition shanghai_3 :: "(byte \<times> operation) list" where
  "shanghai_3 =
     [(0x54, \<lparr>execute = opSload, constantGas = 0, dynamicGas = Some gasSLoadEIP2929,
        op_minStack = minStack 1 1, op_maxStack = maxStack 1 1, memorySize = None\<rparr>),
      (0x55, \<lparr>execute = opSstore, constantGas = 0, dynamicGas = Some gasSStoreEIP3529,
        op_minStack = minStack 2 0, op_maxStack = maxStack 2 0, memorySize = None\<rparr>),
      (0x56, \<lparr>execute = opJump, constantGas = GasMidStep, dynamicGas = None,
        op_minStack = minStack 1 0, op_maxStack = maxStack 1 0, memorySize = None\<rparr>),
      (0x57, \<lparr>execute = opJumpi, constantGas = GasSlowStep, dynamicGas = None,
        op_minStack = minStack 2 0, op_maxStack = maxStack 2 0, memorySize = None\<rparr>),
      (0x58, \<lparr>execute = opPc, constantGas = GasQuickStep, dynamicGas = None,
        op_minStack = minStack 0 1, op_maxStack = maxStack 0 1, memorySize = None\<rparr>),
      (0x59, \<lparr>execute = opMsize, constantGas = GasQuickStep, dynamicGas = None,
        op_minStack = minStack 0 1, op_maxStack = maxStack 0 1, memorySize = None\<rparr>),
      (0x5a, \<lparr>execute = opGas, constantGas = GasQuickStep, dynamicGas = None,
        op_minStack = minStack 0 1, op_maxStack = maxStack 0 1, memorySize = None\<rparr>),
      (0x5b, \<lparr>execute = opJumpdest, constantGas = JumpdestGas, dynamicGas = None,
        op_minStack = minStack 0 0, op_maxStack = maxStack 0 0, memorySize = None\<rparr>),
      (0x60, \<lparr>execute = opPush1, constantGas = GasFastestStep, dynamicGas = None,
        op_minStack = minStack 0 1, op_maxStack = maxStack 0 1, memorySize = None\<rparr>),
      (0x61, \<lparr>execute = makePush 2 2, constantGas = GasFastestStep, dynamicGas = None,
        op_minStack = minStack 0 1, op_maxStack = maxStack 0 1, memorySize = None\<rparr>),
      (0x62, \<lparr>execute = makePush 3 3, constantGas = GasFastestStep, dynamicGas = None,
        op_minStack = minStack 0 1, op_maxStack = maxStack 0 1, memorySize = None\<rparr>),
      (0x63, \<lparr>execute = makePush 4 4, constantGas = GasFastestStep, dynamicGas = None,
        op_minStack = minStack 0 1, op_maxStack = maxStack 0 1, memorySize = None\<rparr>),
      (0x64, \<lparr>execute = makePush 5 5, constantGas = GasFastestStep, dynamicGas = None,
        op_minStack = minStack 0 1, op_maxStack = maxStack 0 1, memorySize = None\<rparr>),
      (0x65, \<lparr>execute = makePush 6 6, constantGas = GasFastestStep, dynamicGas = None,
        op_minStack = minStack 0 1, op_maxStack = maxStack 0 1, memorySize = None\<rparr>),
      (0x66, \<lparr>execute = makePush 7 7, constantGas = GasFastestStep, dynamicGas = None,
        op_minStack = minStack 0 1, op_maxStack = maxStack 0 1, memorySize = None\<rparr>),
      (0x67, \<lparr>execute = makePush 8 8, constantGas = GasFastestStep, dynamicGas = None,
        op_minStack = minStack 0 1, op_maxStack = maxStack 0 1, memorySize = None\<rparr>),
      (0x68, \<lparr>execute = makePush 9 9, constantGas = GasFastestStep, dynamicGas = None,
        op_minStack = minStack 0 1, op_maxStack = maxStack 0 1, memorySize = None\<rparr>),
      (0x69, \<lparr>execute = makePush 10 10, constantGas = GasFastestStep, dynamicGas = None,
        op_minStack = minStack 0 1, op_maxStack = maxStack 0 1, memorySize = None\<rparr>),
      (0x6a, \<lparr>execute = makePush 11 11, constantGas = GasFastestStep, dynamicGas = None,
        op_minStack = minStack 0 1, op_maxStack = maxStack 0 1, memorySize = None\<rparr>),
      (0x6b, \<lparr>execute = makePush 12 12, constantGas = GasFastestStep, dynamicGas = None,
        op_minStack = minStack 0 1, op_maxStack = maxStack 0 1, memorySize = None\<rparr>),
      (0x6c, \<lparr>execute = makePush 13 13, constantGas = GasFastestStep, dynamicGas = None,
        op_minStack = minStack 0 1, op_maxStack = maxStack 0 1, memorySize = None\<rparr>),
      (0x6d, \<lparr>execute = makePush 14 14, constantGas = GasFastestStep, dynamicGas = None,
        op_minStack = minStack 0 1, op_maxStack = maxStack 0 1, memorySize = None\<rparr>),
      (0x6e, \<lparr>execute = makePush 15 15, constantGas = GasFastestStep, dynamicGas = None,
        op_minStack = minStack 0 1, op_maxStack = maxStack 0 1, memorySize = None\<rparr>),
      (0x6f, \<lparr>execute = makePush 16 16, constantGas = GasFastestStep, dynamicGas = None,
        op_minStack = minStack 0 1, op_maxStack = maxStack 0 1, memorySize = None\<rparr>)]"

definition shanghai_4 :: "(byte \<times> operation) list" where
  "shanghai_4 =
     [(0x70, \<lparr>execute = makePush 17 17, constantGas = GasFastestStep, dynamicGas = None,
        op_minStack = minStack 0 1, op_maxStack = maxStack 0 1, memorySize = None\<rparr>),
      (0x71, \<lparr>execute = makePush 18 18, constantGas = GasFastestStep, dynamicGas = None,
        op_minStack = minStack 0 1, op_maxStack = maxStack 0 1, memorySize = None\<rparr>),
      (0x72, \<lparr>execute = makePush 19 19, constantGas = GasFastestStep, dynamicGas = None,
        op_minStack = minStack 0 1, op_maxStack = maxStack 0 1, memorySize = None\<rparr>),
      (0x73, \<lparr>execute = makePush 20 20, constantGas = GasFastestStep, dynamicGas = None,
        op_minStack = minStack 0 1, op_maxStack = maxStack 0 1, memorySize = None\<rparr>),
      (0x74, \<lparr>execute = makePush 21 21, constantGas = GasFastestStep, dynamicGas = None,
        op_minStack = minStack 0 1, op_maxStack = maxStack 0 1, memorySize = None\<rparr>),
      (0x75, \<lparr>execute = makePush 22 22, constantGas = GasFastestStep, dynamicGas = None,
        op_minStack = minStack 0 1, op_maxStack = maxStack 0 1, memorySize = None\<rparr>),
      (0x76, \<lparr>execute = makePush 23 23, constantGas = GasFastestStep, dynamicGas = None,
        op_minStack = minStack 0 1, op_maxStack = maxStack 0 1, memorySize = None\<rparr>),
      (0x77, \<lparr>execute = makePush 24 24, constantGas = GasFastestStep, dynamicGas = None,
        op_minStack = minStack 0 1, op_maxStack = maxStack 0 1, memorySize = None\<rparr>),
      (0x78, \<lparr>execute = makePush 25 25, constantGas = GasFastestStep, dynamicGas = None,
        op_minStack = minStack 0 1, op_maxStack = maxStack 0 1, memorySize = None\<rparr>),
      (0x79, \<lparr>execute = makePush 26 26, constantGas = GasFastestStep, dynamicGas = None,
        op_minStack = minStack 0 1, op_maxStack = maxStack 0 1, memorySize = None\<rparr>),
      (0x7a, \<lparr>execute = makePush 27 27, constantGas = GasFastestStep, dynamicGas = None,
        op_minStack = minStack 0 1, op_maxStack = maxStack 0 1, memorySize = None\<rparr>),
      (0x7b, \<lparr>execute = makePush 28 28, constantGas = GasFastestStep, dynamicGas = None,
        op_minStack = minStack 0 1, op_maxStack = maxStack 0 1, memorySize = None\<rparr>),
      (0x7c, \<lparr>execute = makePush 29 29, constantGas = GasFastestStep, dynamicGas = None,
        op_minStack = minStack 0 1, op_maxStack = maxStack 0 1, memorySize = None\<rparr>),
      (0x7d, \<lparr>execute = makePush 30 30, constantGas = GasFastestStep, dynamicGas = None,
        op_minStack = minStack 0 1, op_maxStack = maxStack 0 1, memorySize = None\<rparr>),
      (0x7e, \<lparr>execute = makePush 31 31, constantGas = GasFastestStep, dynamicGas = None,
        op_minStack = minStack 0 1, op_maxStack = maxStack 0 1, memorySize = None\<rparr>),
      (0x7f, \<lparr>execute = makePush 32 32, constantGas = GasFastestStep, dynamicGas = None,
        op_minStack = minStack 0 1, op_maxStack = maxStack 0 1, memorySize = None\<rparr>),
      (0x80, \<lparr>execute = makeDup 1, constantGas = GasFastestStep, dynamicGas = None,
        op_minStack = minDupStack 1, op_maxStack = maxDupStack 1, memorySize = None\<rparr>),
      (0x81, \<lparr>execute = makeDup 2, constantGas = GasFastestStep, dynamicGas = None,
        op_minStack = minDupStack 2, op_maxStack = maxDupStack 2, memorySize = None\<rparr>),
      (0x82, \<lparr>execute = makeDup 3, constantGas = GasFastestStep, dynamicGas = None,
        op_minStack = minDupStack 3, op_maxStack = maxDupStack 3, memorySize = None\<rparr>),
      (0x83, \<lparr>execute = makeDup 4, constantGas = GasFastestStep, dynamicGas = None,
        op_minStack = minDupStack 4, op_maxStack = maxDupStack 4, memorySize = None\<rparr>),
      (0x84, \<lparr>execute = makeDup 5, constantGas = GasFastestStep, dynamicGas = None,
        op_minStack = minDupStack 5, op_maxStack = maxDupStack 5, memorySize = None\<rparr>),
      (0x85, \<lparr>execute = makeDup 6, constantGas = GasFastestStep, dynamicGas = None,
        op_minStack = minDupStack 6, op_maxStack = maxDupStack 6, memorySize = None\<rparr>),
      (0x86, \<lparr>execute = makeDup 7, constantGas = GasFastestStep, dynamicGas = None,
        op_minStack = minDupStack 7, op_maxStack = maxDupStack 7, memorySize = None\<rparr>),
      (0x87, \<lparr>execute = makeDup 8, constantGas = GasFastestStep, dynamicGas = None,
        op_minStack = minDupStack 8, op_maxStack = maxDupStack 8, memorySize = None\<rparr>),
      (0x88, \<lparr>execute = makeDup 9, constantGas = GasFastestStep, dynamicGas = None,
        op_minStack = minDupStack 9, op_maxStack = maxDupStack 9, memorySize = None\<rparr>)]"

definition shanghai_5 :: "(byte \<times> operation) list" where
  "shanghai_5 =
     [(0x89, \<lparr>execute = makeDup 10, constantGas = GasFastestStep, dynamicGas = None,
        op_minStack = minDupStack 10, op_maxStack = maxDupStack 10, memorySize = None\<rparr>),
      (0x8a, \<lparr>execute = makeDup 11, constantGas = GasFastestStep, dynamicGas = None,
        op_minStack = minDupStack 11, op_maxStack = maxDupStack 11, memorySize = None\<rparr>),
      (0x8b, \<lparr>execute = makeDup 12, constantGas = GasFastestStep, dynamicGas = None,
        op_minStack = minDupStack 12, op_maxStack = maxDupStack 12, memorySize = None\<rparr>),
      (0x8c, \<lparr>execute = makeDup 13, constantGas = GasFastestStep, dynamicGas = None,
        op_minStack = minDupStack 13, op_maxStack = maxDupStack 13, memorySize = None\<rparr>),
      (0x8d, \<lparr>execute = makeDup 14, constantGas = GasFastestStep, dynamicGas = None,
        op_minStack = minDupStack 14, op_maxStack = maxDupStack 14, memorySize = None\<rparr>),
      (0x8e, \<lparr>execute = makeDup 15, constantGas = GasFastestStep, dynamicGas = None,
        op_minStack = minDupStack 15, op_maxStack = maxDupStack 15, memorySize = None\<rparr>),
      (0x8f, \<lparr>execute = makeDup 16, constantGas = GasFastestStep, dynamicGas = None,
        op_minStack = minDupStack 16, op_maxStack = maxDupStack 16, memorySize = None\<rparr>),
      (0x90, \<lparr>execute = makeSwap 1, constantGas = GasFastestStep, dynamicGas = None,
        op_minStack = minSwapStack 2, op_maxStack = maxSwapStack 2, memorySize = None\<rparr>),
      (0x91, \<lparr>execute = makeSwap 2, constantGas = GasFastestStep, dynamicGas = None,
        op_minStack = minSwapStack 3, op_maxStack = maxSwapStack 3, memorySize = None\<rparr>),
      (0x92, \<lparr>execute = makeSwap 3, constantGas = GasFastestStep, dynamicGas = None,
        op_minStack = minSwapStack 4, op_maxStack = maxSwapStack 4, memorySize = None\<rparr>),
      (0x93, \<lparr>execute = makeSwap 4, constantGas = GasFastestStep, dynamicGas = None,
        op_minStack = minSwapStack 5, op_maxStack = maxSwapStack 5, memorySize = None\<rparr>),
      (0x94, \<lparr>execute = makeSwap 5, constantGas = GasFastestStep, dynamicGas = None,
        op_minStack = minSwapStack 6, op_maxStack = maxSwapStack 6, memorySize = None\<rparr>),
      (0x95, \<lparr>execute = makeSwap 6, constantGas = GasFastestStep, dynamicGas = None,
        op_minStack = minSwapStack 7, op_maxStack = maxSwapStack 7, memorySize = None\<rparr>),
      (0x96, \<lparr>execute = makeSwap 7, constantGas = GasFastestStep, dynamicGas = None,
        op_minStack = minSwapStack 8, op_maxStack = maxSwapStack 8, memorySize = None\<rparr>),
      (0x97, \<lparr>execute = makeSwap 8, constantGas = GasFastestStep, dynamicGas = None,
        op_minStack = minSwapStack 9, op_maxStack = maxSwapStack 9, memorySize = None\<rparr>),
      (0x98, \<lparr>execute = makeSwap 9, constantGas = GasFastestStep, dynamicGas = None,
        op_minStack = minSwapStack 10, op_maxStack = maxSwapStack 10, memorySize = None\<rparr>),
      (0x99, \<lparr>execute = makeSwap 10, constantGas = GasFastestStep, dynamicGas = None,
        op_minStack = minSwapStack 11, op_maxStack = maxSwapStack 11, memorySize = None\<rparr>),
      (0x9a, \<lparr>execute = makeSwap 11, constantGas = GasFastestStep, dynamicGas = None,
        op_minStack = minSwapStack 12, op_maxStack = maxSwapStack 12, memorySize = None\<rparr>),
      (0x9b, \<lparr>execute = makeSwap 12, constantGas = GasFastestStep, dynamicGas = None,
        op_minStack = minSwapStack 13, op_maxStack = maxSwapStack 13, memorySize = None\<rparr>),
      (0x9c, \<lparr>execute = makeSwap 13, constantGas = GasFastestStep, dynamicGas = None,
        op_minStack = minSwapStack 14, op_maxStack = maxSwapStack 14, memorySize = None\<rparr>),
      (0x9d, \<lparr>execute = makeSwap 14, constantGas = GasFastestStep, dynamicGas = None,
        op_minStack = minSwapStack 15, op_maxStack = maxSwapStack 15, memorySize = None\<rparr>),
      (0x9e, \<lparr>execute = makeSwap 15, constantGas = GasFastestStep, dynamicGas = None,
        op_minStack = minSwapStack 16, op_maxStack = maxSwapStack 16, memorySize = None\<rparr>),
      (0x9f, \<lparr>execute = makeSwap 16, constantGas = GasFastestStep, dynamicGas = None,
        op_minStack = minSwapStack 17, op_maxStack = maxSwapStack 17, memorySize = None\<rparr>),
      (0xa0, \<lparr>execute = makeLog 0, constantGas = 0, dynamicGas = Some (makeGasLog 0),
        op_minStack = minStack 2 0, op_maxStack = maxStack 2 0, memorySize = Some memoryLog\<rparr>)]"

definition shanghai_6 :: "(byte \<times> operation) list" where
  "shanghai_6 =
     [(0xa1, \<lparr>execute = makeLog 1, constantGas = 0, dynamicGas = Some (makeGasLog 1),
        op_minStack = minStack 3 0, op_maxStack = maxStack 3 0, memorySize = Some memoryLog\<rparr>),
      (0xa2, \<lparr>execute = makeLog 2, constantGas = 0, dynamicGas = Some (makeGasLog 2),
        op_minStack = minStack 4 0, op_maxStack = maxStack 4 0, memorySize = Some memoryLog\<rparr>),
      (0xa3, \<lparr>execute = makeLog 3, constantGas = 0, dynamicGas = Some (makeGasLog 3),
        op_minStack = minStack 5 0, op_maxStack = maxStack 5 0, memorySize = Some memoryLog\<rparr>),
      (0xa4, \<lparr>execute = makeLog 4, constantGas = 0, dynamicGas = Some (makeGasLog 4),
        op_minStack = minStack 6 0, op_maxStack = maxStack 6 0, memorySize = Some memoryLog\<rparr>),
      (0xf0, \<lparr>execute = opCreate, constantGas = CreateGas, dynamicGas = Some gasCreateEip3860,
        op_minStack = minStack 3 1, op_maxStack = maxStack 3 1, memorySize = Some memoryCreate\<rparr>),
      (0xf1, \<lparr>execute = opCall, constantGas = WarmStorageReadCostEIP2929, dynamicGas = Some gasCallEIP2929,
        op_minStack = minStack 7 1, op_maxStack = maxStack 7 1, memorySize = Some memoryCall\<rparr>),
      (0xf3, \<lparr>execute = opReturn, constantGas = 0, dynamicGas = Some gasReturn,
        op_minStack = minStack 2 0, op_maxStack = maxStack 2 0, memorySize = Some memoryReturn\<rparr>),
      (0xf4, \<lparr>execute = opDelegateCall, constantGas = WarmStorageReadCostEIP2929, dynamicGas = Some gasDelegateCallEIP2929,
        op_minStack = minStack 6 1, op_maxStack = maxStack 6 1, memorySize = Some memoryDelegateCall\<rparr>),
      (0xfd, \<lparr>execute = opRevert, constantGas = 0, dynamicGas = Some gasRevert,
        op_minStack = minStack 2 0, op_maxStack = maxStack 2 0, memorySize = Some memoryRevert\<rparr>),
      (0x3e, \<lparr>execute = opReturnDataCopy, constantGas = GasFastestStep, dynamicGas = Some gasReturnDataCopy,
        op_minStack = minStack 3 0, op_maxStack = maxStack 3 0, memorySize = Some memoryReturnDataCopy\<rparr>),
      (0x3d, \<lparr>execute = opReturnDataSize, constantGas = GasQuickStep, dynamicGas = None,
        op_minStack = minStack 0 1, op_maxStack = maxStack 0 1, memorySize = None\<rparr>),
      (0xfa, \<lparr>execute = opStaticCall, constantGas = WarmStorageReadCostEIP2929, dynamicGas = Some gasStaticCallEIP2929,
        op_minStack = minStack 6 1, op_maxStack = maxStack 6 1, memorySize = Some memoryStaticCall\<rparr>),
      (0x1b, \<lparr>execute = opSHL, constantGas = GasFastestStep, dynamicGas = None,
        op_minStack = minStack 2 1, op_maxStack = maxStack 2 1, memorySize = None\<rparr>),
      (0x1c, \<lparr>execute = opSHR, constantGas = GasFastestStep, dynamicGas = None,
        op_minStack = minStack 2 1, op_maxStack = maxStack 2 1, memorySize = None\<rparr>),
      (0x1d, \<lparr>execute = opSAR, constantGas = GasFastestStep, dynamicGas = None,
        op_minStack = minStack 2 1, op_maxStack = maxStack 2 1, memorySize = None\<rparr>),
      (0x3f, \<lparr>execute = opExtCodeHash, constantGas = WarmStorageReadCostEIP2929, dynamicGas = Some gasEip2929AccountCheck,
        op_minStack = minStack 1 1, op_maxStack = maxStack 1 1, memorySize = None\<rparr>),
      (0xf5, \<lparr>execute = opCreate2, constantGas = Create2Gas, dynamicGas = Some gasCreate2Eip3860,
        op_minStack = minStack 4 1, op_maxStack = maxStack 4 1, memorySize = Some memoryCreate2\<rparr>),
      (0x46, \<lparr>execute = opChainID, constantGas = GasQuickStep, dynamicGas = None,
        op_minStack = minStack 0 1, op_maxStack = maxStack 0 1, memorySize = None\<rparr>),
      (0x47, \<lparr>execute = opSelfBalance, constantGas = GasFastStep, dynamicGas = None,
        op_minStack = minStack 0 1, op_maxStack = maxStack 0 1, memorySize = None\<rparr>),
      (0x48, \<lparr>execute = opBaseFee, constantGas = GasQuickStep, dynamicGas = None,
        op_minStack = minStack 0 1, op_maxStack = maxStack 0 1, memorySize = None\<rparr>),
      (0x44, \<lparr>execute = opRandom, constantGas = GasQuickStep, dynamicGas = None,
        op_minStack = minStack 0 1, op_maxStack = maxStack 0 1, memorySize = None\<rparr>)]"

definition shanghai_7 :: "(byte \<times> operation) list" where
  "shanghai_7 =
     [(0x5f, \<lparr>execute = opPush0, constantGas = GasQuickStep, dynamicGas = None,
        op_minStack = minStack 0 1, op_maxStack = maxStack 0 1, memorySize = None\<rparr>)]"

definition undefined_operation :: operation where
  "undefined_operation =
     \<lparr>execute = opUndefined, constantGas = 0, dynamicGas = None, op_minStack = 0,
      op_maxStack = maxStack 0 0, memorySize = None\<rparr>"

definition shanghai_entries :: "(byte \<times> operation) list" where
  "shanghai_entries =
     shanghai_1 @ shanghai_2 @ shanghai_3 @ shanghai_4 @ shanghai_5 @ shanghai_6 @ shanghai_7"

definition newShanghaiInstructionSet :: "byte \<Rightarrow> operation" where
  "newShanghaiInstructionSet b =
     (case map_of shanghai_entries b of None \<Rightarrow> undefined_operation | Some oper \<Rightarrow> oper)"

text \<open>What \<open>validate\<close> demands of every slot.\<close>

definition validate :: "operation \<Rightarrow> bool" where
  "validate oper \<longleftrightarrow> (memorySize oper \<noteq> None \<longrightarrow> dynamicGas oper \<noteq> None)"

section \<open>The main loop\<close>

text \<open>The memory an instruction asks for, in whole words.\<close>

definition requestedMemory :: "operation \<Rightarrow> stack \<Rightarrow> (vmerror + uint64) go" where
  "requestedMemory oper st =
     (case memorySize oper of
        None \<Rightarrow> Inr (Inr 0)
      | Some ms \<Rightarrow>
          andThen (ms st) (\<lambda>(memSize, overflow).
          if overflow then Inr (Inl ErrGasUintOverflow)
          else case SafeMul (toWordSize memSize) 32 of (sz, overflow) \<Rightarrow>
            Inr (if overflow then Inl ErrGasUintOverflow else Inr sz)))"

text \<open>The dynamic part of the charge, and the growth of the memory it pays for.\<close>

definition payDynamic :: "uint64 \<Rightarrow> (vmerror + uint64) \<times> frame \<times> zvm \<Rightarrow> vmerror option \<times> frame \<times> zvm" where
  "payDynamic memSize r =
     (case r of
        (Inl e, f, z) \<Rightarrow> (Some ErrOutOfGas, f, z)
      | (Inr dynamicCost, f, z) \<Rightarrow>
          (case UseGas (f_con f) dynamicCost of (con, paid) \<Rightarrow>
           if \<not> paid then (Some ErrOutOfGas, f, z)
           else (None, f\<lparr>f_con := con,
                  f_mem := (if 0 < memSize then Mem_Resize (f_mem f) memSize else f_mem f)\<rparr>, z)))"

definition chargeDynamic :: "zenv \<Rightarrow> operation \<Rightarrow> frame \<Rightarrow> zvm \<Rightarrow> (vmerror option \<times> frame \<times> zvm) go" where
  "chargeDynamic E oper f z =
     (case dynamicGas oper of
        None \<Rightarrow> Inr (None, f, z)
      | Some dyn \<Rightarrow>
          andThen (requestedMemory oper (f_stk f)) (\<lambda>r.
          case r of
            Inl e \<Rightarrow> Inr (Some e, f, z)
          | Inr memSize \<Rightarrow> andThen (dyn E f memSize z) (\<lambda>r. Inr (payDynamic memSize r))))"

definition loopBody :: "zenv \<Rightarrow> runner \<Rightarrow> frame \<Rightarrow> zvm \<Rightarrow> opresult" where
  "loopBody E run f z =
     (let oper = newShanghaiInstructionSet (GetOp (f_con f) (f_pc f));
          sLen = int (length (f_stk f)) in
      if sLen < op_minStack oper then opErr (ErrStackUnderflow sLen (op_minStack oper)) f z
      else if op_maxStack oper < sLen then opErr (ErrStackOverflow sLen (op_maxStack oper)) f z
      else
        case UseGas (f_con f) (constantGas oper) of (con, paid) \<Rightarrow>
        let f = f\<lparr>f_con := con\<rparr> in
        if \<not> paid then opErr ErrOutOfGas f z
        else
          andThen (chargeDynamic E oper f z) (\<lambda>(err, f, z).
          case err of
            Some e \<Rightarrow> opErr e f z
          | None \<Rightarrow> execute oper E run f z))"

text \<open>\<open>Run\<close> around a given main loop.\<close>

definition RunWith :: "(frame \<Rightarrow> zvm \<Rightarrow> (bytes \<times> vmerror option \<times> frame \<times> zvm) go) \<Rightarrow> runner" where
  "RunWith loop con input ro z =
     (let z = z\<lparr>z_depth := z_depth z + 1\<rparr>;
          setRO = (ro \<and> \<not> readOnly z);
          z = (if setRO then z\<lparr>readOnly := True\<rparr> else z);
          z = z\<lparr>returnData := []\<rparr>;
          leave = (\<lambda>z. z\<lparr>z_depth := z_depth z - 1, readOnly := (if setRO then False else readOnly z)\<rparr>) in
      if Code con = [] then Inr ([], None, con, leave z)
      else
        andThen (loop \<lparr>f_pc = 0, f_mem = NewMemory, f_stk = [], f_con = con\<lparr>Input := input\<rparr>\<rparr> z)
          (\<lambda>(ret, err, f, z). Inr (ret, err, f_con f, leave z)))"

primrec Run_loop :: "nat \<Rightarrow> zenv \<Rightarrow> frame \<Rightarrow> zvm \<Rightarrow> (bytes \<times> vmerror option \<times> frame \<times> zvm) go" where
  "Run_loop 0 E f z = Inl OutOfFuel"
| "Run_loop (Suc n) E f z =
     andThen (loopBody E (RunWith (Run_loop n E)) f z) (\<lambda>((res, err), f, z).
     case err of
       None \<Rightarrow> Run_loop n E (f\<lparr>f_pc := f_pc f + 1\<rparr>) z
     | Some e \<Rightarrow> Inr (res, if e = errStopToken then None else Some e, f, z))"

definition Run :: "nat \<Rightarrow> zenv \<Rightarrow> runner" where
  "Run fuel E = RunWith (Run_loop fuel E)"

section \<open>Names of opcodes\<close>

definition opCodeToString :: "(byte \<times> string) list" where
  "opCodeToString =
     [(0x00, ''STOP''), (0x01, ''ADD''), (0x02, ''MUL''), (0x03, ''SUB''), (0x04, ''DIV''),
      (0x05, ''SDIV''), (0x06, ''MOD''), (0x07, ''SMOD''), (0x0a, ''EXP''), (0x19, ''NOT''),
      (0x10, ''LT''), (0x11, ''GT''), (0x12, ''SLT''), (0x13, ''SGT''), (0x14, ''EQ''),
      (0x15, ''ISZERO''), (0x0b, ''SIGNEXTEND''), (0x16, ''AND''), (0x17, ''OR''),
      (0x18, ''XOR''), (0x1a, ''BYTE''), (0x1b, ''SHL''), (0x1c, ''SHR''), (0x1d, ''SAR''),
      (0x08, ''ADDMOD''), (0x09, ''MULMOD''), (0x20, ''KECCAK256''), (0x30, ''ADDRESS''),
      (0x31, ''BALANCE''), (0x32, ''ORIGIN''), (0x33, ''CALLER''), (0x34, ''CALLVALUE''),
      (0x35, ''CALLDATALOAD''), (0x36, ''CALLDATASIZE''), (0x37, ''CALLDATACOPY''),
      (0x38, ''CODESIZE''), (0x39, ''CODECOPY''), (0x3a, ''GASPRICE''), (0x3b, ''EXTCODESIZE''),
      (0x3c, ''EXTCODECOPY''), (0x3d, ''RETURNDATASIZE''), (0x3e, ''RETURNDATACOPY''),
      (0x3f, ''EXTCODEHASH''), (0x40, ''BLOCKHASH''), (0x41, ''COINBASE''),
      (0x42, ''TIMESTAMP''), (0x43, ''NUMBER''), (0x44, ''PREVRANDAO''), (0x45, ''GASLIMIT''),
      (0x46, ''CHAINID''), (0x47, ''SELFBALANCE''), (0x48, ''BASEFEE''), (0x50, ''POP''),
      (0x51, ''MLOAD''), (0x52, ''MSTORE''), (0x53, ''MSTORE8''), (0x54, ''SLOAD''),
      (0x55, ''SSTORE''), (0x56, ''JUMP''), (0x57, ''JUMPI''), (0x58, ''PC''),
      (0x59, ''MSIZE''), (0x5a, ''GAS''), (0x5b, ''JUMPDEST''), (0x5f, ''PUSH0''),
      (0x60, ''PUSH1''), (0x61, ''PUSH2''), (0x62, ''PUSH3''), (0x63, ''PUSH4''),
      (0x64, ''PUSH5''), (0x65, ''PUSH6''), (0x66, ''PUSH7''), (0x67, ''PUSH8''),
      (0x68, ''PUSH9''), (0x69, ''PUSH10''), (0x6a, ''PUSH11''), (0x6b, ''PUSH12''),
      (0x6c, ''PUSH13''), (0x6d, ''PUSH14''), (0x6e, ''PUSH15''), (0x6f, ''PUSH16''),
      (0x70, ''PUSH17''), (0x71, ''PUSH18''), (0x72, ''PUSH19''), (0x73, ''PUSH20''),
      (0x74, ''PUSH21''), (0x75, ''PUSH22''), (0x76, ''PUSH23''), (0x77, ''PUSH24''),
      (0x78, ''PUSH25''), (0x79, ''PUSH26''), (0x7a, ''PUSH27''), (0x7b, ''PUSH28''),
      (0x7c, ''PUSH29''), (0x7d, ''PUSH30''), (0x7e, ''PUSH31''), (0x7f, ''PUSH32''),
      (0x80, ''DUP1''), (0x81, ''DUP2''), (0x82, ''DUP3''), (0x83, ''DUP4''), (0x84, ''DUP5''),
      (0x85, ''DUP6''), (0x86, ''DUP7''), (0x87, ''DUP8''), (0x88, ''DUP9''), (0x89, ''DUP10''),
      (0x8a, ''DUP11''), (0x8b, ''DUP12''), (0x8c, ''DUP13''), (0x8d, ''DUP14''),
      (0x8e, ''DUP15''), (0x8f, ''DUP16''), (0x90, ''SWAP1''), (0x91, ''SWAP2''),
      (0x92, ''SWAP3''), (0x93, ''SWAP4''), (0x94, ''SWAP5''), (0x95, ''SWAP6''),
      (0x96, ''SWAP7''), (0x97, ''SWAP8''), (0x98, ''SWAP9''), (0x99, ''SWAP10''),
      (0x9a, ''SWAP11''), (0x9b, ''SWAP12''), (0x9c, ''SWAP13''), (0x9d, ''SWAP14''),
      (0x9e, ''SWAP15''), (0x9f, ''SWAP16''), (0xa0, ''LOG0''), (0xa1, ''LOG1''),
      (0xa2, ''LOG2''), (0xa3, ''LOG3''), (0xa4, ''LOG4''), (0xf0, ''CREATE''),
      (0xf1, ''CALL''), (0xf3, ''RETURN''), (0xf4, ''DELEGATECALL''), (0xf5, ''CREATE2''),
      (0xfa, ''STATICCALL''), (0xfd, ''REVERT''), (0xfe, ''INVALID'')]"

definition stringToOp :: "(string \<times> byte) list" where
  "stringToOp =
     [(''STOP'', 0x00), (''ADD'', 0x01), (''MUL'', 0x02), (''SUB'', 0x03), (''DIV'', 0x04),
      (''SDIV'', 0x05), (''MOD'', 0x06), (''SMOD'', 0x07), (''EXP'', 0x0a), (''NOT'', 0x19),
      (''LT'', 0x10), (''GT'', 0x11), (''SLT'', 0x12), (''SGT'', 0x13), (''EQ'', 0x14),
      (''ISZERO'', 0x15), (''SIGNEXTEND'', 0x0b), (''AND'', 0x16), (''OR'', 0x17),
      (''XOR'', 0x18), (''BYTE'', 0x1a), (''SHL'', 0x1b), (''SHR'', 0x1c), (''SAR'', 0x1d),
      (''ADDMOD'', 0x08), (''MULMOD'', 0x09), (''KECCAK256'', 0x20), (''ADDRESS'', 0x30),
      (''BALANCE'', 0x31), (''ORIGIN'', 0x32), (''CALLER'', 0x33), (''CALLVALUE'', 0x34),
      (''CALLDATALOAD'', 0x35), (''CALLDATASIZE'', 0x36), (''CALLDATACOPY'', 0x37),
      (''CHAINID'', 0x46), (''BASEFEE'', 0x48), (''DELEGATECALL'', 0xf4),
      (''STATICCALL'', 0xfa), (''CODESIZE'', 0x38), (''CODECOPY'', 0x39), (''GASPRICE'', 0x3a),
      (''EXTCODESIZE'', 0x3b), (''EXTCODECOPY'', 0x3c), (''RETURNDATASIZE'', 0x3d),
      (''RETURNDATACOPY'', 0x3e), (''EXTCODEHASH'', 0x3f), (''BLOCKHASH'', 0x40),
      (''COINBASE'', 0x41), (''TIMESTAMP'', 0x42), (''NUMBER'', 0x43), (''PREVRANDAO'', 0x44),
      (''GASLIMIT'', 0x45), (''SELFBALANCE'', 0x47), (''POP'', 0x50), (''MLOAD'', 0x51),
      (''MSTORE'', 0x52), (''MSTORE8'', 0x53), (''SLOAD'', 0x54), (''SSTORE'', 0x55),
      (''JUMP'', 0x56), (''JUMPI'', 0x57), (''PC'', 0x58), (''MSIZE'', 0x59), (''GAS'', 0x5a),
      (''JUMPDEST'', 0x5b), (''PUSH0'', 0x5f), (''PUSH1'', 0x60), (''PUSH2'', 0x61),
      (''PUSH3'', 0x62), (''PUSH4'', 0x63), (''PUSH5'', 0x64), (''PUSH6'', 0x65),
      (''PUSH7'', 0x66), (''PUSH8'', 0x67), (''PUSH9'', 0x68), (''PUSH10'', 0x69),
      (''PUSH11'', 0x6a), (''PUSH12'', 0x6b), (''PUSH13'', 0x6c), (''PUSH14'', 0x6d),
      (''PUSH15'', 0x6e), (''PUSH16'', 0x6f), (''PUSH17'', 0x70), (''PUSH18'', 0x71),
      (''PUSH19'', 0x72), (''PUSH20'', 0x73), (''PUSH21'', 0x74), (''PUSH22'', 0x75),
      (''PUSH23'', 0x76), (''PUSH24'', 0x77), (''PUSH25'', 0x78), (''PUSH26'', 0x79),
      (''PUSH27'', 0x7a), (''PUSH28'', 0x7b), (''PUSH29'', 0x7c), (''PUSH30'', 0x7d),
      (''PUSH31'', 0x7e), (''PUSH32'', 0x7f), (''DUP1'', 0x80), (''DUP2'', 0x81),
      (''DUP3'', 0x82), (''DUP4'', 0x83), (''DUP5'', 0x84), (''DUP6'', 0x85), (''DUP7'', 0x86),
      (''DUP8'', 0x87), (''DUP9'', 0x88), (''DUP10'', 0x89), (''DUP11'', 0x8a),
      (''DUP12'', 0x8b), (''DUP13'', 0x8c), (''DUP14'', 0x8d), (''DUP15'', 0x8e),
      (''DUP16'', 0x8f), (''SWAP1'', 0x90), (''SWAP2'', 0x91), (''SWAP3'', 0x92),
      (''SWAP4'', 0x93), (''SWAP5'', 0x94), (''SWAP6'', 0x95), (''SWAP7'', 0x96),
      (''SWAP8'', 0x97), (''SWAP9'', 0x98), (''SWAP10'', 0x99), (''SWAP11'', 0x9a),
      (''SWAP12'', 0x9b), (''SWAP13'', 0x9c), (''SWAP14'', 0x9d), (''SWAP15'', 0x9e),
      (''SWAP16'', 0x9f), (''LOG0'', 0xa0), (''LOG1'', 0xa1), (''LOG2'', 0xa2),
      (''LOG3'', 0xa3), (''LOG4'', 0xa4), (''CREATE'', 0xf0), (''CREATE2'', 0xf5),
      (''CALL'', 0xf1), (''RETURN'', 0xf3), (''REVERT'', 0xfd), (''INVALID'', 0xfe)]"

definition hex_digit :: "nat \<Rightarrow> char" where
  "hex_digit n = ''0123456789abcdef'' ! n"

definition OpCode_String :: "byte \<Rightarrow> string" where
  "OpCode_String b =
     (case map_of opCodeToString b of
        Some s \<Rightarrow> s
      | None \<Rightarrow> ''opcode 0x'' @ (if unat b < 16 then [hex_digit (unat b)]
                  else [hex_digit (unat b div 16), hex_digit (unat b mod 16)]) @ '' not defined'')"

definition StringToOp :: "string \<Rightarrow> byte" where
  "StringToOp s = (case map_of stringToOp s of Some b \<Rightarrow> b | None \<Rightarrow> 0)"

definition IsPush :: "byte \<Rightarrow> bool" where
  "IsPush b \<longleftrightarrow> 0x5f \<le> b \<and> b \<le> 0x7f"

end
