(* ===== verification/State_Ledger.thy ===== *)
theory State_Ledger
  imports ZVM_Env
begin

text \<open>
  Three facts about the world state that execution must respect: the sum of all balances, which no
  operation of the virtual machine changes, the nonces of the accounts, which never decrease, and the
  contents of the accounts, which code run in read-only mode does not change at all. All are functions of the view of the state, so that a
  revert, which restores the view, restores them too.
\<close>

section \<open>Balances\<close>

definition balance :: "state_view \<Rightarrow> address \<Rightarrow> int" where
  "balance v a = (case live_view v a of None \<Rightarrow> 0 | Some x \<Rightarrow> acct_Balance (ov_data x))"

definition total_supply :: "statedb \<Rightarrow> int" where
  "total_supply s = (\<Sum>a\<in>UNIV. balance (view s) a)"

lemma balance_GetBalance: "wf_state s \<Longrightarrow> balance (view s) a = fst (GetBalance a s)"
  by (simp add: balance_def balance_view)

lemma supply_cong: "(\<And>a. balance (view s') a = balance (view s) a) \<Longrightarrow> total_supply s' = total_supply s"
  by (simp add: total_supply_def)

lemma supply_shift:
  assumes "\<And>b. balance (view s') b = balance (view s) b + (if b = a then n else 0)"
  shows "total_supply s' = total_supply s + n"
  using assms by (simp add: total_supply_def sum.distrib)

lemma supply_AddBalance: "state_ok s \<Longrightarrow> total_supply (AddBalance a n s) = total_supply s + n"
  by (rule supply_shift [where a = a])
    (simp add: balance_GetBalance state_ok_wf extends_state_ok [OF AddBalance_extends] GetBalance_AddBalance)

lemma supply_SubBalance: "state_ok s \<Longrightarrow> total_supply (SubBalance a n s) = total_supply s - n"
  using supply_shift [of "SubBalance a n s" s a "- n"]
  by (simp add: balance_GetBalance state_ok_wf extends_state_ok [OF SubBalance_extends] GetBalance_SubBalance)

lemma supply_Transfer: "state_ok s \<Longrightarrow> total_supply (Transfer s a b n) = total_supply s"
  using supply_AddBalance [OF extends_state_ok [OF SubBalance_extends]] supply_SubBalance
  by (simp add: Transfer_def)

text \<open>Writes to other parts of an account.\<close>

lemma supply_withObject:
  assumes ok: "state_ok s"
    and f: "\<And>ob s ob' s'. f ob s = (ob', s') \<Longrightarrow> so_address ob' = so_address ob \<and>
      so_deleted ob' = so_deleted ob \<and> view s' = view s \<and> acct_Balance (so_data ob') = acct_Balance (so_data ob)"
    and e: "extends s (withObject a f s)"
  shows "total_supply (withObject a f s) = total_supply s"
proof (rule supply_cong)
  show "balance (view (withObject a f s)) b = balance (view s) b" for b
    using GetBalance_withObject [OF ok, where h = "\<lambda>x. x" and f = f and a = a and b = b, OF _ e] f
      state_ok_wf [OF ok] state_ok_wf [OF extends_state_ok [OF e]]
    by (simp add: balance_GetBalance)
qed

lemma same_obj_keeps:
  "same_obj s ob ob' \<Longrightarrow> err_only s s' \<Longrightarrow> so_address ob' = so_address ob \<and>
     so_deleted ob' = so_deleted ob \<and> so_data ob' = so_data ob \<and> view s' = view s"
  by (auto simp: same_obj_def ov_def err_only_def)

lemma so_Code_keeps: "so_Code ob s = (c, ob', s') \<Longrightarrow> so_address ob' = so_address ob \<and>
    so_deleted ob' = so_deleted ob \<and> so_data ob' = so_data ob \<and> view s' = view s"
  using same_obj_keeps [OF so_Code_same(1,3)] .

lemma so_GetState_keeps: "so_GetState ob k s = (v, ob', s') \<Longrightarrow> so_address ob' = so_address ob \<and>
    so_deleted ob' = so_deleted ob \<and> so_data ob' = so_data ob \<and> view s' = view s"
  using same_obj_keeps [OF so_GetState_same(1,3)] .

lemma balance_SetNonce:
  assumes "state_ok s"
  shows "balance (view (SetNonce a n s)) b = balance (view s) b"
  using GetBalance_withObject [OF assms, where h = "\<lambda>x. x" and f = "so_SetNonce n" and a = a and b = b]
    SetNonce_extends [OF assms, of a n] state_ok_wf [OF assms] state_ok_wf [OF extends_state_ok [OF SetNonce_extends [OF assms]]]
  by (simp add: balance_GetBalance SetNonce_def so_SetNonce_def so_setNonce_def)

lemma supply_SetNonce: "state_ok s \<Longrightarrow> total_supply (SetNonce a n s) = total_supply s"
  using supply_withObject [of s "so_SetNonce n" a] SetNonce_extends [of s a n]
  by (simp add: SetNonce_def so_SetNonce_def so_setNonce_def)

lemma so_SetCode_effect:
  assumes "so_SetCode h c ob s = (ob', s')"
  shows "so_address ob' = so_address ob \<and> so_deleted ob' = so_deleted ob \<and> view s' = view s \<and>
    acct_Balance (so_data ob') = acct_Balance (so_data ob) \<and> acct_Nonce (so_data ob') = acct_Nonce (so_data ob)"
proof -
  obtain prev ob1 s1 where c: "so_Code ob s = (prev, ob1, s1)"
    by (metis prod_cases3)
  show ?thesis
    using assms so_Code_keeps [OF c] by (auto simp: so_SetCode_def so_setCode_def c)
qed

lemma so_SetCode_keeps:
  "so_SetCode h c ob s = (ob', s') \<Longrightarrow> so_address ob' = so_address ob \<and> so_deleted ob' = so_deleted ob \<and>
     view s' = view s \<and> acct_Balance (so_data ob') = acct_Balance (so_data ob)"
  using so_SetCode_effect by blast

lemma so_SetCode_nonce:
  "so_SetCode h c ob s = (ob', s') \<Longrightarrow> so_address ob' = so_address ob \<and> so_deleted ob' = so_deleted ob \<and>
     view s' = view s \<and> acct_Nonce (so_data ob') = acct_Nonce (so_data ob)"
  using so_SetCode_effect by blast

lemma so_SetState_effect:
  assumes "so_SetState k v ob s = (ob', s')"
  shows "so_address ob' = so_address ob \<and> so_deleted ob' = so_deleted ob \<and> view s' = view s \<and>
    acct_Balance (so_data ob') = acct_Balance (so_data ob) \<and> acct_Nonce (so_data ob') = acct_Nonce (so_data ob)"
proof -
  obtain prev ob1 s1 where c: "so_GetState ob k s = (prev, ob1, s1)"
    by (metis prod_cases3)
  show ?thesis
    using assms so_GetState_keeps [OF c] by (auto simp: so_SetState_def so_setState_def c split: if_splits)
qed

lemma so_SetState_keeps:
  "so_SetState k v ob s = (ob', s') \<Longrightarrow> so_address ob' = so_address ob \<and> so_deleted ob' = so_deleted ob \<and>
     view s' = view s \<and> acct_Balance (so_data ob') = acct_Balance (so_data ob)"
  using so_SetState_effect by blast

lemma so_SetState_nonce:
  "so_SetState k v ob s = (ob', s') \<Longrightarrow> so_address ob' = so_address ob \<and> so_deleted ob' = so_deleted ob \<and>
     view s' = view s \<and> acct_Nonce (so_data ob') = acct_Nonce (so_data ob)"
  using so_SetState_effect by blast

lemma supply_SetCode: "state_ok s \<Longrightarrow> total_supply (SetCode a c s) = total_supply s"
  using supply_withObject [of s "so_SetCode (Keccak256Hash (db s) c) c" a, OF _ so_SetCode_keeps]
    SetCode_extends [of s a c] by (simp add: SetCode_def)

lemma supply_SetState: "state_ok s \<Longrightarrow> total_supply (SetState a k v s) = total_supply s"
  using supply_withObject [of s "so_SetState k v" a, OF _ so_SetState_keeps]
    SetState_extends [of s a k v] by (simp add: SetState_def)

section \<open>Nonces\<close>

definition nonce_of :: "state_view \<Rightarrow> address \<Rightarrow> uint64" where
  "nonce_of v a = (case live_view v a of None \<Rightarrow> 0 | Some x \<Rightarrow> acct_Nonce (ov_data x))"

lemma nonce_GetNonce: "wf_state s \<Longrightarrow> nonce_of (view s) a = fst (GetNonce a s)"
  by (simp add: nonce_of_def GetNonce_read(2))

lemma nonce_withObject:
  assumes ok: "state_ok s"
    and f: "\<And>ob s ob' s'. f ob s = (ob', s') \<Longrightarrow> so_address ob' = so_address ob \<and>
      so_deleted ob' = so_deleted ob \<and> view s' = view s \<and>
      acct_Nonce (so_data ob') = h (acct_Nonce (so_data ob))"
  shows "nonce_of (view (withObject a f s)) b = (if b = a then h (nonce_of (view s) b) else nonce_of (view s) b)"
proof -
  obtain ob s1 ob' s2 where g: "GetOrNewStateObject a s = (ob, s1)" "f ob s1 = (ob', s2)"
    and v: "live_view (view (withObject a f s)) a = Some (ov s2 ob')"
    "\<And>b. b \<noteq> a \<Longrightarrow> live_view (view (withObject a f s)) b = live_view (view s) b"
    using withObject_view [OF ok, of f a] f by metis
  have "acct_Nonce (so_data ob) = nonce_of (view s) a"
    using GetOrNewStateObject_view(2,3) [OF ok g(1)]
    by (cases "live_view (view s) a") (auto simp: nonce_of_def NewEmptyStateAccount_def)
  then show ?thesis
    using v f [OF g(2)] by (simp add: nonce_of_def)
qed

text \<open>\<open>CreateAccount\<close> carries the balance over to the new object, but not the nonce.\<close>

lemma CreateAccount_accounts:
  assumes ok: "state_ok s"
  shows "balance (view (CreateAccount a s)) b = balance (view s) b \<and>
    nonce_of (view (CreateAccount a s)) b = (if b = a then 0 else nonce_of (view s) b)"
proof -
  obtain p s0 where g: "getDeletedStateObject a s = (p, s0)"
    by fastforce
  obtain ob prev s1 where c: "createObject a s = ((ob, prev), s1)"
    by (metis prod.exhaust)
  note q = getDeletedStateObject_quiet [OF g]
  have "wf_state s0"
    using q(1) state_ok_wf [OF ok] by (simp add: quiet_def)
  then have pa: "\<forall>x. p = Some x \<longrightarrow> so_address x = a"
    using q(3) by (auto simp: wf_state_def obj_ok_def)
  have new: "so_address ob = a" "\<not> so_deleted ob" "acct_Balance (so_data ob) = 0" "acct_Nonce (so_data ob) = 0"
    "prev = (case p of Some x \<Rightarrow> if so_deleted x then None else p | None \<Rightarrow> None)"
    using c unfolding createObject_eq [OF g pa]
    by (auto simp: Let_def newObject_def NewEmptyStateAccount_def split: option.splits if_splits)
  have live: "live_view (view s) a = (case p of None \<Rightarrow> None | Some x \<Rightarrow> if so_deleted x then None else Some (ov s x))"
    using g by (simp add: live_view_def view_def split: option.split)
  have at: "v_objs (view s1) a = Some (ov s2 ob)" if "s1 = setStateObject ob s2" for s2
    using that new(1) by (simp add: view_setStateObject)
  have s1: "\<exists>s2. s1 = setStateObject ob s2"
    using c unfolding createObject_eq [OF g pa] by (auto simp: Let_def split: option.splits if_splits)
  show ?thesis
  proof (cases "b = a")
    case False
    have "live_view (view (CreateAccount a s)) b = live_view (view s) b"
      using False c new(1) createObject_other [OF ok c False]
      by (auto simp: CreateAccount_def live_view_def view_setStateObject so_setBalance_def split: option.split)
    then show ?thesis
      using False by (simp add: balance_def nonce_of_def)
  next
    case True
    then show ?thesis
      using c new s1 at live
      by (auto simp: CreateAccount_def balance_def nonce_of_def live_view_def view_setStateObject so_setBalance_def
          split: option.splits if_splits)
  qed
qed

lemmas balance_CreateAccount = CreateAccount_accounts [THEN conjunct1]
lemmas nonce_CreateAccount = CreateAccount_accounts [THEN conjunct2]

text \<open>The other writes.\<close>

lemma nonce_writes:
  assumes ok: "state_ok s"
  shows nonce_SetNonce: "nonce_of (view (SetNonce a n s)) b = (if b = a then n else nonce_of (view s) b)"
    and nonce_SetCode: "nonce_of (view (SetCode a c s)) b = nonce_of (view s) b"
    and nonce_SetState: "nonce_of (view (SetState a k v s)) b = nonce_of (view s) b"
    and nonce_AddBalance: "nonce_of (view (AddBalance a m s)) b = nonce_of (view s) b"
    and nonce_SubBalance: "nonce_of (view (SubBalance a m s)) b = nonce_of (view s) b"
proof -
  show "nonce_of (view (SetNonce a n s)) b = (if b = a then n else nonce_of (view s) b)"
    using nonce_withObject [OF ok, where h = "\<lambda>_. n" and f = "so_SetNonce n" and a = a and b = b]
    by (simp add: SetNonce_def so_SetNonce_def so_setNonce_def)
  show "nonce_of (view (SetCode a c s)) b = nonce_of (view s) b"
    using nonce_withObject [OF ok, where h = "\<lambda>x. x" and f = "so_SetCode (Keccak256Hash (db s) c) c" and a = a and b = b,
        OF so_SetCode_nonce] by (simp add: SetCode_def)
  show "nonce_of (view (SetState a k v s)) b = nonce_of (view s) b"
    using nonce_withObject [OF ok, where h = "\<lambda>x. x" and f = "so_SetState k v" and a = a and b = b,
        OF so_SetState_nonce] by (simp add: SetState_def)
  show "nonce_of (view (AddBalance a m s)) b = nonce_of (view s) b"
    unfolding AddBalance_def
    by (subst nonce_withObject [OF ok, where h = "\<lambda>x. x"])
      (auto simp: so_AddBalance_def so_SetBalance_def so_setBalance_def split: if_splits)
  show "nonce_of (view (SubBalance a m s)) b = nonce_of (view s) b"
    unfolding SubBalance_def
    by (subst nonce_withObject [OF ok, where h = "\<lambda>x. x"])
      (auto simp: so_SubBalance_def so_SetBalance_def so_setBalance_def split: if_splits)
qed

lemma nonce_Transfer: "state_ok s \<Longrightarrow> nonce_of (view (Transfer s a b n)) c = nonce_of (view s) c"
  using nonce_AddBalance [OF extends_state_ok [OF SubBalance_extends]] nonce_SubBalance by (simp add: Transfer_def)

section \<open>Read-only execution\<close>

text \<open>Nothing has changed in the accounts and the logs, except that accounts that did not exist may
  have come into being without nonce, balance and code.\<close>

definition same_account :: "obj_view \<Rightarrow> obj_view \<Rightarrow> bool" where
  "same_account x y \<longleftrightarrow> ov_data y = ov_data x \<and> ov_code y = ov_code x \<and> ov_state y = ov_state x"

definition fresh_account :: "database \<Rightarrow> obj_view \<Rightarrow> bool" where
  "fresh_account d y \<longleftrightarrow> ov_data y = NewEmptyStateAccount d"

definition frozen :: "statedb \<Rightarrow> statedb \<Rightarrow> bool" where
  "frozen s s' \<longleftrightarrow> v_logs (view s') = v_logs (view s) \<and> db s' = db s \<and>
     (\<forall>a. case live_view (view s) a of
        Some x \<Rightarrow> \<exists>y. live_view (view s') a = Some y \<and> same_account x y
      | None \<Rightarrow> \<forall>y. live_view (view s') a = Some y \<longrightarrow> fresh_account (db s) y)"

lemma frozenI:
  assumes "v_logs (view s') = v_logs (view s)" "db s' = db s"
    "\<And>a x. live_view (view s) a = Some x \<Longrightarrow> \<exists>y. live_view (view s') a = Some y \<and> same_account x y"
    "\<And>a y. live_view (view s) a = None \<Longrightarrow> live_view (view s') a = Some y \<Longrightarrow> fresh_account (db s) y"
  shows "frozen s s'"
  using assms by (auto simp: frozen_def split: option.split)

lemma frozen_view: "view s' = view s \<Longrightarrow> frozen s s'"
  by (rule frozenI) (auto simp: same_account_def dest: view_env(1))

lemma frozenD:
  assumes "frozen s s'"
  shows "live_view (view s) a = Some x \<Longrightarrow> \<exists>y. live_view (view s') a = Some y \<and> same_account x y"
    "live_view (view s) a = None \<Longrightarrow> live_view (view s') a = Some y \<Longrightarrow> fresh_account (db s) y"
  using assms [unfolded frozen_def, THEN conjunct2, THEN conjunct2, rule_format, of a] by (auto split: option.splits)

lemma frozen_trans:
  assumes "frozen s t" "frozen t u"
  shows "frozen s u"
proof (rule frozenI)
  show "v_logs (view u) = v_logs (view s)" "db u = db s"
    using assms by (simp_all add: frozen_def)
  show "\<exists>y. live_view (view u) a = Some y \<and> same_account x y" if x: "live_view (view s) a = Some x" for a x
    using frozenD(1) [OF assms(1) x] frozenD(1) [OF assms(2)] by (force simp: same_account_def)
  show "fresh_account (db s) y" if n: "live_view (view s) a = None" and y: "live_view (view u) a = Some y" for a y
  proof (cases "live_view (view t) a")
    case None
    then show ?thesis
      using frozenD(2) [OF assms(2) _ y] assms(1) by (simp add: frozen_def)
  next
    case (Some x)
    then show ?thesis
      using frozenD(2) [OF assms(1) n Some] frozenD(1) [OF assms(2) Some] y
      by (auto simp: fresh_account_def same_account_def)
  qed
qed

section \<open>Moves of the state\<close>

text \<open>What one step of execution may do to the state, in read-only mode if \<open>ro\<close> is set: it can be
  undone, keeps the sum of all balances, decreases no nonce, and in read-only mode changes nothing.\<close>

definition moves :: "bool \<Rightarrow> statedb \<Rightarrow> statedb \<Rightarrow> bool" where
  "moves ro s s' \<longleftrightarrow> extends s s' \<and> total_supply s' = total_supply s \<and>
     (\<forall>a. nonce_of (view s) a \<le> nonce_of (view s') a) \<and> (ro \<longrightarrow> frozen s s')"

lemma moves_extends: "moves ro s s' \<Longrightarrow> extends s s'"
  by (simp add: moves_def)

lemma moves_state_ok: "moves ro s s' \<Longrightarrow> state_ok s'"
  by (auto simp: moves_def extends_state_ok)

lemma moves_view: "extends s s' \<Longrightarrow> view s' = view s \<Longrightarrow> moves ro s s'"
  by (simp add: moves_def total_supply_def frozen_view)

lemma moves_refl: "state_ok s \<Longrightarrow> moves ro s s"
  by (simp add: moves_view extends_refl)

lemma moves_nonce: "moves ro s s' \<Longrightarrow> nonce_of (view s) a \<le> nonce_of (view s') a"
  by (simp add: moves_def)

lemma moves_trans: "moves ro s t \<Longrightarrow> moves ro t u \<Longrightarrow> moves ro s u"
  by (auto simp: moves_def intro: extends_trans frozen_trans order_trans)

lemma moves_weaken: "moves ro s t \<Longrightarrow> (ro' \<longrightarrow> ro) \<Longrightarrow> moves ro' s t"
  by (auto simp: moves_def)

lemma moves_any: "moves True s t \<Longrightarrow> moves ro s t"
  by (simp add: moves_def)

lemma moves_quiet: "state_ok s \<Longrightarrow> quiet s s' \<Longrightarrow> moves ro s s'"
  by (rule moves_view [OF extends_quiet]) (simp_all add: quiet_def)

lemma moves_objs:
  assumes "extends s s'" "v_objs (view s') = v_objs (view s)" "v_logs (view s') = v_logs (view s)" "db s' = db s"
  shows "moves ro s s'"
proof -
  have "live_view (view s') = live_view (view s)"
    using assms(2) by (simp add: live_view_def fun_eq_iff)
  then show ?thesis
    using assms by (auto simp: moves_def total_supply_def balance_def nonce_of_def same_account_def intro!: frozenI)
qed

lemma AddRefund_moves: "state_ok s \<Longrightarrow> moves ro s (AddRefund g s)"
  by (rule moves_objs [OF AddRefund_extends]) (simp_all add: AddRefund_def view_fields)

lemma SubRefund_moves: "state_ok s \<Longrightarrow> SubRefund g s = Inr s' \<Longrightarrow> moves ro s s'"
  by (rule moves_objs [OF SubRefund_extends])
    (auto simp: SubRefund_def Let_def view_fields split: if_splits)

lemma AddPreimage_moves: "state_ok s \<Longrightarrow> moves ro s (AddPreimage h p s)"
  by (rule moves_objs [OF AddPreimage_extends]) (auto simp: AddPreimage_def view_fields Let_def)

lemma AddAddressToAccessList_moves: "state_ok s \<Longrightarrow> moves ro s (AddAddressToAccessList a s)"
  by (rule moves_objs [OF AddAddressToAccessList_extends])
    (auto simp: AddAddressToAccessList_def view_fields Let_def split: prod.split)

lemma nonce_AddAddress: "nonce_of (view (AddAddressToAccessList a s)) b = nonce_of (view s) b"
  by (auto simp: AddAddressToAccessList_def nonce_of_def live_view_def view_fields Let_def split: prod.split)

lemma Snapshot_moves: "state_ok s \<Longrightarrow> Snapshot s = (i, s') \<Longrightarrow> moves ro s s'"
  by (rule moves_view [OF Snapshot_extends]) (auto simp: Snapshot_def Let_def)

lemma write_moves:
  assumes "state_ok s"
  shows "nonce_of (view s) a \<le> n \<Longrightarrow> moves False s (SetNonce a n s)" "moves False s (SetCode a c s)" "moves False s (SetState a k v s)"
    "moves False s (Transfer s a b x)" "nonce_of (view s) a = 0 \<Longrightarrow> moves False s (CreateAccount a s)"
  using assms supply_SetNonce supply_SetCode supply_SetState supply_Transfer balance_CreateAccount
    nonce_SetNonce nonce_SetCode nonce_SetState nonce_Transfer nonce_CreateAccount
    SetNonce_extends SetCode_extends SetState_extends Transfer_extends CreateAccount_extends
  by (simp_all add: moves_def total_supply_def)

lemma AddLog_moves: "state_ok s \<Longrightarrow> moves False s (AddLog l s)"
  using AddLog_extends [of s l]
  by (auto simp: moves_def total_supply_def balance_def nonce_of_def live_view_def AddLog_def Let_def view_fields)

lemma AddSlotToAccessList_moves:
  assumes "state_ok s" "AddSlotToAccessList a k s = Inr s'"
  shows "moves ro s s'"
proof -
  have "extends s s'"
    using AddSlotToAccessList_extends [OF assms(1), of a k] assms(2) by auto
  moreover obtain al where "v_objs (view s') = v_objs (view (s\<lparr>accessL := al\<rparr>))"
    "v_logs (view s') = v_logs (view (s\<lparr>accessL := al\<rparr>))" "db s' = db s"
    using assms(2) by (cases "AddSlot (accessL s) a k") (auto simp: AddSlotToAccessList_def Let_def)
  ultimately show ?thesis
    by (intro moves_objs) (simp_all add: view_fields)
qed

text \<open>Touching an account, with a transfer of nothing, and making one where there was none.\<close>

lemma frozen_supply:
  assumes "frozen s s'"
  shows "total_supply s' = total_supply s"
proof -
  have "balance (view s') a = balance (view s) a" for a
    using frozenD(1) [OF assms, of a] frozenD(2) [OF assms, of a]
    by (cases "live_view (view s) a"; cases "live_view (view s') a")
      (auto simp: balance_def same_account_def fresh_account_def NewEmptyStateAccount_def)
  then show ?thesis
    by (simp add: total_supply_def)
qed

lemma frozen_nonce:
  assumes "frozen s s'"
  shows "nonce_of (view s') a = nonce_of (view s) a"
  using frozenD(1) [OF assms, of a] frozenD(2) [OF assms, of a]
  by (cases "live_view (view s) a"; cases "live_view (view s') a")
    (auto simp: nonce_of_def same_account_def fresh_account_def NewEmptyStateAccount_def)

lemma frozen_moves: "extends s s' \<Longrightarrow> frozen s s' \<Longrightarrow> moves ro s s'"
  by (simp add: moves_def frozen_supply frozen_nonce)

lemma frozen_at:
  assumes "v_logs (view s') = v_logs (view s)" "db s' = db s"
    and "\<And>b. b \<noteq> a \<Longrightarrow> live_view (view s') b = live_view (view s) b" "live_view (view s') a = Some y"
    and "\<And>x. live_view (view s) a = Some x \<Longrightarrow> same_account x y"
    and "live_view (view s) a = None \<Longrightarrow> fresh_account (db s) y"
  shows "frozen s s'"
proof (rule frozenI)
  show "\<exists>y. live_view (view s') b = Some y \<and> same_account x y" if "live_view (view s) b = Some x" for b x
    using that assms(3-5) by (cases "b = a") (auto simp: same_account_def)
  show "fresh_account (db s) x" if "live_view (view s) b = None" "live_view (view s') b = Some x" for b x
    using that assms(3,4,6) by (cases "b = a") auto
qed (use assms in auto)

lemma view_log_env: "view s' = view s \<Longrightarrow> logs s' = logs s \<and> logSize s' = logSize s \<and> db s' = db s"
  by (simp add: view_def)

lemma createObject_env:
  assumes ok: "state_ok s" and c: "createObject a s = ((ob, prev), s')"
  shows "logs s' = logs s \<and> logSize s' = logSize s \<and> db s' = db s"
    and "so_address ob = a \<and> \<not> so_deleted ob \<and> so_data ob = NewEmptyStateAccount (db s)"
    and "v_objs (view s') a = Some (ov s' ob)"
    and "live_view (view s) a = None \<Longrightarrow> prev = None"
proof -
  obtain p s0 where g: "getDeletedStateObject a s = (p, s0)"
    by fastforce
  note q = getDeletedStateObject_quiet [OF g]
  have s0: "logs s0 = logs s \<and> logSize s0 = logSize s \<and> db s0 = db s"
    using q(1) by (intro view_log_env) (simp add: quiet_def)
  have "wf_state s0"
    using q(1) state_ok_wf [OF ok] by (simp add: quiet_def)
  then have pa: "\<forall>x. p = Some x \<longrightarrow> so_address x = a"
    using q(3) by (auto simp: wf_state_def obj_ok_def)
  note eq = c [unfolded createObject_eq [OF g pa] Let_def]
  show "logs s' = logs s \<and> logSize s' = logSize s \<and> db s' = db s"
    using eq s0 by (auto simp: setStateObject_def addEntry_def resetState_def Let_def split: option.splits)
  show 1: "so_address ob = a \<and> \<not> so_deleted ob \<and> so_data ob = NewEmptyStateAccount (db s)"
    using eq s0 by (auto simp: newObject_def split: option.splits)
  obtain s2 where s2: "s' = setStateObject ob s2"
    using eq by (auto split: option.splits)
  have "ov (setStateObject ob s2) = ov s2"
    by (simp add: setStateObject_def fun_eq_iff)
  then show "v_objs (view s') a = Some (ov s' ob)"
    using 1 s2 by (simp add: view_setStateObject)
  show "live_view (view s) a = None \<Longrightarrow> prev = None"
    using eq g by (auto simp: live_view_def view_def split: option.splits if_splits)
qed

lemma GetOrNew_env:
  assumes ok: "state_ok s" and g: "GetOrNewStateObject a s = (ob, s1)"
  shows "logs s1 = logs s \<and> logSize s1 = logSize s \<and> db s1 = db s"
proof -
  obtain r s0 where r: "getStateObject a s = (r, s0)"
    by fastforce
  note q = getStateObject_quiet(1) [OF r]
  have s0: "logs s0 = logs s \<and> logSize s0 = logSize s \<and> db s0 = db s"
    using q by (intro view_log_env) (simp add: quiet_def)
  show ?thesis
    using g r s0 createObject_env(1) [OF extends_state_ok [OF extends_quiet [OF ok q]], of a]
    by (cases r) (auto simp: GetOrNewStateObject_def split: prod.splits)
qed

lemma withObject_frozen:
  assumes ok: "state_ok s" and e: "extends s (withObject a f s)"
    and f: "\<And>ob s ob' s'. f ob s = (ob', s') \<Longrightarrow> ob' = ob \<and> (s' = s \<or> s' = touch ob s)"
  shows "moves ro s (withObject a f s)"
proof (rule frozen_moves [OF e])
  obtain ob s1 ob' s2 where g: "GetOrNewStateObject a s = (ob, s1)" "f ob s1 = (ob', s2)"
    and v: "live_view (view (withObject a f s)) a = Some (ov s2 ob')"
    "\<And>b. b \<noteq> a \<Longrightarrow> live_view (view (withObject a f s)) b = live_view (view s) b"
    using withObject_view [OF ok, of f a] f by (metis touch_view)
  have "ov s2 ob' = ov s1 ob"
    using f [OF g(2)] by (auto simp: touch_def addEntry_def)
  then have at: "live_view (view (withObject a f s)) a = Some (ov s1 ob)"
    using v(1) by simp
  have "logs (withObject a f s) = logs s \<and> logSize (withObject a f s) = logSize s \<and> db (withObject a f s) = db s"
    using GetOrNew_env [OF ok g(1)] f [OF g(2)] g
    by (auto simp: withObject_def setStateObject_def touch_def addEntry_def)
  then show "frozen s (withObject a f s)"
    using at v(2) GetOrNewStateObject_view(2,3) [OF ok g(1)]
    by (intro frozen_at [where a = a and y = "ov s1 ob"])
      (auto simp: same_account_def fresh_account_def view_sel)
qed

lemma touch_moves:
  assumes "state_ok s"
  shows "moves ro s (AddBalance a 0 s)" "moves ro s (SubBalance a 0 s)"
  using AddBalance_extends [OF assms, of a 0] SubBalance_extends [OF assms, of a 0]
  unfolding AddBalance_def SubBalance_def
  by (auto intro!: withObject_frozen [OF assms] simp: so_AddBalance_def so_SubBalance_def)

lemma Transfer_moves:
  assumes "state_ok s" "ro \<longrightarrow> n = 0"
  shows "moves ro s (Transfer s a b n)"
proof (cases "n = 0")
  case True
  then show ?thesis
    using moves_trans [OF touch_moves(2) touch_moves(1)] assms touch_moves(2) moves_state_ok
    unfolding Transfer_def by blast
next
  case False
  then show ?thesis
    using write_moves(4) assms by simp
qed

lemma CreateAccount_moves:
  assumes ok: "state_ok s" and n: "ro \<longrightarrow> live_view (view s) a = None" and z: "nonce_of (view s) a = 0"
  shows "moves ro s (CreateAccount a s)"
proof (cases "live_view (view s) a")
  case None
  obtain ob prev s1 where c: "createObject a s = ((ob, prev), s1)"
    by (metis prod.exhaust)
  note env = createObject_env [OF ok c]
  have s1: "CreateAccount a s = s1"
    using c env(4) [OF None] by (simp add: CreateAccount_def)
  have "frozen s s1"
    using env None createObject_other [OF ok c]
    by (intro frozen_at [where a = a and y = "ov s1 ob"]) (auto simp: view_sel live_view_def fresh_account_def)
  then show ?thesis
    using frozen_moves CreateAccount_extends [OF ok, of a] s1 by simp
next
  case (Some x)
  then show ?thesis
    using n z write_moves(5) [OF ok] by simp
qed

end
