(* ===== verification/ZVM_Logic.thy ===== *)
theory ZVM_Logic
  imports ZVM_Interpreter State_Ledger
begin

text \<open>
  A small program logic for the machine. \<open>runs B m Q\<close> says that \<open>m\<close> either gives a result that
  satisfies \<open>Q\<close> or a panic that \<open>B\<close> allows. \<open>zext\<close> relates the machine before and after: the
  world state has moved as \<open>moves\<close> allows (so that a snapshot taken before can be reverted, no
  balance is lost, and nothing changes in read-only mode), and the depth and the read-only flag are
  as they were. The lemmas show it for the gas functions and for every
  instruction that makes no call.
\<close>

section \<open>Results and panics\<close>

definition runs :: "(panic \<Rightarrow> bool) \<Rightarrow> 'a go \<Rightarrow> ('a \<Rightarrow> bool) \<Rightarrow> bool" where
  "runs B m Q \<longleftrightarrow> (case m of Inl p \<Rightarrow> B p | Inr a \<Rightarrow> Q a)"

named_theorems runs_simps \<open>weakest preconditions of the primitive operations\<close>

lemma runs_Inr [simp, runs_simps]: "runs B (Inr a) Q = Q a"
  by (simp add: runs_def)

lemma runs_Inl [simp, runs_simps]: "runs B (Inl p) Q = B p"
  by (simp add: runs_def)

lemma runs_andThen [simp, runs_simps]: "runs B (andThen m k) Q = runs B m (\<lambda>a. runs B (k a) Q)"
  by (cases m) (simp_all add: runs_def)

lemma runs_mono: "runs B m P \<Longrightarrow> (\<And>a. P a \<Longrightarrow> Q a) \<Longrightarrow> runs B m Q"
  by (cases m) (simp_all add: runs_def)

lemma runs_conj: "runs B m P \<Longrightarrow> runs B m Q \<Longrightarrow> runs B m (\<lambda>a. P a \<and> Q a)"
  by (cases m) (simp_all add: runs_def)

lemma runs_D: "runs B m Q \<Longrightarrow> m = Inr a \<Longrightarrow> Q a"
  by (simp add: runs_def)

lemma runs_if [runs_simps]: "runs B (if c then m else m') Q = (if c then runs B m Q else runs B m' Q)"
  by simp

text \<open>Any panic is allowed but the exhaustion of the fuel.\<close>

definition fuelled :: "panic \<Rightarrow> bool" where
  "fuelled p \<longleftrightarrow> p \<noteq> OutOfFuel"

lemma fuelled_simps [simp]:
  "fuelled IndexOutOfRange" "fuelled NilDereference" "fuelled (PanicMsg m)" "\<not> fuelled OutOfFuel"
  by (simp_all add: fuelled_def)

abbreviation retf :: "'a go \<Rightarrow> ('a \<Rightarrow> bool) \<Rightarrow> bool" where
  "retf \<equiv> runs fuelled"

lemma retf_pop [runs_simps]: "retf (pop st) Q = (\<forall>x xs. st = x # xs \<longrightarrow> Q (x, xs))"
  by (cases st) (simp_all add: pop_def)

lemma retf_Back [runs_simps]: "retf (Back st n) Q = (n < length st \<longrightarrow> Q (st ! n))"
  by (simp add: Back_def)

lemma retf_peek [runs_simps]: "retf (peek st) Q = (st \<noteq> [] \<longrightarrow> Q (st ! 0))"
  by (simp add: peek_def retf_Back)

lemma retf_any: "(\<And>a. m = Inr a \<Longrightarrow> Q a) \<Longrightarrow> m \<noteq> Inl OutOfFuel \<Longrightarrow> retf m Q"
  by (cases m) (auto simp: runs_def fuelled_def)

lemma retf_go_slice: "(\<And>ys. Q ys) \<Longrightarrow> retf (go_slice xs i j) Q"
  by (simp add: go_slice_def)

lemma retf_go_index: "(\<And>y. Q y) \<Longrightarrow> retf (go_index xs i) Q"
  by (simp add: go_index_def)

lemma retf_slice_bound: "(\<And>ys. unat i \<le> length xs \<Longrightarrow> Q ys) \<Longrightarrow> retf (go_slice xs (uint i) j) Q"
proof (cases "unat i \<le> length xs")
  case False
  moreover have "int (unat i) = uint i"
    by simp
  ultimately have "\<not> (uint i \<le> j \<and> j \<le> int (length xs))"
    by linarith
  then show ?thesis by (auto simp: go_slice_def)
qed (simp add: retf_go_slice)

lemma mem_ok_store: "mem_ok m \<Longrightarrow> length st = length (store m) \<Longrightarrow> mem_ok (m\<lparr>store := st\<rparr>)"
  by (simp add: mem_ok_def)

lemma retf_getData: "(\<And>ys. Q ys) \<Longrightarrow> retf (getData xs i j) Q"
  by (simp add: getData_def Let_def retf_go_slice)

lemma retf_Mem_Get:
  "(\<And>b. P b) \<Longrightarrow> retf (Mem_GetCopy m k l) P" "(\<And>b. P b) \<Longrightarrow> retf (Mem_GetPtr m k l) P"
  by (auto simp: Mem_GetCopy_def Mem_GetPtr_def intro: retf_go_slice)

lemma retf_Mem_Set:
  assumes m: "mem_ok m" and Q: "\<And>m'. mem_ok m' \<Longrightarrow> Q m'"
  shows "retf (Mem_Set m i j b) Q" "retf (Mem_Set32 m i v) Q" "retf (Mem_Set8 m i x) Q"
proof -
  have c: "Q (m\<lparr>store := copy_at (store m) (unat i) b\<rparr>)" if "unat i \<le> length (store m)" for b
    using that by (intro Q mem_ok_store [OF m]) simp
  show "retf (Mem_Set m i j b) Q"
    using c Q [OF m] by (auto simp: Mem_Set_def intro!: retf_slice_bound)
  show "retf (Mem_Set32 m i v) Q"
    using c by (auto simp: Mem_Set32_def intro!: retf_slice_bound)
  have "Q (m\<lparr>store := (store m)[unat i := x]\<rparr>)"
    by (intro Q mem_ok_store [OF m]) simp
  then show "retf (Mem_Set8 m i x) Q"
    by (auto simp: Mem_Set8_def intro!: retf_go_index)
qed

lemma retf_dup: "(\<And>st'. Q st') \<Longrightarrow> retf (dup n st) Q"
  by (simp add: dup_def)

lemma retf_swap: "(\<And>st'. Q st') \<Longrightarrow> retf (swap n st) Q"
  by (simp add: swap_def)

lemmas retf_intros = retf_go_slice retf_go_index retf_getData retf_Mem_Get retf_Mem_Set retf_dup retf_swap

section \<open>The machine before and after\<close>

definition zext :: "zvm \<Rightarrow> zvm \<Rightarrow> bool" where
  "zext z z' \<longleftrightarrow> moves (readOnly z) (StateDB z) (StateDB z') \<and> z_depth z' = z_depth z \<and> readOnly z' = readOnly z"

lemma zext_refl: "state_ok (StateDB z) \<Longrightarrow> zext z z"
  by (simp add: zext_def moves_refl)

lemma zext_trans [trans]: "zext z z' \<Longrightarrow> zext z' z'' \<Longrightarrow> zext z z''"
  by (auto simp: zext_def intro: moves_trans)

lemma zext_ok: "zext z z' \<Longrightarrow> state_ok (StateDB z')"
  by (auto simp: zext_def moves_state_ok)

lemma setDB_sel [simp]:
  "StateDB (setDB s z) = s" "z_depth (setDB s z) = z_depth z" "readOnly (setDB s z) = readOnly z"
  "callGasTemp (setDB s z) = callGasTemp z" "returnData (setDB s z) = returnData z"
  "z_jumpdests (setDB s z) = z_jumpdests z" "aborts (setDB s z) = aborts z"
  by (simp_all add: setDB_def)

lemma zext_setDB: "zext z (setDB s z) = moves (readOnly z) (StateDB z) s"
  by (simp add: zext_def)

lemma zext_other [simp]:
  "zext z (z'\<lparr>callGasTemp := g\<rparr>) = zext z z'" "zext z (z'\<lparr>returnData := r\<rparr>) = zext z z'"
  "zext z (z'\<lparr>z_jumpdests := j\<rparr>) = zext z z'" "zext z (z'\<lparr>aborts := b\<rparr>) = zext z z'"
  by (simp_all add: zext_def)

text \<open>A gas function touches the memory's price and, in between, the contract's gas.\<close>

definition unpriced :: "frame \<Rightarrow> frame" where
  "unpriced f = f\<lparr>f_mem := (f_mem f)\<lparr>lastGasCost := 0\<rparr>, f_con := (f_con f)\<lparr>Gas := 0\<rparr>\<rparr>"

definition same_frame :: "frame \<Rightarrow> frame \<Rightarrow> bool" where
  "same_frame f f' \<longleftrightarrow> unpriced f' = unpriced f"

lemma same_frame_refl [simp]: "same_frame f f"
  by (simp add: same_frame_def)

lemma same_frame_trans: "same_frame f f' \<Longrightarrow> same_frame f' f'' \<Longrightarrow> same_frame f f''"
  by (simp add: same_frame_def)

lemma same_frame_simps [simp]:
  "same_frame f (f'\<lparr>f_mem := (f_mem f')\<lparr>lastGasCost := l\<rparr>\<rparr>) = same_frame f f'"
  "same_frame f (f'\<lparr>f_con := (f_con f')\<lparr>Gas := g\<rparr>\<rparr>) = same_frame f f'"
  by (simp_all add: same_frame_def unpriced_def)

lemma same_frame_sel:
  assumes "same_frame f f'"
  shows "f_stk f' = f_stk f" "f_pc f' = f_pc f" "store (f_mem f') = store (f_mem f)"
    "\<And>g. (f_con f')\<lparr>Gas := g\<rparr> = (f_con f)\<lparr>Gas := g\<rparr>"
proof -
  have u: "f_stk (unpriced h) = f_stk h" "f_pc (unpriced h) = f_pc h"
    "store (f_mem (unpriced h)) = store (f_mem h)"
    "(f_con (unpriced h))\<lparr>Gas := g\<rparr> = (f_con h)\<lparr>Gas := g\<rparr>" for h g
    by (simp_all add: unpriced_def)
  show "f_stk f' = f_stk f" "f_pc f' = f_pc f" "store (f_mem f') = store (f_mem f)"
    "(f_con f')\<lparr>Gas := g\<rparr> = (f_con f)\<lparr>Gas := g\<rparr>" for g
    using assms u [where h = f] u [where h = f'] by (simp_all add: same_frame_def)
qed

section \<open>Gas functions\<close>

text \<open>A gas function that returns a price has priced the memory it was asked for. Those of
  instructions without dynamic memory are asked for none.\<close>

definition gas_post :: "frame \<Rightarrow> uint64 \<Rightarrow> zvm \<Rightarrow> (vmerror + uint64) \<times> frame \<times> zvm \<Rightarrow> bool" where
  "gas_post f ms z = (\<lambda>(r, f', z'). zext z z' \<and> same_frame f f' \<and>
     unat (Gas (f_con f')) \<le> unat (Gas (f_con f)) \<and>
     (\<forall>c. r = Inr c \<longrightarrow> Gas (f_con f') = Gas (f_con f) \<and>
        (\<exists>g. memoryGasCost (f_mem f) ms = Inr (g, f_mem f'))))"

definition gas_good :: "bool \<Rightarrow> gasFunc \<Rightarrow> bool" where
  "gas_good withMem g \<longleftrightarrow> (\<forall>E f ms z. state_ok (StateDB z) \<longrightarrow> mem_ok (f_mem f) \<longrightarrow> withMem \<or> ms = 0 \<longrightarrow>
     retf (g E f ms z) (gas_post f ms z))"

lemma gas_goodI:
  "(\<And>E f ms z. state_ok (StateDB z) \<Longrightarrow> mem_ok (f_mem f) \<Longrightarrow> withMem \<or> ms = 0 \<Longrightarrow>
     retf (g E f ms z) (gas_post f ms z)) \<Longrightarrow> gas_good withMem g"
  by (simp add: gas_good_def)

lemma memoryGasCost_0 [simp]: "memoryGasCost m 0 = Inr (0, m)"
  by (simp add: memoryGasCost_def)

lemma retf_gasErr [runs_simps]: "retf (gasErr e f z) Q = Q (Inl e, f, z)"
  by (simp add: gasErr_def)

lemma retf_gasIs [runs_simps]: "retf (gasIs g f z) Q = Q (Inr g, f, z)"
  by (simp add: gasIs_def)

lemma retf_addGas [runs_simps]:
  "retf (addGas a b f z k) Q = (if unat a + unat b < 2 ^ 64 then retf (k (a + b)) Q
     else Q (Inl ErrGasUintOverflow, f, z))"
proof (cases "SafeAdd a b")
  case (Pair g ov)
  show ?thesis
  proof (cases ov)
    case False
    then have "unat g = unat a + unat b" "g = a + b"
      using Pair SafeAdd_eq [of a b g] by (auto simp: SafeAdd_def)
    then show ?thesis
      using Pair False unat_u64_less [of g] by (simp add: addGas_def)
  next
    case True
    then have "\<not> unat a + unat b < 2 ^ 64"
      using Pair SafeAdd_eq [of a b "a + b"] unat_u64_add [of a b] by (auto simp: SafeAdd_def)
    then show ?thesis
      using Pair True by (simp add: addGas_def retf_gasErr)
  qed
qed

lemma retf_mulGas:
  "Q (Inl ErrGasUintOverflow, f, z) \<Longrightarrow> (\<And>g. retf (k g) Q) \<Longrightarrow> retf (mulGas a b f z k) Q"
  by (simp add: mulGas_def runs_simps split: prod.split)

lemma memoryGasCost_last:
  "memoryGasCost m ms = Inr (g, m') \<Longrightarrow> \<exists>l. m' = m\<lparr>lastGasCost := l\<rparr>"
  by (auto simp: memoryGasCost_def Let_def split: if_splits intro: exI [of _ "lastGasCost m"])

lemma retf_withMemoryGas:
  assumes "\<And>e. Q (Inl e, f, z)"
    "\<And>gas l. memoryGasCost (f_mem f) ms = Inr (gas, (f_mem f)\<lparr>lastGasCost := l\<rparr>) \<Longrightarrow>
      retf (k gas (f\<lparr>f_mem := (f_mem f)\<lparr>lastGasCost := l\<rparr>\<rparr>)) Q"
  shows "retf (withMemoryGas f ms z k) Q"
  using assms memoryGasCost_last [of "f_mem f" ms]
  by (auto simp: withMemoryGas_def runs_simps split: sum.split)

lemma gas_post_here: "state_ok (StateDB z) \<Longrightarrow> same_frame f f' \<Longrightarrow> Gas (f_con f') = Gas (f_con f) \<Longrightarrow>
    \<exists>g. memoryGasCost (f_mem f) ms = Inr (g, f_mem f') \<Longrightarrow> gas_post f ms z (r, f', z)"
  by (simp add: gas_post_def zext_refl)

lemma gas_post_error: "state_ok (StateDB z) \<Longrightarrow> same_frame f f' \<Longrightarrow> Gas (f_con f') = Gas (f_con f) \<Longrightarrow>
    gas_post f ms z (Inl e, f', z)"
  by (simp add: gas_post_def zext_refl)

lemmas gas_intros = gas_post_error gas_post_here retf_mulGas retf_withMemoryGas

lemma memoryCopierGas_good: "gas_good True (memoryCopierGas n)"
  by (rule gas_goodI) (auto simp: memoryCopierGas_def runs_simps intro!: gas_intros)

lemma makeGasLog_good: "gas_good True (makeGasLog n)"
  by (rule gas_goodI) (auto simp: makeGasLog_def runs_simps intro!: gas_intros)

lemma gasKeccak256_good: "gas_good True gasKeccak256"
  by (rule gas_goodI) (auto simp: gasKeccak256_def runs_simps intro!: gas_intros)

lemma pureMemoryGascost_good: "gas_good True pureMemoryGascost"
  by (rule gas_goodI) (auto simp: pureMemoryGascost_def runs_simps intro!: gas_intros)

lemma gasCreate_good: "gas_good True gasCreateEip3860" "gas_good True gasCreate2Eip3860"
  by (rule gas_goodI; auto simp: gasCreateEip3860_def gasCreate2Eip3860_def runs_simps intro!: gas_intros)+

lemma gasExpEIP158_good: "gas_good False gasExpEIP158"
  by (rule gas_goodI) (auto simp: gasExpEIP158_def runs_simps Let_def intro!: gas_intros)

lemma retf_AddSlot: "state_ok s \<Longrightarrow> (\<And>s'. moves True s s' \<Longrightarrow> Q s') \<Longrightarrow> retf (AddSlotToAccessList a k s) Q"
  using AddSlotToAccessList_extends [of s a k] AddSlotToAccessList_moves [of s a k] by auto

lemma retf_SlotIn: "state_ok s \<Longrightarrow> (\<And>x y. Q (x, y)) \<Longrightarrow> retf (SlotInAccessList a k s) Q"
  using Contains_spec [of "accessL s" a k] by (simp add: SlotInAccessList_def state_ok_def wf_state_def)

lemma retf_SubRefund: "state_ok s \<Longrightarrow> (\<And>s'. moves True s s' \<Longrightarrow> Q s') \<Longrightarrow> retf (SubRefund g s) Q"
  using SubRefund_moves [of s g] by (cases "SubRefund g s") (auto simp: SubRefund_def Let_def split: if_splits)

lemma gasSLoad_good: "gas_good False gasSLoadEIP2929"
  by (rule gas_goodI)
    (auto simp: gasSLoadEIP2929_def runs_simps gas_post_def zext_refl zext_setDB
      intro!: retf_SlotIn retf_AddSlot intro: moves_any)

lemma gasAccountCheck_good: "gas_good False gasEip2929AccountCheck"
  by (rule gas_goodI)
    (auto simp: gasEip2929AccountCheck_def runs_simps gas_post_def zext_refl zext_setDB
      intro!: AddAddressToAccessList_moves)

lemma gasExtCodeCopy_good: "gas_good True gasExtCodeCopyEIP2929"
proof (rule gas_goodI)
  fix E ms and f :: frame and z :: zvm
  assume ok: "state_ok (StateDB z)" "mem_ok (f_mem f)"
  have "retf (gasExtCodeCopy E f ms z) (gas_post f ms z)"
    using memoryCopierGas_good ok by (simp add: gas_good_def gasExtCodeCopy_def)
  then show "retf (gasExtCodeCopyEIP2929 E f ms z) (gas_post f ms z)"
    unfolding gasExtCodeCopyEIP2929_def runs_andThen
  proof (rule runs_mono, clarify)
    fix r f' z'
    assume p: "gas_post f ms z (r, f', z')"
    then have "state_ok (StateDB z')"
      by (auto simp: gas_post_def intro: zext_ok)
    then have "zext z (setDB (AddAddressToAccessList a (StateDB z')) z')" for a
      using p AddAddressToAccessList_moves
      by (auto simp: gas_post_def zext_def intro: moves_trans)
    then show "retf (case r of Inl e \<Rightarrow> gasErr e f' z' | Inr gas \<Rightarrow>
         andThen (peek (f_stk f')) (\<lambda>a.
         if \<not> AddressInAccessList (Bytes20 a) (StateDB z') then
           let z = setDB (AddAddressToAccessList (Bytes20 a) (StateDB z')) z' in
           addGas gas (ColdAccountAccessCostEIP2929 - WarmStorageReadCostEIP2929) f' z (\<lambda>gas. gasIs gas f' z)
         else gasIs gas f' z')) (gas_post f ms z)"
      using p by (cases r) (auto simp: runs_simps gas_post_def Let_def)
  qed
qed

text \<open>\<open>SSTORE\<close> always costs something.\<close>

lemma sstoreCost_good:
  assumes "state_ok s" "cost = 0 \<or> cost = ColdSloadCostEIP2929"
  shows "retf (sstoreCost clr cost original current v s) (\<lambda>(g, s'). moves True s s' \<and> 0 < g)"
proof -
  have ar: "moves True s (AddRefund n s)" for n
    using assms(1) by (rule AddRefund_moves)
  have tail: "moves True s (AddRefund n s')" if "moves True s s'" for s' n
    using that AddRefund_moves [OF moves_state_ok [OF that]] moves_trans by blast
  have pos: "0 < cost + SstoreSetGasEIP2200" "0 < cost + (SstoreResetGasEIP2200 - ColdSloadCostEIP2929)"
    "0 < cost + WarmStorageReadCostEIP2929"
    using assms(2) by (auto simp: params)
  show ?thesis
    using pos ar tail moves_refl [OF assms(1)]
    by (auto simp: sstoreCost_def runs_simps Let_def intro!: retf_SubRefund [OF assms(1)])
qed

lemma warmSlot_good:
  assumes "state_ok s"
  shows "retf (warmSlot a x s) (\<lambda>(cost, s'). moves True s s' \<and> (cost = 0 \<or> cost = ColdSloadCostEIP2929))"
  using assms unfolding warmSlot_def runs_andThen
  by (intro retf_SlotIn) (auto simp: runs_simps moves_refl intro!: retf_AddSlot)

lemma sstorePrice_good:
  assumes ok: "state_ok s" and cost: "cost = 0 \<or> cost = ColdSloadCostEIP2929"
  shows "retf (sstorePrice clr a x current y cost s) (\<lambda>(g, s'). moves True s s' \<and> 0 < g)"
proof (cases "current = y")
  case True
  then show ?thesis
    using assms by (auto simp: sstorePrice_def params moves_refl)
next
  case False
  obtain original s2 where g: "GetCommittedState a x s = (original, s2)"
    by fastforce
  have s2: "moves True s s2"
    using GetCommittedState_read(1) [OF state_ok_wf [OF ok], of a x] g moves_quiet [OF ok] by simp
  have "retf (sstoreCost clr cost original current y s2) (\<lambda>(g, s'). moves True s s' \<and> 0 < g)"
    by (rule runs_mono [OF sstoreCost_good [OF moves_state_ok [OF s2] cost]])
      (use moves_trans [OF s2] in auto)
  then show ?thesis
    using False g by (simp add: sstorePrice_def)
qed

lemma makeGasSStore_good:
  assumes ok: "state_ok (StateDB z)"
  shows "retf (makeGasSStoreFunc clr E f 0 z)
    (\<lambda>(r, f', z'). gas_post f 0 z (r, f', z') \<and> (\<forall>c. r = Inr c \<longrightarrow> 0 < c))"
proof (cases "Gas (f_con f) \<le> SstoreSentryGasEIP2200 \<or> length (f_stk f) < 2")
  case True
  then show ?thesis
    using ok by (auto simp: makeGasSStoreFunc_def runs_simps gas_post_def zext_refl)
next
  case False
  obtain current s1 where g: "GetState (self (f_con f)) (f_stk f ! 0) (StateDB z) = (current, s1)"
    by fastforce
  have s1: "moves True (StateDB z) s1"
    using GetState_read(1) [OF state_ok_wf [OF ok], of "self (f_con f)" "f_stk f ! 0"] g
      moves_quiet [OF ok] by auto
  have "retf (warmSlot (self (f_con f)) (f_stk f ! 0) s1) (\<lambda>(cost, s). retf
      (sstorePrice clr (self (f_con f)) (f_stk f ! 0) current (f_stk f ! 1) cost s)
      (\<lambda>(g, s). moves True (StateDB z) s \<and> 0 < g))"
  proof (rule runs_mono [OF warmSlot_good [OF moves_state_ok [OF s1]]], clarify)
    fix cost s2
    assume e: "moves True s1 s2" "cost = 0 \<or> cost = ColdSloadCostEIP2929"
    have s2: "moves True (StateDB z) s2"
      using moves_trans [OF s1 e(1)] .
    show "retf (sstorePrice clr (self (f_con f)) (f_stk f ! 0) current (f_stk f ! 1) cost s2)
        (\<lambda>(g, s). moves True (StateDB z) s \<and> 0 < g)"
      by (rule runs_mono [OF sstorePrice_good [OF moves_state_ok [OF e(1)] e(2)]])
        (use moves_trans [OF s2] in auto)
  qed
  then have "retf (warmSlot (self (f_con f)) (f_stk f ! 0) s1) (\<lambda>(cost, s). retf
      (sstorePrice clr (self (f_con f)) (f_stk f ! 0) current (f_stk f ! 1) cost s)
      (\<lambda>(gas, s). retf (gasIs gas f (setDB s z))
        (\<lambda>(r, f', z'). gas_post f 0 z (r, f', z') \<and> (\<forall>c. r = Inr c \<longrightarrow> 0 < c))))"
    by (rule runs_mono) (auto elim!: runs_mono simp: retf_gasIs gas_post_def zext_setDB intro: moves_any)
  then show ?thesis
    using False g by (simp add: makeGasSStoreFunc_def retf_Back retf_peek Let_def case_prod_unfold)
qed

section \<open>Gas of calls\<close>

text \<open>The price of a call covers what the callee gets and, for \<open>CALL\<close> with a value, the transfer;
  it stays so far below the 64-bit limit that the price of a cold address can be added.\<close>

lemma callGas_room:
  assumes b: "unat base \<le> 2 ^ 57" and sum: "unat base + unat (callGas avail base cost) < 2 ^ 64"
    and a: "unat avail + 2500 < 2 ^ 64"
  shows "unat base + unat (callGas avail base cost) + 2500 < 2 ^ 64"
proof -
  let ?h = "avail - base"
  have "unat (?h - ?h div 64) = unat ?h - unat ?h div 64"
    by (subst unat_u64_sub) (simp_all add: unat_div)
  then have c: "unat (callGas avail base cost) \<le> unat ?h - unat ?h div 64"
    by (auto simp: callGas_def Let_def u64_order)
  show ?thesis
  proof (cases "unat base \<le> unat avail")
    case True
    then have "unat ?h = unat avail - unat base"
      by (rule unat_u64_sub)
    then show ?thesis
      using c a True by linarith
  next
    case False
    then have "unat ?h = 2 ^ 64 + unat avail - unat base"
      using unat_sub_if' [of avail base] by simp
    moreover have "2 ^ 64 - 2 ^ 57 \<le> unat ?h"
      using calculation b by simp
    then have "2 ^ 58 - 2 ^ 51 \<le> unat ?h div 64"
      by (simp add: div_le_mono)
    ultimately show ?thesis
      using c b False by simp
  qed
qed

definition transfer_cost :: "frame \<Rightarrow> nat" where
  "transfer_cost f = (if f_stk f ! 2 \<noteq> 0 then 9000 else 0)"

definition call_post :: "nat \<Rightarrow> frame \<Rightarrow> uint64 \<Rightarrow> zvm \<Rightarrow> (vmerror + uint64) \<times> frame \<times> zvm \<Rightarrow> bool" where
  "call_post extra f ms z = (\<lambda>(r, f', z'). gas_post f ms z (r, f', z') \<and>
     (\<forall>c. r = Inr c \<longrightarrow> unat (callGasTemp z') + extra \<le> unat c \<and>
        (unat (Gas (f_con f)) + 2500 < 2 ^ 64 \<longrightarrow> unat c + 2500 < 2 ^ 64)))"

lemma mem_price_bound:
  assumes "mem_ok m" "memoryGasCost m ms = Inr (g, m')"
  shows "unat g \<le> 36028809887088637"
proof (cases "length (store m) div 32 < words_of ms")
  case True
  then have le: "unat ms \<le> 0x1FFFFFFFE0" "g = of_nat (mem_fee (words_of ms) - mem_fee (length (store m) div 32))"
    using assms memoryGasCost_exact [OF assms(1), of ms] by (auto split: if_splits)
  have "mem_fee (words_of ms) \<le> 36028809887088637"
    using le(1) by (intro mem_fee_bound) simp
  then show ?thesis
    by (simp add: le(2) unat_of_nat)
next
  case False
  then show ?thesis
    using assms memoryGasCost_exact [OF assms(1), of ms] by (auto split: if_splits)
qed

lemma chargeCallGas_good:
  assumes post: "gas_post f ms z (Inr g, f', z')" and b: "unat gas \<le> 2 ^ 57" "extra \<le> unat gas"
    and gas: "Gas (f_con f') = Gas (f_con f)"
  shows "retf (chargeCallGas gas f' z') (call_post extra f ms z)"
  using post b callGas_room [OF b(1), of "Gas (f_con f)" "f_stk f' ! 0"] gas
  by (auto simp: chargeCallGas_def runs_simps Let_def call_post_def gas_post_def unat_u64_add)

lemma plain_call_good:
  assumes ok: "state_ok (StateDB z)" "mem_ok (f_mem f)"
  shows "retf (withMemoryGas f ms z (\<lambda>gas f. chargeCallGas gas f z)) (call_post 0 f ms z)"
proof (rule retf_withMemoryGas)
  fix gas l
  assume m: "memoryGasCost (f_mem f) ms = Inr (gas, (f_mem f)\<lparr>lastGasCost := l\<rparr>)"
  show "retf (chargeCallGas gas (f\<lparr>f_mem := (f_mem f)\<lparr>lastGasCost := l\<rparr>\<rparr>) z) (call_post 0 f ms z)"
    using mem_price_bound [OF ok(2) m] m ok(1)
    by (intro chargeCallGas_good [where g = gas] gas_post_here) auto
qed (use ok(1) in \<open>simp add: call_post_def gas_post_error\<close>)

lemma gasDelegateCall_good:
  "state_ok (StateDB z) \<Longrightarrow> mem_ok (f_mem f) \<Longrightarrow> retf (gasDelegateCall E f ms z) (call_post 0 f ms z)"
  "state_ok (StateDB z) \<Longrightarrow> mem_ok (f_mem f) \<Longrightarrow> retf (gasStaticCall E f ms z) (call_post 0 f ms z)"
  by (simp_all add: gasDelegateCall_def gasStaticCall_def plain_call_good)

lemma gasCall_good:
  assumes ok: "state_ok (StateDB z)" "mem_ok (f_mem f)"
  shows "retf (gasCall E f ms z) (call_post (transfer_cost f) f ms z)"
proof -
  obtain em s where e: "(if f_stk f ! 2 \<noteq> 0 then Empty (Bytes20 (f_stk f ! 1)) (StateDB z) else (False, StateDB z)) = (em, s)"
    by fastforce
  have s: "moves (readOnly z) (StateDB z) s"
    using e moves_quiet [OF ok(1)] Empty_read(1) [OF state_ok_wf [OF ok(1)], of "Bytes20 (f_stk f ! 1)"]
      moves_refl [OF ok(1)] by (auto split: if_splits)
  define base where "base = (if f_stk f ! 2 \<noteq> 0 then (if f_stk f ! 2 \<noteq> 0 \<and> em then CallNewAccountGas else 0) + CallValueTransferGas
      else (if f_stk f ! 2 \<noteq> 0 \<and> em then CallNewAccountGas else 0))"
  have base: "unat base \<le> 34000" "transfer_cost f \<le> unat base"
    by (auto simp: base_def transfer_cost_def params)
  have "retf (withMemoryGas f ms (setDB s z) (\<lambda>memoryGas f. addGas base memoryGas f (setDB s z)
      (\<lambda>gas. chargeCallGas gas f (setDB s z)))) (call_post (transfer_cost f) f ms z)"
  proof (rule retf_withMemoryGas)
    fix mg l
    assume m: "memoryGasCost (f_mem f) ms = Inr (mg, (f_mem f)\<lparr>lastGasCost := l\<rparr>)"
    let ?f = "f\<lparr>f_mem := (f_mem f)\<lparr>lastGasCost := l\<rparr>\<rparr>"
    have "unat mg \<le> 36028809887088637"
      by (rule mem_price_bound [OF ok(2) m])
    then have "unat (base + mg) = unat base + unat mg"
      using base by (intro unat_u64_add) simp
    then have "retf (chargeCallGas (base + mg) ?f (setDB s z)) (call_post (transfer_cost f) f ms z)"
      using \<open>unat mg \<le> _\<close> base m s
      by (intro chargeCallGas_good [where g = mg]) (auto simp: gas_post_def zext_setDB)
    then show "retf (addGas base mg ?f (setDB s z) (\<lambda>gas. chargeCallGas gas ?f (setDB s z)))
        (call_post (transfer_cost f) f ms z)"
      using s by (simp add: retf_addGas call_post_def gas_post_def zext_setDB)
  qed (use s in \<open>simp add: call_post_def gas_post_def zext_setDB\<close>)
  then show ?thesis
    using e by (auto simp: gasCall_def retf_Back Let_def base_def split: if_splits)
qed

lemma callVariant_good:
  assumes old: "\<And>f z. state_ok (StateDB z) \<Longrightarrow> mem_ok (f_mem f) \<Longrightarrow> retf (old E f ms z) (call_post (extra f) f ms z)"
    and ex: "\<And>c. extra (f\<lparr>f_con := c\<rparr>) = extra f"
    and ok: "state_ok (StateDB z)" "mem_ok (f_mem f)"
  shows "retf (makeCallVariantGasCallEIP2929 old E f ms z) (\<lambda>(r, f', z'). gas_post f ms z (r, f', z') \<and>
    (\<forall>c. r = Inr c \<longrightarrow> unat (callGasTemp z') + extra f \<le> unat c))"
    (is "retf _ ?Q")
proof (cases "AddressInAccessList (Bytes20 (f_stk f ! 1)) (StateDB z)")
  case True
  then show ?thesis
    by (simp add: makeCallVariantGasCallEIP2929_def retf_Back Let_def)
      (intro impI runs_mono [OF old [OF ok]], auto simp: call_post_def runs_simps split: sum.split)
next
  case False
  let ?z = "setDB (AddAddressToAccessList (Bytes20 (f_stk f ! 1)) (StateDB z)) z"
  let ?cold = "ColdAccountAccessCostEIP2929 - WarmStorageReadCostEIP2929"
  have zz: "zext z ?z"
    using AddAddressToAccessList_moves [OF ok(1)] by (simp add: zext_setDB)
  have cold: "unat ?cold = 2500"
    by (simp add: params)
  show ?thesis
  proof (cases "Gas (f_con f) < ?cold")
    case True
    then show ?thesis
      using False zz by (simp add: makeCallVariantGasCallEIP2929_def retf_Back Let_def UseGas_def runs_simps gas_post_def)
  next
    case paid: False
    let ?f = "f\<lparr>f_con := (f_con f)\<lparr>Gas := Gas (f_con f) - ?cold\<rparr>\<rparr>"
    have g: "unat (Gas (f_con f) - ?cold) + 2500 = unat (Gas (f_con f))"
      using paid cold by (subst unat_u64_sub) (simp_all add: u64_order)
    have step: "retf (case r of Inl e \<Rightarrow> gasErr e f' z' | Inr gas \<Rightarrow>
          gasIs (gas + ?cold) (f'\<lparr>f_con := (f_con f')\<lparr>Gas := Gas (f_con f') + ?cold\<rparr>\<rparr>) z') ?Q"
      if p: "call_post (extra ?f) ?f ms ?z (r, f', z')" for r f' z'
    proof -
      have le: "unat (Gas (f_con f')) \<le> unat (Gas (f_con f))" and fr: "same_frame f f'" and ze: "zext z z'"
        using p g zext_trans [OF zz] by (auto simp: call_post_def gas_post_def same_frame_def unpriced_def)
      show ?thesis
      proof (cases r)
        case (Inl e)
        then show ?thesis
          using le fr ze by (simp add: runs_simps gas_post_def)
      next
        case (Inr c)
        have "unat c + 2500 < 2 ^ 64"
          using p Inr g unat_u64_less [of "Gas (f_con f)"] by (simp add: call_post_def)
        then have "unat (c + ?cold) = unat c + 2500"
          using cold by (subst unat_u64_add) simp_all
        then show ?thesis
          using p Inr fr ze ex False by (auto simp: runs_simps call_post_def gas_post_def)
      qed
    qed
    have "retf (old E ?f ms ?z) (call_post (extra ?f) ?f ms ?z)"
      using zext_ok [OF zz] ok(2) by (intro old) simp_all
    then show ?thesis
      using False paid
      by (simp add: makeCallVariantGasCallEIP2929_def retf_Back Let_def UseGas_def)
        (intro impI, erule runs_mono, simp only: split_paired_all prod.case if_False, erule step [unfolded One_nat_def])
  qed
qed

lemma call_gas_good:
  assumes "state_ok (StateDB z)" "mem_ok (f_mem f)"
  shows "retf (gasCallEIP2929 E f ms z) (\<lambda>(r, f', z'). gas_post f ms z (r, f', z') \<and>
      (\<forall>c. r = Inr c \<longrightarrow> unat (callGasTemp z') + transfer_cost f \<le> unat c))"
    "retf (gasDelegateCallEIP2929 E f ms z) (\<lambda>(r, f', z'). gas_post f ms z (r, f', z') \<and>
      (\<forall>c. r = Inr c \<longrightarrow> unat (callGasTemp z') + 0 \<le> unat c))"
    "retf (gasStaticCallEIP2929 E f ms z) (\<lambda>(r, f', z'). gas_post f ms z (r, f', z') \<and>
      (\<forall>c. r = Inr c \<longrightarrow> unat (callGasTemp z') + 0 \<le> unat c))"
  unfolding gasCallEIP2929_def gasDelegateCallEIP2929_def gasStaticCallEIP2929_def
  by (rule callVariant_good [OF gasCall_good _ assms] callVariant_good [OF gasDelegateCall_good(1) _ assms]
      callVariant_good [OF gasDelegateCall_good(2) _ assms]; simp add: transfer_cost_def)+

end
