(* ===== verification/ZVM_Exec.thy ===== *)
theory ZVM_Exec
  imports ZVM_Logic
begin

text \<open>
  The instructions that make no call: each of them moves the world state within bounds, leaves the depth, the
  read-only flag and the gas alone, keeps the memory well-formed, and never runs out of fuel.
\<close>

definition exec_post :: "frame \<Rightarrow> zvm \<Rightarrow> (bytes \<times> vmerror option) \<times> frame \<times> zvm \<Rightarrow> bool" where
  "exec_post f z = (\<lambda>(r, f', z'). zext z z' \<and> Gas (f_con f') = Gas (f_con f) \<and> mem_ok (f_mem f'))"

definition exec_good :: "executionFunc \<Rightarrow> bool" where
  "exec_good ex \<longleftrightarrow> (\<forall>E run f z. state_ok (StateDB z) \<longrightarrow> mem_ok (f_mem f) \<longrightarrow>
     retf (ex E run f z) (exec_post f z))"

lemma exec_goodI:
  "(\<And>E run f z. state_ok (StateDB z) \<Longrightarrow> mem_ok (f_mem f) \<Longrightarrow> retf (ex E run f z) (exec_post f z)) \<Longrightarrow>
   exec_good ex"
  by (simp add: exec_good_def)

lemma retf_cont [runs_simps]: "retf (cont f z) Q = Q (([], None), f, z)"
  by (simp add: cont_def)

lemma retf_opErr [runs_simps]: "retf (opErr e f z) Q = Q (([], Some e), f, z)"
  by (simp add: opErr_def)

lemma retf_pushop [runs_simps]: "retf (pushop v f z) Q = Q (([], None), f\<lparr>f_stk := push v (f_stk f)\<rparr>, z)"
  by (simp add: pushop_def retf_cont)

lemma shapes_good:
  assumes "state_ok (StateDB z)" "mem_ok (f_mem f)"
  shows "retf (unop g1 f z) (exec_post f z)" "retf (binop g2 f z) (exec_post f z)"
    "retf (ternop g3 f z) (exec_post f z)" "retf (pushop v f z) (exec_post f z)"
    "retf (cont f z) (exec_post f z)" "retf (opErr e f z) (exec_post f z)"
  using assms by (auto simp: unop_def binop_def ternop_def runs_simps exec_post_def zext_refl)

lemma arith_good:
  "exec_good opAdd" "exec_good opSub" "exec_good opMul" "exec_good opDiv" "exec_good opSdiv"
  "exec_good opMod" "exec_good opSmod" "exec_good opExp" "exec_good opSignExtend" "exec_good opNot"
  "exec_good opLt" "exec_good opGt" "exec_good opSlt" "exec_good opSgt" "exec_good opEq"
  "exec_good opIszero" "exec_good opAnd" "exec_good opOr" "exec_good opXor" "exec_good opByte"
  "exec_good opAddmod" "exec_good opMulmod" "exec_good opSHL" "exec_good opSHR" "exec_good opSAR"
  by (simp_all add: exec_good_def shapes_good opAdd_def opSub_def opMul_def opDiv_def opSdiv_def
      opMod_def opSmod_def opExp_def opSignExtend_def opNot_def opLt_def opGt_def opSlt_def opSgt_def
      opEq_def opIszero_def opAnd_def opOr_def opXor_def opByte_def opAddmod_def opMulmod_def
      opSHL_def opSHR_def opSAR_def)

lemma context_good:
  "exec_good opAddress" "exec_good opOrigin" "exec_good opCaller" "exec_good opCallValue"
  "exec_good opCallDataSize" "exec_good opReturnDataSize" "exec_good opCodeSize" "exec_good opGasprice"
  "exec_good opBlockhash" "exec_good opCoinbase" "exec_good opTimestamp" "exec_good opNumber"
  "exec_good opGasLimit" "exec_good opChainID" "exec_good opJumpdest" "exec_good opPc"
  "exec_good opMsize" "exec_good opGas" "exec_good opStop" "exec_good opPush0"
  by (simp_all add: exec_good_def shapes_good opAddress_def opOrigin_def opCaller_def opCallValue_def
      opCallDataSize_def opReturnDataSize_def opCodeSize_def opGasprice_def opBlockhash_def opCoinbase_def
      opTimestamp_def opNumber_def opGasLimit_def opChainID_def opJumpdest_def opPc_def opMsize_def
      opGas_def opStop_def opPush0_def)

lemma block_good: "exec_good opRandom" "exec_good opBaseFee"
  by (auto simp: exec_good_def opRandom_def opBaseFee_def shapes_good split: option.split)

lemma stack_good:
  "exec_good opPop" "exec_good (makeDup n)" "exec_good (makeSwap n)" "exec_good opPush1"
  "exec_good (makePush k n)" "exec_good opUndefined"
  by (auto simp: exec_good_def opPop_def makeDup_def makeSwap_def opPush1_def makePush_def opUndefined_def
      runs_simps exec_post_def zext_refl Let_def intro!: retf_intros)

lemma memory_good:
  "exec_good opMload" "exec_good opMstore" "exec_good opMstore8" "exec_good opCallDataLoad"
  "exec_good opCallDataCopy" "exec_good opReturnDataCopy" "exec_good opCodeCopy"
  "exec_good opReturn" "exec_good opRevert"
  by (auto simp: exec_good_def opMload_def opMstore_def opMstore8_def opCallDataLoad_def opCallDataCopy_def
      opReturnDataCopy_def opCodeCopy_def opReturn_def opRevert_def runs_simps exec_post_def zext_refl Let_def
      intro!: retf_intros)

text \<open>Reads and writes of the world state.\<close>

lemma quiet_zext: "state_ok (StateDB z) \<Longrightarrow> quiet (StateDB z) s \<Longrightarrow> zext z (setDB s z)"
  by (simp add: zext_setDB moves_quiet)

lemma read_zext:
  assumes "state_ok (StateDB z)"
  shows "GetBalance a (StateDB z) = (b, s) \<Longrightarrow> zext z (setDB s z)"
    "GetCodeSize a (StateDB z) = (n, s) \<Longrightarrow> zext z (setDB s z)"
    "GetCode a (StateDB z) = (c, s) \<Longrightarrow> zext z (setDB s z)"
    "GetCodeHash a (StateDB z) = (h, s) \<Longrightarrow> zext z (setDB s z)"
    "Empty a (StateDB z) = (e, s) \<Longrightarrow> zext z (setDB s z)"
    "GetState a k (StateDB z) = (v, s) \<Longrightarrow> zext z (setDB s z)"
proof -
  note wf = state_ok_wf [OF assms] and q = quiet_zext [OF assms]
  show "GetBalance a (StateDB z) = (b, s) \<Longrightarrow> zext z (setDB s z)"
    using GetBalance_read(1) [OF wf, of a] q by simp
  show "GetCodeSize a (StateDB z) = (n, s) \<Longrightarrow> zext z (setDB s z)"
    using GetCodeSize_quiet [of "StateDB z" a] q by simp
  show "GetCode a (StateDB z) = (c, s) \<Longrightarrow> zext z (setDB s z)"
    using GetCode_read(1) [OF wf, of a] q by simp
  show "GetCodeHash a (StateDB z) = (h, s) \<Longrightarrow> zext z (setDB s z)"
    using GetCodeHash_read(1) [OF wf, of a] q by simp
  show "Empty a (StateDB z) = (e, s) \<Longrightarrow> zext z (setDB s z)"
    using Empty_read(1) [OF wf, of a] q by simp
  show "GetState a k (StateDB z) = (v, s) \<Longrightarrow> zext z (setDB s z)"
    using GetState_read(1) [OF wf, of a k] q by simp
qed

lemma state_read_good:
  "exec_good opBalance" "exec_good opSelfBalance" "exec_good opExtCodeSize" "exec_good opSload"
  by (auto simp: exec_good_def opBalance_def opSelfBalance_def opExtCodeSize_def opSload_def runs_simps
      exec_post_def read_zext split: prod.split)

lemma opExtCodeCopy_good: "exec_good opExtCodeCopy"
  by (auto simp: exec_good_def opExtCodeCopy_def runs_simps exec_post_def read_zext split: prod.split
      intro!: retf_intros)

lemma opExtCodeHash_good: "exec_good opExtCodeHash"
proof (rule exec_goodI)
  fix E run and f :: frame and z :: zvm
  assume ok: "state_ok (StateDB z)" "mem_ok (f_mem f)"
  obtain e s where e: "Empty (Bytes20 (f_stk f ! 0)) (StateDB z) = (e, s)"
    by fastforce
  obtain h s' where h: "GetCodeHash (Bytes20 (f_stk f ! 0)) s = (h, s')"
    by fastforce
  have z1: "zext z (setDB s z)"
    by (rule read_zext(5) [OF ok(1) e])
  have "zext (setDB s z) (setDB s' (setDB s z))"
    using zext_ok [OF z1] h by (intro read_zext(4)) simp_all
  then have "zext z (setDB s' z)"
    using zext_trans [OF z1] by (simp add: setDB_def)
  then show "retf (opExtCodeHash E run f z) (exec_post f z)"
    using e h z1 ok(2) by (simp add: opExtCodeHash_def runs_simps exec_post_def)
qed

lemma opKeccak256_good: "exec_good opKeccak256"
  by (auto simp: exec_good_def opKeccak256_def runs_simps exec_post_def Let_def zext_setDB zext_refl
      AddPreimage_moves intro!: retf_intros)

lemma opSstore_good: "exec_good opSstore"
  by (auto simp: exec_good_def opSstore_def runs_simps exec_post_def zext_setDB zext_refl write_moves(3))

lemma retf_popN: "(\<And>xs st'. Q (xs, st')) \<Longrightarrow> retf (popN n st) Q"
  by (induction n arbitrary: st Q) (auto simp: runs_simps)

lemma makeLog_good: "exec_good (makeLog n)"
  by (auto simp: exec_good_def makeLog_def runs_simps exec_post_def zext_setDB zext_refl AddLog_moves
      intro!: retf_popN retf_intros)

text \<open>Jumps.\<close>

lemma retf_validJumpdest:
  assumes Q: "\<And>ok con' jd'. Gas con' = Gas con \<Longrightarrow> Q (ok, con', jd')"
  shows "retf (validJumpdest con jd d) Q"
proof -
  obtain bm where bm: "codeBitmap (Code con) = Inr bm"
    using codeBitmap_correct by blast
  have "retf (isCode con jd n) Q" for n
    using Q bm by (auto simp: isCode_def codeSegment_def Let_def runs_simps split: option.split
        intro!: retf_go_index)
  then show ?thesis
    using Q by (simp add: validJumpdest_def)
qed

lemma jumpTo_good:
  assumes "zext z z'" "mem_ok (f_mem f)"
  shows "retf (jumpTo pos f z') (exec_post f z)"
  unfolding jumpTo_def runs_andThen
  by (rule retf_validJumpdest) (use assms in \<open>simp add: runs_simps exec_post_def Let_def\<close>)

lemma abort_zext: "state_ok (StateDB z) \<Longrightarrow> abort_Load z = (b, z') \<Longrightarrow> zext z z'"
  by (auto simp: abort_Load_def zext_refl)

lemma jump_stack:
  assumes "zext z z'" "mem_ok (f_mem f)"
  shows "retf (jumpTo pos (f\<lparr>f_stk := st\<rparr>) z') (exec_post f z)"
  using jumpTo_good [OF assms(1), of "f\<lparr>f_stk := st\<rparr>" pos] assms(2) by (simp add: exec_post_def)

lemma jump_good: "exec_good opJump" "exec_good opJumpi"
proof -
  have "retf (opJump E run f z) (exec_post f z) \<and> retf (opJumpi E run f z) (exec_post f z)"
    if ok: "state_ok (StateDB z)" "mem_ok (f_mem f)" for E run f z
  proof -
    obtain stop z' where a: "abort_Load z = (stop, z')"
      by fastforce
    have "zext z z'"
      by (rule abort_zext [OF ok(1) a])
    moreover from this have "exec_post f z (r, f\<lparr>f_stk := st\<rparr>, z')" "exec_post f z (r, f, z')" for r st
      using ok(2) by (simp_all add: exec_post_def)
    ultimately show ?thesis
      using a ok(2) by (simp add: opJump_def opJumpi_def runs_simps Let_def jump_stack)
  qed
  then show "exec_good opJump" "exec_good opJumpi"
    by (simp_all add: exec_good_def)
qed

end
