(* ===== verification/ZVM_Safety.thy ===== *)
theory ZVM_Safety
  imports ZVM_Exec
begin

text \<open>
  The entry points of the machine, given an interpreter: if running a contract returns, keeps the total
  of the balances, respects the read-only mode and does not create gas, then so do all calls and contract
  creations, and those that fail leave the world state as it was.
\<close>

section \<open>Calls\<close>

text \<open>What is assumed of the interpreter for contracts with less than \<open>n\<close> gas, and of precompiled
  contracts.\<close>

definition same_mode :: "zvm \<Rightarrow> zvm \<Rightarrow> bool" where
  "same_mode z z' \<longleftrightarrow> z_depth z' = z_depth z \<and> readOnly z' = readOnly z"

definition runner_good :: "nat \<Rightarrow> runner \<Rightarrow> bool" where
  "runner_good n run \<longleftrightarrow> (\<forall>con input ro z. state_ok (StateDB z) \<longrightarrow> unat (Gas con) < n \<longrightarrow>
     retf (run con input ro z) (\<lambda>(ret, err, con', z'). moves (ro \<or> readOnly z) (StateDB z) (StateDB z') \<and>
       same_mode z z' \<and> unat (Gas con') \<le> unat (Gas con)))"

definition precompiles_ok :: "zenv \<Rightarrow> bool" where
  "precompiles_ok E \<longleftrightarrow> (\<forall>a p input. precompile E a = Some p \<longrightarrow>
     retf (RequiredGas p input) (\<lambda>_. True) \<and> retf (pre_Run p input) (\<lambda>_. True))"

lemma RunPrecompiled_good:
  assumes "precompiles_ok E" "precompile E a = Some p"
  shows "retf (RunPrecompiledContract p input gas) (\<lambda>(ret, g, err). unat g \<le> unat gas)"
proof -
  have r: "retf (RequiredGas p input) (\<lambda>_. True)" "retf (pre_Run p input) (\<lambda>_. True)"
    using assms by (auto simp: precompiles_ok_def)
  have le: "unat (gas - c) \<le> unat gas" if "\<not> gas < c" for c
    using that by (subst unat_u64_sub) (simp_all add: u64_order)
  show ?thesis
    unfolding RunPrecompiledContract_def runs_andThen
    by (rule runs_mono [OF r(1)]) (auto simp: le intro!: runs_mono [OF r(2)])
qed

text \<open>A state that has the view, journal and snapshots of an earlier one extends it.\<close>

lemma extends_same:
  assumes "state_ok s'" "view s' = view s" "journ s' = journ s" "validRevisions s' = validRevisions s"
    "nextRevisionId s \<le> nextRevisionId s'"
  shows "extends s s'"
  using assms ul.undoes_refl [of s s'] by (auto simp: extends_def)

lemma revert_moves:
  assumes ok: "state_ok s" and sn: "Snapshot s = (i, s1)" and e: "extends s1 s2"
  shows "\<exists>s3. RevertToSnapshot i s2 = Inr s3 \<and> moves r s s3 \<and> view s3 = view s"
proof -
  obtain s3 where s3: "RevertToSnapshot i s2 = Inr s3" "state_ok s3" "view s3 = view s" "journ s3 = journ s"
    "validRevisions s3 = validRevisions s" "nextRevisionId s3 = nextRevisionId s2"
    using RevertToSnapshot_correct [OF assms] by blast
  have "nextRevisionId s \<le> nextRevisionId s3"
    using sn e s3(6) by (auto simp: Snapshot_def extends_def)
  then show ?thesis
    using s3 moves_view [OF extends_same [OF s3(2-5)]] by blast
qed

text \<open>The outcome of a call from \<open>z\<close> in read-only mode \<open>r\<close>: a failed one leaves the view as it was.\<close>

definition call_result :: "bool \<Rightarrow> uint64 \<Rightarrow> zvm \<Rightarrow> bytes \<times> uint64 \<times> vmerror option \<times> zvm \<Rightarrow> bool" where
  "call_result r gas z = (\<lambda>(ret, gas', err, z'). moves r (StateDB z) (StateDB z') \<and> same_mode z z' \<and>
     unat gas' \<le> unat gas \<and> (err \<noteq> None \<longrightarrow> view (StateDB z') = view (StateDB z)))"

lemma finishCall_good:
  assumes ok: "state_ok s0" and sn: "Snapshot s0 = (i, s1)" and e: "moves r s1 (StateDB z')"
    and q: "quiet (StateDB z) s0" "state_ok (StateDB z)" and md: "same_mode z z'" and g: "unat gas' \<le> unat gas"
  shows "retf (finishCall i ret gas' err z') (call_result r gas z)"
proof -
  have z0: "moves r (StateDB z) s0"
    using q moves_quiet by blast
  show ?thesis
  proof (cases "err = None")
    case True
    have "moves r (StateDB z) (StateDB z')"
      using moves_trans [OF moves_trans [OF z0 Snapshot_moves [OF ok sn]] e] .
    then show ?thesis
      using True md g by (simp add: finishCall_def call_result_def)
  next
    case False
    obtain s3 where "RevertToSnapshot i (StateDB z') = Inr s3" "moves r s0 s3" "view s3 = view s0"
      using revert_moves [OF ok sn moves_extends [OF e]] by blast
    then show ?thesis
      using False md g q(1) moves_trans [OF z0]
      by (auto simp: finishCall_def call_result_def same_mode_def withoutGas_def quiet_def)
  qed
qed

lemma run_finish_good:
  assumes run: "runner_good n run" and con: "unat (Gas con) < n" "unat (Gas con) \<le> unat gas"
    and ok: "state_ok s0" and sn: "Snapshot s0 = (i, s1)" and e: "moves r s1 (StateDB z')"
    and q: "quiet (StateDB z) s0" "state_ok (StateDB z)" and md: "same_mode z z'" and r: "r \<longrightarrow> ro \<or> readOnly z"
  shows "retf (andThen (run con input ro z') (\<lambda>(ret, err, con, z). finishCall i ret (Gas con) err z))
    (call_result r gas z)"
proof -
  have "state_ok (StateDB z')"
    using e by (rule moves_state_ok)
  then have "retf (run con input ro z') (\<lambda>(ret, err, con', z''). moves (ro \<or> readOnly z') (StateDB z') (StateDB z'') \<and>
      same_mode z' z'' \<and> unat (Gas con') \<le> unat (Gas con))"
    using run con(1) by (simp add: runner_good_def)
  then show ?thesis
    unfolding runs_andThen
  proof (rule runs_mono, clarify)
    fix ret err con' z''
    assume z'': "moves (ro \<or> readOnly z') (StateDB z') (StateDB z'')" "same_mode z' z''" "unat (Gas con') \<le> unat (Gas con)"
    have "moves r s1 (StateDB z'')"
      using moves_trans [OF e moves_weaken [OF z''(1)]] r md by (simp add: same_mode_def)
    moreover have "same_mode z z''"
      using md z''(2) by (simp add: same_mode_def)
    ultimately show "retf (finishCall i ret (Gas con') err z'') (call_result r gas z)"
      using z''(3) con(2) by (intro finishCall_good [OF ok sn _ q]) auto
  qed
qed

lemma NewContract_Gas [simp]:
  "Gas (NewContract clr a v gas) = gas" "Gas (SetCallCode con a h c) = Gas con"
  "Gas (SetCodeOptionalHash con a c h) = Gas con"
  by (simp_all add: NewContract_def SetCallCode_def SetCodeOptionalHash_def)

lemma precompile_finish_good:
  assumes pre: "precompiles_ok E" "precompile E a = Some p"
    and ok: "state_ok s0" and sn: "Snapshot s0 = (i, s1)" and e: "moves r s1 (StateDB z')"
    and q: "quiet (StateDB z) s0" "state_ok (StateDB z)" and md: "same_mode z z'"
  shows "retf (andThen (RunPrecompiledContract p input gas) (\<lambda>(ret, gas, err). finishCall i ret gas err z'))
    (call_result r gas z)"
  unfolding runs_andThen
  by (rule runs_mono [OF RunPrecompiled_good [OF pre]]) (auto intro!: finishCall_good [OF ok sn e q md])

lemma state_step:
  assumes "moves r s s'"
  shows "moves r s (AddBalance a 0 s')" "moves r s (AddAddressToAccessList a s')"
    "(r \<longrightarrow> v = 0) \<Longrightarrow> moves r s (Transfer s' a b v)" "(r \<longrightarrow> live_view (view s') a = None) \<Longrightarrow> nonce_of (view s') a = 0 \<Longrightarrow> moves r s (CreateAccount a s')"
    "\<not> r \<Longrightarrow> nonce_of (view s') a \<le> m \<Longrightarrow> moves r s (SetNonce a m s')"
  using moves_trans [OF assms touch_moves(1) [OF moves_state_ok [OF assms]]]
    moves_trans [OF assms AddAddressToAccessList_moves [OF moves_state_ok [OF assms]]]
    moves_trans [OF assms Transfer_moves [OF moves_state_ok [OF assms]]]
    moves_trans [OF assms CreateAccount_moves [OF moves_state_ok [OF assms]]]
    moves_trans [of False s s', OF _ write_moves(1) [OF moves_state_ok [OF assms]]] assms
  by auto

lemma read_step:
  assumes "moves r s s'"
  shows "Exist a s' = (ex, s'') \<Longrightarrow> moves r s s''" "GetCode a s' = (c, s'') \<Longrightarrow> moves r s s''"
    "GetCodeHash a s' = (h, s'') \<Longrightarrow> moves r s s''" "GetNonce a s' = (m, s'') \<Longrightarrow> moves r s s''"
proof -
  note ok = moves_state_ok [OF assms]
  note wf = state_ok_wf [OF ok] and q = moves_trans [OF assms moves_quiet [OF ok]]
  show "Exist a s' = (ex, s'') \<Longrightarrow> moves r s s''"
    using Exist_read(1) [OF wf, of a] q by simp
  show "GetCode a s' = (c, s'') \<Longrightarrow> moves r s s''"
    using GetCode_read(1) [OF wf, of a] q by simp
  show "GetCodeHash a s' = (h, s'') \<Longrightarrow> moves r s s''"
    using GetCodeHash_read(1) [OF wf, of a] q by simp
  show "GetNonce a s' = (m, s'') \<Longrightarrow> moves r s s''"
    using GetNonce_read(1) [OF wf, of a] q by simp
qed

lemma executeCall_good:
  assumes run: "runner_good n run" and pre: "precompiles_ok E" and gas: "unat gas < n"
    and ok: "state_ok s0" and sn: "Snapshot s0 = (i, s1)" and e: "moves (readOnly z) s1 (StateDB z')"
    and q: "quiet (StateDB z) s0" "state_ok (StateDB z)" and md: "same_mode z z'"
  shows "retf (executeCall E run i clr addr input gas val z') (call_result (readOnly z) gas z)"
proof (cases "precompile E addr")
  case (Some p)
  then show ?thesis
    using precompile_finish_good [OF pre Some ok sn e q md, of input gas] by (simp add: executeCall_def)
next
  case None
  obtain code s2 h s3 where c: "GetCode addr (StateDB z') = (code, s2)" and h: "GetCodeHash addr s2 = (h, s3)"
    by fastforce
  have e2: "moves (readOnly z) s1 s2"
    by (rule read_step(2) [OF e c])
  have e3: "moves (readOnly z) s1 s3"
    by (rule read_step(3) [OF e2 h])
  let ?z = "z'\<lparr>StateDB := s3, z_jumpdests := NewContract_jumpdests clr (z_jumpdests z')\<rparr>"
  have "retf (andThen (run (SetCallCode (NewContract clr addr val gas) addr h code) input False ?z)
      (\<lambda>(ret, err, con, z). finishCall i ret (Gas con) err z)) (call_result (readOnly z) gas z)"
    using gas e3 md by (intro run_finish_good [OF run _ _ ok sn _ q]) (simp_all add: same_mode_def)
  moreover have "retf (finishCall i [] gas None (setDB s2 z')) (call_result (readOnly z) gas z)"
    using e2 md by (intro finishCall_good [OF ok sn _ q]) (simp_all add: same_mode_def)
  ultimately show ?thesis
    using None c h by (simp add: executeCall_def Let_def)
qed

lemma Call_good:
  assumes run: "runner_good n run" and pre: "precompiles_ok E" and ok: "state_ok (StateDB z)"
    and gas: "unat gas < n" and ro: "readOnly z \<longrightarrow> val = 0"
  shows "retf (Call E run clr addr input gas val z) (call_result (readOnly z) gas z)"
proof (cases "z_depth z > int (unat CallCreateDepth)")
  case True
  then show ?thesis
    using ok by (simp add: Call_def call_result_def moves_refl same_mode_def)
next
  case depth: False
  obtain can s0 where c: "(if val \<noteq> 0 then CanTransfer (StateDB z) (ref_Address clr) val else (True, StateDB z)) = (can, s0)"
    by fastforce
  have q: "quiet (StateDB z) s0"
    using c CanTransfer_quiet [OF state_ok_wf [OF ok]] by (auto split: if_splits)
  have ok0: "state_ok s0"
    using moves_state_ok [OF moves_quiet [OF ok q]] .
  obtain i s1 where sn: "Snapshot s0 = (i, s1)"
    by fastforce
  obtain ex s2 where ex: "Exist addr s1 = (ex, s2)"
    by fastforce
  have e1: "moves (readOnly z) s0 s1"
    by (rule Snapshot_moves [OF ok0 sn])
  have e2: "moves (readOnly z) s1 s2"
    using moves_refl [OF moves_state_ok [OF e1]] ex by (rule read_step(1))
  have new: "\<not> ex \<Longrightarrow> live_view (view s2) addr = None"
    using Exist_read [OF state_ok_wf [OF moves_state_ok [OF e1]], of addr] ex by (auto simp: quiet_def)
  define s3 where "s3 = Transfer (if \<not> ex then CreateAccount addr s2 else s2) (ref_Address clr) addr val"
  have eq: "Call E run clr addr input gas val z =
      (if \<not> can then Inr ([], gas, Some ErrInsufficientBalance, setDB s0 z)
       else if \<not> ex \<and> precompile E addr = None \<and> val = 0 then Inr ([], gas, None, setDB s2 z)
       else executeCall E run i clr addr input gas val (setDB s3 z))"
    unfolding Call_def c s3_def using depth sn ex by (simp add: Let_def)
  have "moves (readOnly z) s1 s3"
    using e2 ro new by (auto simp: s3_def nonce_of_def intro!: state_step)
  then have "retf (executeCall E run i clr addr input gas val (setDB s3 z)) (call_result (readOnly z) gas z)"
    by (intro executeCall_good [OF run pre gas ok0 sn _ q ok]) (simp_all add: same_mode_def)
  moreover have "moves (readOnly z) (StateDB z) s2"
    using moves_trans [OF moves_trans [OF moves_quiet [OF ok q] e1] e2] .
  ultimately show ?thesis
    unfolding eq using moves_quiet [OF ok q] q by (simp add: call_result_def quiet_def same_mode_def)
qed

lemma code_run_good:
  assumes run: "runner_good n run" and gas: "unat gas < n" and con: "Gas con = gas"
    and ok: "state_ok (StateDB z)" and sn: "Snapshot (StateDB z) = (i, s1)" and e: "moves r s1 s"
    and r: "r \<longrightarrow> ro \<or> readOnly z"
  shows "retf (let (codeHash, s) = GetCodeHash addr s; (code, s) = GetCode addr s;
      con = SetCallCode con addr codeHash code; z = z\<lparr>StateDB := s, z_jumpdests := jd\<rparr> in
    andThen (run con input ro z) (\<lambda>(ret, err, con, z). finishCall i ret (Gas con) err z)) (call_result r gas z)"
proof -
  obtain h s2 code s3 where h: "GetCodeHash addr s = (h, s2)" and c: "GetCode addr s2 = (code, s3)"
    by fastforce
  have "moves r s1 s3"
    using read_step(2) [OF read_step(3) [OF e h] c] .
  then have "retf (andThen (run (SetCallCode con addr h code) input ro (z\<lparr>StateDB := s3, z_jumpdests := jd\<rparr>))
      (\<lambda>(ret, err, con, z). finishCall i ret (Gas con) err z)) (call_result r gas z)"
    using gas con ok r by (intro run_finish_good [OF run _ _ ok sn _ _ ok]) (simp_all add: same_mode_def)
  then show ?thesis
    using h c by (simp add: Let_def)
qed

lemma DelegateCall_good:
  assumes run: "runner_good n run" and pre: "precompiles_ok E" and ok: "state_ok (StateDB z)"
    and gas: "unat gas < n"
  shows "retf (DelegateCall E run clr addr input gas z) (call_result (readOnly z) gas z)"
proof (cases "z_depth z > int (unat CallCreateDepth)")
  case True
  then show ?thesis
    using ok by (simp add: DelegateCall_def call_result_def moves_refl same_mode_def)
next
  case depth: False
  obtain i s1 where sn: "Snapshot (StateDB z) = (i, s1)"
    by fastforce
  have e: "moves (readOnly z) s1 s1"
    using moves_refl [OF moves_state_ok [OF Snapshot_moves [OF ok sn]]] .
  show ?thesis
  proof (cases "precompile E addr")
    case (Some p)
    have "retf (andThen (RunPrecompiledContract p input gas) (\<lambda>(ret, gas, err). finishCall i ret gas err (setDB s1 z)))
        (call_result (readOnly z) gas z)"
      using e by (intro precompile_finish_good [OF pre Some ok sn _ _ ok]) (simp_all add: same_mode_def)
    then show ?thesis
      using depth sn Some by (simp add: DelegateCall_def)
  next
    case None
    have "retf (AsDelegate (NewContract clr (ref_Address clr) 0 gas)) (\<lambda>con. Gas con = gas)"
      by (simp add: AsDelegate_def split: contractRef.split)
    then show ?thesis
      using depth sn None code_run_good [OF run gas _ ok sn e, where ro = False]
      by (simp add: DelegateCall_def runs_mono Let_def)
  qed
qed

lemma StaticCall_good:
  assumes run: "runner_good n run" and pre: "precompiles_ok E" and ok: "state_ok (StateDB z)"
    and gas: "unat gas < n"
  shows "retf (StaticCall E run clr addr input gas z) (call_result True gas z)"
proof (cases "z_depth z > int (unat CallCreateDepth)")
  case True
  then show ?thesis
    using ok by (simp add: StaticCall_def call_result_def moves_refl same_mode_def)
next
  case depth: False
  obtain i s1 where sn: "Snapshot (StateDB z) = (i, s1)"
    by fastforce
  define s2 where "s2 = AddBalance addr 0 s1"
  have "moves True s1 s1"
    using moves_refl [OF moves_state_ok [OF Snapshot_moves [OF ok sn]]] .
  then have e: "moves True s1 s2"
    unfolding s2_def by (rule state_step(1))
  show ?thesis
  proof (cases "precompile E addr")
    case (Some p)
    have "retf (andThen (RunPrecompiledContract p input gas) (\<lambda>(ret, gas, err). finishCall i ret gas err (setDB s2 z)))
        (call_result True gas z)"
      using e by (intro precompile_finish_good [OF pre Some ok sn _ _ ok]) (simp_all add: same_mode_def)
    then show ?thesis
      using depth sn Some by (simp add: StaticCall_def s2_def)
  next
    case None
    show ?thesis
      using depth sn None code_run_good [OF run gas _ ok sn e, of "NewContract clr addr 0 gas" True]
      by (simp add: StaticCall_def s2_def Let_def del: runs_andThen)
  qed
qed

section \<open>Contract creation\<close>

text \<open>What a failed creation may leave behind: nothing, or the new nonce of the creator and the
  new address in the access list.\<close>

definition failed_views :: "contractRef \<Rightarrow> zvm \<Rightarrow> state_view set" where
  "failed_views clr z = insert (view (StateDB z))
     {view (AddAddressToAccessList a (SetNonce (ref_Address clr) m s)) | a m s. quiet (StateDB z) s}"

text \<open>Whether a creation gets as far as counting up the nonce of the creator.\<close>

definition can_create :: "contractRef \<Rightarrow> int \<Rightarrow> zvm \<Rightarrow> bool" where
  "can_create clr val z \<longleftrightarrow> z_depth z \<le> int (unat CallCreateDepth) \<and>
     val \<le> balance (view (StateDB z)) (ref_Address clr) \<and>
     \<not> nonce_of (view (StateDB z)) (ref_Address clr) + 1 < nonce_of (view (StateDB z)) (ref_Address clr)"

definition create_result ::
  "contractRef \<Rightarrow> int \<Rightarrow> uint64 \<Rightarrow> zvm \<Rightarrow> bytes \<times> address \<times> uint64 \<times> vmerror option \<times> zvm \<Rightarrow> bool" where
  "create_result clr val gas z = (\<lambda>(ret, addr, gas', err, z'). moves False (StateDB z) (StateDB z') \<and> same_mode z z' \<and>
     unat gas' \<le> unat gas \<and>
     (err \<noteq> None \<and> err \<noteq> Some ErrCodeStoreOutOfGas \<longrightarrow> view (StateDB z') \<in> failed_views clr z) \<and>
     (can_create clr val z \<longrightarrow>
        nonce_of (view (StateDB z)) (ref_Address clr) < nonce_of (view (StateDB z')) (ref_Address clr)))"

lemma UseGas_le: "unat (Gas (fst (UseGas con g))) \<le> unat (Gas con)"
  by (auto simp: UseGas_exact unat_sub_if_size word_le_nat_alt)

lemma storeCode_good:
  assumes "state_ok (StateDB z)" "storeCode addr ret err con z = (err', con', z')"
  shows "moves False (StateDB z) (StateDB z')" "same_mode z z'" "unat (Gas con') \<le> unat (Gas con)"
  using assms UseGas_le [of con "of_nat (length ret) * CreateDataGas"]
  by (auto simp: storeCode_def Let_def moves_refl same_mode_def write_moves(2) split: if_splits prod.splits bool.splits)

lemma finishCreate_good:
  assumes ok: "state_ok s0" and sn: "Snapshot s0 = (i, s1)" and e: "moves False s1 (StateDB z')"
    and z0: "moves False (StateDB z) s0" and md: "same_mode z z'" and g: "unat (Gas con) \<le> unat gas"
    and v: "view s0 \<in> failed_views clr z"
    and nn: "can_create clr val z \<longrightarrow>
      nonce_of (view (StateDB z)) (ref_Address clr) < nonce_of (view s0) (ref_Address clr)"
  shows "retf (finishCreate i addr ret err con z') (create_result clr val gas z)"
proof -
  obtain s3 where s3: "RevertToSnapshot i (StateDB z') = Inr s3" "moves False s0 s3" "view s3 = view s0"
    using revert_moves [OF ok sn moves_extends [OF e]] by blast
  have "moves False (StateDB z) (StateDB z')" "moves False (StateDB z) s3"
    using moves_trans [OF moves_trans [OF z0 Snapshot_moves [OF ok sn]] e] moves_trans [OF z0 s3(2)] by blast+
  moreover have "nonce_of (view s0) (ref_Address clr) \<le> nonce_of (view (StateDB z')) (ref_Address clr)"
    using moves_nonce [OF moves_trans [OF Snapshot_moves [OF ok sn] e]] .
  ultimately show ?thesis
    using s3(1,3) md g v nn UseGas_le [of con "Gas con"]
    by (auto simp: finishCreate_def create_result_def same_mode_def Let_def)
qed

lemma executeCreate_good:
  assumes run: "runner_good n run" and gas: "unat gas < n"
    and e0: "moves False (StateDB z) (StateDB z')" and md: "same_mode z z'"
    and v: "view (StateDB z') \<in> failed_views clr z" and new: "nonce_of (view (StateDB z')) addr = 0"
    and nn: "can_create clr val z \<longrightarrow>
      nonce_of (view (StateDB z)) (ref_Address clr) < nonce_of (view (StateDB z')) (ref_Address clr)"
  shows "retf (executeCreate run clr code h gas val addr z') (create_result clr val gas z)"
proof -
  note ok = moves_state_ok [OF e0]
  obtain i s1 where sn: "Snapshot (StateDB z') = (i, s1)"
    by fastforce
  define s where "s = Transfer (SetNonce addr 1 (CreateAccount addr s1)) (ref_Address clr) addr val"
  have "nonce_of (view s1) addr = 0"
    using new sn by (auto simp: Snapshot_def)
  then have e: "moves False s1 s"
    unfolding s_def using moves_refl [OF moves_state_ok [OF Snapshot_moves [OF ok sn]]]
      nonce_CreateAccount [OF moves_state_ok [OF Snapshot_moves [OF ok sn]], of addr addr]
    by (intro state_step) simp_all
  let ?con = "SetCodeOptionalHash (NewContract clr addr val gas) addr code h"
  let ?z = "z'\<lparr>StateDB := s, z_jumpdests := NewContract_jumpdests clr (z_jumpdests z')\<rparr>"
  have "retf (run ?con [] False ?z) (\<lambda>(ret, err, con, w). moves (readOnly ?z) s (StateDB w) \<and> same_mode ?z w \<and>
      unat (Gas con) \<le> unat gas)"
    using run [unfolded runner_good_def, rule_format, of ?z ?con "[]" False] gas moves_state_ok [OF e] by simp
  then have "retf (run ?con [] False ?z) (\<lambda>(ret, err, con, w). retf (case storeCode addr ret err con w of
      (err, con, w) \<Rightarrow> finishCreate i addr ret err con w) (create_result clr val gas z))"
  proof (rule runs_mono, clarify)
    fix ret err and con :: contract and w :: zvm
    assume w: "moves (readOnly ?z) s (StateDB w)" "same_mode ?z w" "unat (Gas con) \<le> unat gas"
    have e': "moves False s1 (StateDB w)"
      using moves_trans [OF e moves_weaken [OF w(1)]] by simp
    obtain err' con' w' where st: "storeCode addr ret err con w = (err', con', w')"
      by (metis prod_cases3)
    note sc = storeCode_good [OF moves_state_ok [OF e'] st]
    have "moves False s1 (StateDB w')" "same_mode z w'"
      using moves_trans [OF e' sc(1)] sc(2) w(2) md by (simp_all add: same_mode_def)
    then show "retf (case storeCode addr ret err con w of
        (err, con, w) \<Rightarrow> finishCreate i addr ret err con w) (create_result clr val gas z)"
      using finishCreate_good [OF ok sn _ e0 _ _ v nn, of w' con' gas] w(3) sc(3) by (simp add: st)
  qed
  then show ?thesis
    by (simp add: executeCreate_def sn Let_def s_def split_def)
qed

text \<open>What \<open>create\<close> reads before it changes anything, and the state in which it asks whether the new
  address is taken.\<close>

lemma create_reads:
  assumes ok: "state_ok s0" and can: "CanTransfer s0 c val = (can, s1)" and m: "GetNonce c s1 = (m, s2)"
  shows "quiet s0 s1" "quiet s0 s2" "can \<longleftrightarrow> val \<le> balance (view s0) c" "m = nonce_of (view s0) c"
proof -
  show q1: "quiet s0 s1"
    using CanTransfer_quiet [OF state_ok_wf [OF ok] can] .
  have wf: "wf_state s1"
    using q1 state_ok_wf [OF ok] by (simp add: quiet_def)
  show "quiet s0 s2"
    using quiet_trans [OF q1] GetNonce_read(1) [OF wf, of c] m by simp
  show "can \<longleftrightarrow> val \<le> balance (view s0) c"
    using can balance_GetBalance [OF state_ok_wf [OF ok], of c] by (auto simp: CanTransfer_def split: prod.splits)
  show "m = nonce_of (view s0) c"
    using nonce_GetNonce [OF wf, of c] m q1 by (simp add: quiet_def)
qed

lemma collision_reads:
  assumes ok: "state_ok s" and ch: "GetCodeHash addr s = (ch, s3)" and am: "GetNonce addr s3 = (am, s4)"
  shows "quiet s s4" "am = nonce_of (view s4) addr"
proof -
  have q3: "quiet s s3"
    using GetCodeHash_read(1) [OF state_ok_wf [OF ok], of addr] ch by simp
  then have wf: "wf_state s3"
    using state_ok_wf [OF ok] by (simp add: quiet_def)
  have q4: "quiet s3 s4"
    using GetNonce_read(1) [OF wf, of addr] am by simp
  then show "quiet s s4"
    using quiet_trans [OF q3] by blast
  show "am = nonce_of (view s4) addr"
    using nonce_GetNonce [OF wf, of addr] am q4 by (simp add: quiet_def)
qed

lemma create_good:
  assumes run: "runner_good n run" and gas: "unat gas < n"
    and ok0: "state_ok (StateDB z)" and q0: "quiet (StateDB z) (StateDB z')" and md: "same_mode z z'"
  shows "retf (create E run clr code h gas val addr z') (create_result clr val gas z)"
proof -
  let ?c = "ref_Address clr"
  note e0 = moves_quiet [OF ok0 q0, of False]
  obtain can s1 where can: "CanTransfer (StateDB z') ?c val = (can, s1)"
    by fastforce
  obtain m s2 where m: "GetNonce ?c s1 = (m, s2)"
    by fastforce
  define s where "s = AddAddressToAccessList addr (SetNonce ?c (m + 1) s2)"
  obtain ch s3 where ch: "GetCodeHash addr s = (ch, s3)"
    by fastforce
  obtain am s4 where am: "GetNonce addr s3 = (am, s4)"
    by fastforce
  note rd = create_reads [OF moves_state_ok [OF e0] can m]
  note q1 = quiet_trans [OF q0 rd(1)] and q2 = quiet_trans [OF q0 rd(2)]
  note e1 = moves_quiet [OF ok0 q1, of False] and e2 = moves_quiet [OF ok0 q2, of False]
  have v2: "view s2 = view (StateDB z)" "m = nonce_of (view (StateDB z)) ?c"
    and can': "can \<longleftrightarrow> val \<le> balance (view (StateDB z)) ?c"
    using q2 rd(3,4) q0 by (simp_all add: quiet_def)
  have early: "create_result clr val gas z (ret, a, gas, err, setDB t z')"
    if "quiet (StateDB z) t" "\<not> can_create clr val z" for ret a err t
    using that md moves_quiet [OF ok0 that(1)]
    by (auto simp: create_result_def same_mode_def failed_views_def quiet_def)
  have "retf (if am \<noteq> 0 \<or> b then Inr ([], 0, 0, Some ErrContractAddressCollision, setDB s4 z')
      else executeCreate run clr code h gas val addr (setDB s4 z')) (create_result clr val gas z)"
    if c: "\<not> m + 1 < m" for b
  proof -
    have es: "moves False (StateDB z) s"
      unfolding s_def using state_step(2) [OF state_step(5) [OF e2]] c v2 by simp
    note cr = collision_reads [OF moves_state_ok [OF es] ch am]
    have e4: "moves False (StateDB z) s4"
      using moves_trans [OF es moves_quiet [OF moves_state_ok [OF es] cr(1)]] .
    have v4: "view s4 \<in> failed_views clr z"
      using q2 cr(1) unfolding failed_views_def s_def by (auto simp: quiet_def)
    have "nonce_of (view s4) ?c = m + 1"
      using cr(1) nonce_SetNonce [OF moves_state_ok [OF e2], of ?c "m + 1" ?c]
      by (simp add: quiet_def s_def nonce_AddAddress)
    then have nn: "nonce_of (view (StateDB z)) ?c < nonce_of (view s4) ?c"
      using c v2(2) less_le word_not_simps(1) by fastforce
    have "retf (executeCreate run clr code h gas val addr (setDB s4 z')) (create_result clr val gas z)" if "am = 0"
      using that e4 v4 md cr(2) nn by (intro executeCreate_good [OF run gas]) (simp_all add: same_mode_def)
    moreover have "create_result clr val gas z ([], 0, 0, Some ErrContractAddressCollision, setDB s4 z')"
      using e4 v4 md nn by (simp add: create_result_def same_mode_def)
    ultimately show ?thesis
      by simp
  qed
  moreover have "create_result clr val gas z ([], 0, gas, Some ErrDepth, z')" if "int (unat CallCreateDepth) < z_depth z'"
    using early [OF q0] that md by (simp add: setDB_def can_create_def same_mode_def)
  moreover have "\<not> can_create clr val z" if "\<not> can \<or> m + 1 < m"
    using that can' v2(2) by (auto simp: can_create_def)
  ultimately show ?thesis
    using early [OF q1] early [OF q2] by (simp add: create_def can m ch am s_def [symmetric])
qed

lemma copyHeads_returns: "retf (copyHeads hs s dst pos strpos) (\<lambda>_. True)"
  by (induction hs arbitrary: dst pos strpos) (auto simp: Let_def runs_if intro!: retf_go_slice)

lemma CreateAddress_returns: "retf (CreateAddress d b nonce) (\<lambda>_. True)"
proof -
  have "retf (copyTo buf dst) (\<lambda>_. True)" for buf dst
    unfolding copyTo_def
    by (simp, rule runs_mono [OF copyHeads_returns]) (auto intro!: retf_go_slice)
  then show ?thesis
    by (auto simp: CreateAddress_def listEnd_def makeBytes_def Let_def split: prod.split intro!: retf_go_index)
qed

lemma Create_good:
  assumes run: "runner_good n run" and gas: "unat gas < n" and ok: "state_ok (StateDB z)"
  shows "retf (Create E run clr code gas val z) (create_result clr val gas z)"
proof -
  obtain m s where m: "GetNonce (ref_Address clr) (StateDB z) = (m, s)"
    by fastforce
  have "retf (create E run clr code 0 gas val addr (setDB s z)) (create_result clr val gas z)" for addr
    using GetNonce_read(1) [OF state_ok_wf [OF ok], of "ref_Address clr"] m
    by (intro create_good [OF run gas ok]) (simp_all add: same_mode_def)
  then show ?thesis
    by (simp add: Create_def m runs_mono [OF CreateAddress_returns])
qed

lemma Create2_good:
  assumes run: "runner_good n run" and gas: "unat gas < n" and ok: "state_ok (StateDB z)"
  shows "retf (Create2 E run clr code gas val salt z) (create_result clr val gas z)"
  unfolding Create2_def Let_def
  by (intro create_good [OF run gas ok]) (simp_all add: same_mode_def)

end
