(* ===== verification/ZVM_Termination.thy ===== *)
theory ZVM_Termination
  imports ZVM_Safety
begin

text \<open>
  One iteration of the interpreter loop (\<open>loopBody\<close>) for every instruction of the jump table: it
  returns, keeps the invariants of the state and of the memory, never creates gas, and pays at least
  one unit of gas whenever the loop goes on. The loop therefore ends within as many iterations as
  there is gas, for nested calls too.
\<close>

section \<open>Charging an instruction\<close>

lemma mem_ok_paid:
  assumes ok: "mem_ok m" and c: "memoryGasCost m ms = Inr (g, m')" and d: "32 dvd unat ms"
  shows "mem_ok (if 0 < ms then Mem_Resize m' ms else m')"
proof -
  have le: "unat ms \<le> 0x1FFFFFFFE0"
    using c memoryGasCost_exact [OF ok, of ms] by (auto split: if_splits)
  have w: "words_of ms = unat ms div 32"
    using d by (auto elim!: dvdE)
  have tw: "toWordSize ms * 32 = ms"
    using unat_fee_words(2) [of "toWordSize ms"] w d le unat_toWordSize [of ms]
    by (simp add: u64_eq_iff)
  show ?thesis
  proof (cases "length (store m) div 32 < words_of ms")
    case True
    then have "0 < ms"
      using w by (simp add: u64_order)
    then show ?thesis
      using True memoryGasCost_Resize_words [OF ok le] c tw by auto
  next
    case False
    then have "m' = m" "unat ms \<le> length (store m)"
      using c memoryGasCost_exact [OF ok, of ms] le w d ok by (auto simp: mem_ok_def elim!: dvdE)
    then show ?thesis
      using ok by (simp add: Mem_Resize_def u64_order mem_ok_Len)
  qed
qed

definition returns_always :: "memorySizeFunc option \<Rightarrow> bool" where
  "returns_always mf \<longleftrightarrow> (\<forall>ms st. mf = Some ms \<longrightarrow> retf (ms st) (\<lambda>_. True))"

lemma memory_sizes_return [simp]:
  "returns_always None" "returns_always (Some memoryKeccak256)" "returns_always (Some memoryCallDataCopy)"
  "returns_always (Some memoryReturnDataCopy)" "returns_always (Some memoryCodeCopy)"
  "returns_always (Some memoryExtCodeCopy)" "returns_always (Some memoryMLoad)"
  "returns_always (Some memoryMStore8)" "returns_always (Some memoryMStore)"
  "returns_always (Some memoryCreate)" "returns_always (Some memoryCreate2)" "returns_always (Some memoryCall)"
  "returns_always (Some memoryDelegateCall)" "returns_always (Some memoryStaticCall)"
  "returns_always (Some memoryReturn)" "returns_always (Some memoryRevert)" "returns_always (Some memoryLog)"
  by (auto simp: returns_always_def runs_simps memoryKeccak256_def memoryCallDataCopy_def
      memoryReturnDataCopy_def memoryCodeCopy_def memoryExtCodeCopy_def memoryMLoad_def memoryMStore8_def
      memoryMStore_def memoryCreate_def memoryCreate2_def memoryCall_def memoryDelegateCall_def
      memoryStaticCall_def memoryReturn_def memoryRevert_def memoryLog_def split: prod.split)

lemma requestedMemory_words:
  assumes "returns_always (memorySize oper)"
  shows "retf (requestedMemory oper st) (\<lambda>r. \<forall>sz. r = Inr sz \<longrightarrow>
    32 dvd unat sz \<and> (memorySize oper = None \<longrightarrow> sz = 0))"
proof (cases "memorySize oper")
  case (Some ms)
  have "retf (ms st) (\<lambda>_. True)"
    using assms Some by (simp add: returns_always_def)
  then show ?thesis
    using Some by (auto simp: requestedMemory_def runs_simps SafeMul_eq split: prod.split elim!: runs_mono)
qed (simp add: requestedMemory_def)

text \<open>What a successful charge leaves: the price \<open>c\<close> has been paid, the stack is untouched.\<close>

definition charged :: "(uint64 \<Rightarrow> zvm \<Rightarrow> bool) \<Rightarrow> frame \<Rightarrow> zvm \<Rightarrow> vmerror option \<times> frame \<times> zvm \<Rightarrow> bool" where
  "charged R f z = (\<lambda>(err, f', z'). zext z z' \<and> unat (Gas (f_con f')) \<le> unat (Gas (f_con f)) \<and>
     (err = None \<longrightarrow> (\<exists>c. mem_ok (f_mem f') \<and> f_stk f' = f_stk f \<and>
        unat (Gas (f_con f')) + unat c = unat (Gas (f_con f)) \<and> R c z')))"

lemma payDynamic_good:
  assumes ok: "mem_ok (f_mem f)" and g: "gas_post f sz z (r, f', z')" and d: "32 dvd unat sz"
    and R: "\<forall>c. r = Inr c \<longrightarrow> R c z'"
  shows "charged R f z (payDynamic sz (r, f', z'))"
proof (cases r)
  case (Inr c)
  then have "mem_ok (if 0 < sz then Mem_Resize (f_mem f') sz else f_mem f')" "f_stk f' = f_stk f"
    "Gas (f_con f') = Gas (f_con f)" "zext z z'"
    using g mem_ok_paid [OF ok _ d] same_frame_sel(1) by (auto simp: gas_post_def)
  then show ?thesis
    using Inr R by (auto simp: payDynamic_def charged_def UseGas_exact unat_sub_if_size word_le_nat_alt
        intro!: exI [of _ c])
qed (use g in \<open>auto simp: payDynamic_def charged_def gas_post_def\<close>)

lemma chargeDynamic_good:
  assumes ok: "state_ok (StateDB z)" "mem_ok (f_mem f)" and dyn: "dynamicGas oper = Some g"
    and ms: "returns_always (memorySize oper)"
    and g: "\<And>sz. memorySize oper = None \<longrightarrow> sz = 0 \<Longrightarrow> retf (g E f sz z)
      (\<lambda>(r, f', z'). gas_post f sz z (r, f', z') \<and> (\<forall>c. r = Inr c \<longrightarrow> R c z'))"
  shows "retf (chargeDynamic E oper f z) (charged R f z)"
proof -
  have "retf (g E f sz z) (\<lambda>r. charged R f z (payDynamic sz r))"
    if "32 dvd unat sz" "memorySize oper = None \<longrightarrow> sz = 0" for sz
    by (rule runs_mono [OF g [OF that(2)]]) (auto intro: payDynamic_good [OF ok(2) _ that(1)])
  then show ?thesis
    using ok
    by (auto simp: chargeDynamic_def dyn charged_def zext_refl split: sum.split
        intro!: runs_mono [OF requestedMemory_words [OF ms]])
qed

section \<open>Instructions\<close>

definition payAndExecute :: "operation \<Rightarrow> zenv \<Rightarrow> runner \<Rightarrow> frame \<Rightarrow> zvm \<Rightarrow> opresult" where
  "payAndExecute oper E run f z =
     andThen (chargeDynamic E oper f z) (\<lambda>(err, f, z).
     case err of Some e \<Rightarrow> opErr e f z | None \<Rightarrow> execute oper E run f z)"

text \<open>The result of an instruction that had \<open>k\<close> gas before its constant price was paid: the gas has
  not grown, and has shrunk if the loop goes on.\<close>

definition step_result :: "nat \<Rightarrow> zvm \<Rightarrow> (bytes \<times> vmerror option) \<times> frame \<times> zvm \<Rightarrow> bool" where
  "step_result k z = (\<lambda>((res, err), f', z'). zext z z' \<and> unat (Gas (f_con f')) \<le> k \<and>
     (err = None \<longrightarrow> unat (Gas (f_con f')) < k \<and> mem_ok (f_mem f')))"

definition op_good :: "operation \<Rightarrow> bool" where
  "op_good oper \<longleftrightarrow> (\<forall>n E run f z. runner_good n run \<longrightarrow> precompiles_ok E \<longrightarrow> state_ok (StateDB z) \<longrightarrow>
     mem_ok (f_mem f) \<longrightarrow> unat (Gas (f_con f)) + unat (constantGas oper) \<le> n \<longrightarrow>
     retf (payAndExecute oper E run f z) (step_result (unat (Gas (f_con f)) + unat (constantGas oper)) z))"

lemma op_goodI:
  assumes "\<And>n E run f z. runner_good n run \<Longrightarrow> precompiles_ok E \<Longrightarrow> state_ok (StateDB z) \<Longrightarrow>
    mem_ok (f_mem f) \<Longrightarrow> unat (Gas (f_con f)) + unat (constantGas oper) \<le> n \<Longrightarrow>
    retf (payAndExecute oper E run f z) (step_result (unat (Gas (f_con f)) + unat (constantGas oper)) z)"
  shows "op_good oper"
  using assms by (simp add: op_good_def)

lemma step_result_trans: "zext z z' \<Longrightarrow> step_result k z' r \<Longrightarrow> step_result k z r"
  by (auto simp: step_result_def intro: zext_trans)

lemma payAndExecute_good:
  assumes c: "retf (chargeDynamic E oper f z) (charged R f z)"
    and ex: "\<And>f' z' c. zext z z' \<Longrightarrow> mem_ok (f_mem f') \<Longrightarrow> f_stk f' = f_stk f \<Longrightarrow>
      unat (Gas (f_con f')) + unat c = unat (Gas (f_con f)) \<Longrightarrow> R c z' \<Longrightarrow>
      retf (execute oper E run f' z') (step_result (unat (Gas (f_con f)) + k) z')"
  shows "retf (payAndExecute oper E run f z) (step_result (unat (Gas (f_con f)) + k) z)"
proof -
  have "retf (case err of Some e \<Rightarrow> opErr e f' z' | None \<Rightarrow> execute oper E run f' z')
      (step_result (unat (Gas (f_con f)) + k) z)" if "charged R f z (err, f', z')" for err f' z'
  proof (cases err)
    case None
    then show ?thesis
      using that ex [of z' f'] by (auto simp: charged_def intro: runs_mono step_result_trans)
  next
    case (Some e)
    then show ?thesis
      using that by (auto simp: charged_def opErr_def step_result_def)
  qed
  then show ?thesis
    unfolding payAndExecute_def by (auto intro: runs_mono [OF c])
qed

lemma exec_step:
  assumes ex: "exec_good (execute oper)" and ok: "state_ok (StateDB z)" "mem_ok (f_mem f)"
    and k: "unat (Gas (f_con f)) < k"
  shows "retf (execute oper E run f z) (step_result k z)"
proof -
  have "retf (execute oper E run f z) (exec_post f z)"
    using ex ok by (simp add: exec_good_def)
  then show ?thesis
    by (rule runs_mono) (use k in \<open>auto simp: exec_post_def step_result_def\<close>)
qed

text \<open>Instructions with a constant price only.\<close>

lemma op_good_constant:
  assumes "exec_good (execute oper)" "0 < constantGas oper" "dynamicGas oper = None"
  shows "op_good oper"
  using assms by (auto intro!: op_goodI exec_step simp: payAndExecute_def chargeDynamic_def u64_order)

text \<open>Instructions with a dynamic price.\<close>

lemma op_good_priced:
  assumes ex: "exec_good (execute oper)" and dyn: "dynamicGas oper = Some g"
    and g: "\<And>E f ms z. state_ok (StateDB z) \<Longrightarrow> mem_ok (f_mem f) \<Longrightarrow> memorySize oper = None \<longrightarrow> ms = 0 \<Longrightarrow>
      retf (g E f ms z) (\<lambda>(r, f', z'). gas_post f ms z (r, f', z') \<and>
        (\<forall>c. r = Inr c \<longrightarrow> 0 < unat c + unat (constantGas oper)))"
    and ms: "returns_always (memorySize oper)"
  shows "op_good oper"
proof (rule op_goodI)
  fix n E run and f :: frame and z :: zvm
  assume ok: "state_ok (StateDB z)" "mem_ok (f_mem f)"
  have "retf (chargeDynamic E oper f z) (charged (\<lambda>c z'. 0 < unat c + unat (constantGas oper)) f z)"
    by (rule chargeDynamic_good [OF ok dyn ms]) (use g ok in simp)
  then show "retf (payAndExecute oper E run f z) (step_result (unat (Gas (f_con f)) + unat (constantGas oper)) z)"
    by (rule payAndExecute_good) (auto intro!: exec_step [OF ex] dest: zext_ok)
qed

lemma op_good_memory:
  assumes "exec_good (execute oper)" "dynamicGas oper = Some g" "gas_good True g" "0 < constantGas oper"
    "returns_always (memorySize oper)"
  shows "op_good oper"
  using assms
  by (intro op_good_priced) (auto simp: gas_good_def u64_order elim!: runs_mono)

lemma op_good_access:
  assumes "exec_good (execute oper)" "dynamicGas oper = Some g" "gas_good False g" "0 < constantGas oper"
    "memorySize oper = None"
  shows "op_good oper"
  using assms
  by (intro op_good_priced) (auto simp: gas_good_def u64_order elim!: runs_mono)

text \<open>Instructions that end the frame.\<close>

definition stops :: "executionFunc \<Rightarrow> bool" where
  "stops ex \<longleftrightarrow> (\<forall>E run f z. retf (ex E run f z) (\<lambda>((res, err), f', z'). err \<noteq> None))"

lemma stop_step:
  assumes ex: "exec_good (execute oper)" "stops (execute oper)" and ok: "state_ok (StateDB z)" "mem_ok (f_mem f)"
    and k: "unat (Gas (f_con f)) \<le> k"
  shows "retf (execute oper E run f z) (step_result k z)"
proof -
  have "retf (execute oper E run f z) (exec_post f z)"
    "retf (execute oper E run f z) (\<lambda>((res, err), f', z'). err \<noteq> None)"
    using ex ok by (simp_all add: exec_good_def stops_def)
  from runs_conj [OF this] show ?thesis
    by (rule runs_mono) (use k in \<open>auto simp: exec_post_def step_result_def\<close>)
qed

lemma op_good_stop:
  assumes ex: "exec_good (execute oper)" "stops (execute oper)"
    and g: "\<forall>g. dynamicGas oper = Some g \<longrightarrow> gas_good True g" and ms: "returns_always (memorySize oper)"
  shows "op_good oper"
proof (rule op_goodI)
  fix n E run and f :: frame and z :: zvm
  assume ok: "state_ok (StateDB z)" "mem_ok (f_mem f)"
  have "retf (chargeDynamic E oper f z) (charged (\<lambda>c z'. True) f z)"
  proof (cases "dynamicGas oper")
    case None
    then show ?thesis
      using ok by (auto simp: chargeDynamic_def charged_def zext_refl intro: exI [of _ 0])
  next
    case (Some g)
    then show ?thesis
      using g Some ok by (intro chargeDynamic_good [OF ok Some ms]) (simp add: gas_good_def)
  qed
  then show "retf (payAndExecute oper E run f z) (step_result (unat (Gas (f_con f)) + unat (constantGas oper)) z)"
    by (rule payAndExecute_good) (auto intro!: stop_step [OF ex] dest: zext_ok)
qed

lemma stopping [simp]: "stops opStop" "stops opReturn" "stops opRevert" "stops opUndefined"
  by (auto simp: stops_def opStop_def opReturn_def opRevert_def opUndefined_def opErr_def runs_simps
      intro!: retf_intros)

section \<open>Calls and creations\<close>

definition within :: "nat \<Rightarrow> zvm \<Rightarrow> (bytes \<times> vmerror option) \<times> frame \<times> zvm \<Rightarrow> bool" where
  "within k z = (\<lambda>(r, f', z'). zext z z' \<and> unat (Gas (f_con f')) \<le> k \<and> mem_ok (f_mem f'))"

lemma within_step: "within k z r \<Longrightarrow> k < k' \<Longrightarrow> step_result k' z r"
  by (auto simp: within_def step_result_def)

lemma unat_gas_sum: "unat a + unat b \<le> k \<Longrightarrow> k < 2 ^ 64 \<Longrightarrow> unat (a + b :: uint64) \<le> k"
  using unat_u64_add [of a b] by simp

lemma afterCall_good:
  assumes m: "mem_ok (f_mem f)" and r: "call_result ro gas z r" "readOnly z \<longrightarrow> ro"
    and k: "unat (Gas (f_con f)) + unat gas \<le> k" "k < 2 ^ 64"
  shows "retf (afterCall a b st f r) (within k z)"
proof -
  obtain ret g err z' where r': "r = (ret, g, err, z')"
    by (metis prod_cases4)
  have "zext z z'" "unat (Gas (f_con f) + g) \<le> k"
    using r k by (auto simp: r' call_result_def zext_def same_mode_def intro!: unat_gas_sum intro: moves_weaken)
  then show ?thesis
    using m by (auto simp: afterCall_def r' runs_simps within_def intro!: retf_Mem_Set)
qed

lemma opCall_within:
  assumes run: "runner_good n run" "precompiles_ok E" "state_ok (StateDB z)" and m: "mem_ok (f_mem f)"
    and k: "unat (callGasTemp z) + transfer_cost f + unat (Gas (f_con f)) \<le> k" "k < 2 ^ 64" "k < n"
  shows "retf (opCall E run f z) (within k z)"
proof -
  define gas where "gas val = (if val \<noteq> 0 then callGasTemp z + CallStipend else callGasTemp z)" for val :: uint256
  have g: "unat (Gas (f_con f)) + unat (gas (f_stk f ! 2)) \<le> k"
    using k(1,2) unat_gas_sum [of "callGasTemp z" CallStipend "unat (callGasTemp z) + 2300"]
    by (auto simp: gas_def transfer_cost_def CallStipend_def)
  have "retf (Call E run clr addr args (gas (f_stk f ! 2)) v z) (\<lambda>r. retf (afterCall a b st f r) (within k z))"
    if "readOnly z \<longrightarrow> v = 0" for clr addr args v a b st
    by (rule runs_mono [OF Call_good [OF run _ that]], use g k(3) in simp, erule afterCall_good [OF m _ _ g k(2)], simp)
  then show ?thesis
    using run(3) m k(1)
    by (auto simp: opCall_def runs_simps Let_def opErr_def within_def zext_refl gas_def intro!: retf_Mem_Get)
qed

lemma callOps_within:
  assumes run: "runner_good n run" "precompiles_ok E" "state_ok (StateDB z)" and m: "mem_ok (f_mem f)"
    and k: "unat (callGasTemp z) + unat (Gas (f_con f)) \<le> k" "k < 2 ^ 64" "k < n"
  shows "retf (opDelegateCall E run f z) (within k z)" "retf (opStaticCall E run f z) (within k z)"
proof -
  have g: "unat (Gas (f_con f)) + unat (callGasTemp z) \<le> k"
    using k(1) by simp
  have "retf (DelegateCall E run clr addr args (callGasTemp z) z) (\<lambda>r. retf (afterCall a b st f r) (within k z))"
    "retf (StaticCall E run clr addr args (callGasTemp z) z) (\<lambda>r. retf (afterCall a b st f r) (within k z))"
    for clr addr args a b st
    by (rule runs_mono [OF DelegateCall_good [OF run]] runs_mono [OF StaticCall_good [OF run]],
        use g k(3) in simp, erule afterCall_good [OF m _ _ g k(2)], simp)+
  then show "retf (opDelegateCall E run f z) (within k z)" "retf (opStaticCall E run f z) (within k z)"
    by (auto simp: opDelegateCall_def opStaticCall_def runs_simps intro!: retf_Mem_Get)
qed

lemma afterCreate_good:
  assumes m: "mem_ok (f_mem f)" and r: "create_result clr val gas z r" and ro: "\<not> readOnly z"
    and k: "unat (Gas (f_con f)) + unat gas \<le> k" "k < 2 ^ 64"
  shows "retf (afterCreate st f r) (within k z)"
proof -
  obtain ret a g err z' where r': "r = (ret, a, g, err, z')"
    by (metis prod_cases5)
  have "zext z z'" "unat (Gas (f_con f) + g) \<le> k"
    using r k ro by (auto simp: r' create_result_def zext_def same_mode_def intro!: unat_gas_sum)
  then show ?thesis
    using m by (auto simp: afterCreate_def r' runs_simps within_def cont_def Let_def)
qed

lemma createOps_within:
  assumes run: "runner_good n run" "state_ok (StateDB z)" and m: "mem_ok (f_mem f)"
    and k: "unat (Gas (f_con f)) \<le> k" "k < 2 ^ 64" "k < n"
  shows "retf (opCreate E run f z) (within k z)" "retf (opCreate2 E run f z) (within k z)"
proof -
  define gas where "gas = Gas (f_con f) - Gas (f_con f) div 64"
  define f' where "f' = f\<lparr>f_con := fst (UseGas (f_con f) gas)\<rparr>"
  have "unat (Gas (f_con f) div 64) \<le> unat (Gas (f_con f))"
    by (simp add: unat_div)
  then have "unat gas = unat (Gas (f_con f)) - unat (Gas (f_con f)) div 64"
    by (simp add: gas_def unat_div unat_sub_if_size)
  then have g: "unat (Gas (f_con f')) + unat gas \<le> k" and n: "unat gas < n" and m': "mem_ok (f_mem f')"
    using k m by (auto simp: f'_def UseGas_exact unat_of_nat unat_sub_if_size)
  have "retf (Create E run clr args gas v z) (\<lambda>r. retf (afterCreate st f' r) (within k z))"
    "retf (Create2 E run clr args gas v salt z) (\<lambda>r. retf (afterCreate st f' r) (within k z))"
    if "\<not> readOnly z" for clr args v st salt
    by (rule runs_mono [OF Create_good [OF run(1) n run(2)]] runs_mono [OF Create2_good [OF run(1) n run(2)]],
        erule afterCreate_good [OF m' _ that g k(2)])+
  then show "retf (opCreate E run f z) (within k z)" "retf (opCreate2 E run f z) (within k z)"
    using run(2) m k(1)
    by (auto simp: opCreate_def opCreate2_def runs_simps Let_def opErr_def within_def zext_refl gas_def f'_def
        intro!: retf_Mem_Get)
qed

lemma op_good_call:
  assumes dyn: "dynamicGas oper = Some g" and ms: "returns_always (memorySize oper)" "memorySize oper \<noteq> None"
    and c: "0 < constantGas oper"
    and g: "\<And>E f ms z. state_ok (StateDB z) \<Longrightarrow> mem_ok (f_mem f) \<Longrightarrow> retf (g E f ms z)
      (\<lambda>(r, f', z'). gas_post f ms z (r, f', z') \<and> (\<forall>c. r = Inr c \<longrightarrow> R f c z'))"
    and ex: "\<And>n E run f f' z c k. runner_good n run \<Longrightarrow> precompiles_ok E \<Longrightarrow> state_ok (StateDB z) \<Longrightarrow>
      mem_ok (f_mem f) \<Longrightarrow> f_stk f = f_stk f' \<Longrightarrow> R f' c z \<Longrightarrow> unat (Gas (f_con f)) + unat c = k \<Longrightarrow>
      k < 2 ^ 64 \<Longrightarrow> k < n \<Longrightarrow> retf (execute oper E run f z) (within k z)"
  shows "op_good oper"
proof (rule op_goodI)
  fix n E run and f :: frame and z :: zvm
  assume run: "runner_good n run" "precompiles_ok E" and ok: "state_ok (StateDB z)" "mem_ok (f_mem f)"
    and n: "unat (Gas (f_con f)) + unat (constantGas oper) \<le> n"
  have c0: "0 < unat (constantGas oper)"
    using c by (simp add: u64_order)
  have "retf (chargeDynamic E oper f z) (charged (R f) f z)"
    by (rule chargeDynamic_good [OF ok dyn ms(1) g [OF ok]])
  then show "retf (payAndExecute oper E run f z) (step_result (unat (Gas (f_con f)) + unat (constantGas oper)) z)"
  proof (rule payAndExecute_good)
    fix f' :: frame and z' :: zvm and c
    assume "zext z z'" "mem_ok (f_mem f')" "f_stk f' = f_stk f" "R f c z'"
      "unat (Gas (f_con f')) + unat c = unat (Gas (f_con f))"
    then have "retf (execute oper E run f' z') (within (unat (Gas (f_con f))) z')"
      using n c0 unat_u64_less [of "Gas (f_con f)"] by (intro ex [OF run]) (auto dest: zext_ok)
    then show "retf (execute oper E run f' z') (step_result (unat (Gas (f_con f)) + unat (constantGas oper)) z')"
      by (rule runs_mono) (use c0 in \<open>auto intro: within_step\<close>)
  qed
qed

lemma call_ops_good:
  "execute oper = opCall \<Longrightarrow> dynamicGas oper = Some gasCallEIP2929 \<Longrightarrow> memorySize oper = Some memoryCall \<Longrightarrow>
     0 < constantGas oper \<Longrightarrow> op_good oper"
  "execute oper = opDelegateCall \<Longrightarrow> dynamicGas oper = Some gasDelegateCallEIP2929 \<Longrightarrow>
     memorySize oper = Some memoryDelegateCall \<Longrightarrow> 0 < constantGas oper \<Longrightarrow> op_good oper"
  "execute oper = opStaticCall \<Longrightarrow> dynamicGas oper = Some gasStaticCallEIP2929 \<Longrightarrow>
     memorySize oper = Some memoryStaticCall \<Longrightarrow> 0 < constantGas oper \<Longrightarrow> op_good oper"
  subgoal by (rule op_good_call [OF _ _ _ _ call_gas_good(1)]) (auto intro!: opCall_within simp: transfer_cost_def)
  subgoal by (rule op_good_call [OF _ _ _ _ call_gas_good(2)]) (auto intro!: callOps_within)
  subgoal by (rule op_good_call [OF _ _ _ _ call_gas_good(3)]) (auto intro!: callOps_within)
  done

lemma create_ops_good:
  assumes "execute oper = opCreate \<and> dynamicGas oper = Some gasCreateEip3860 \<and> memorySize oper = Some memoryCreate \<or>
    execute oper = opCreate2 \<and> dynamicGas oper = Some gasCreate2Eip3860 \<and> memorySize oper = Some memoryCreate2"
    and "0 < constantGas oper"
  shows "op_good oper"
proof -
  obtain g where g: "dynamicGas oper = Some g" "gas_good True g"
    using assms gasCreate_good by auto
  have "retf (g E f ms z) (\<lambda>(r, f', z'). gas_post f ms z (r, f', z') \<and> (\<forall>c. r = Inr c \<longrightarrow> True))"
    if "state_ok (StateDB z)" "mem_ok (f_mem f)" for E f ms z
    using g(2) that by (simp add: gas_good_def)
  from op_good_call [OF g(1) _ _ assms(2) this] show ?thesis
    by (rule meta_mp) (use assms(1) in \<open>auto intro!: createOps_within\<close>)
qed

section \<open>The jump table\<close>

text \<open>The instructions without a constant price have a positive dynamic price.\<close>

lemma unat_gas_add: "unat a + unat b < 2 ^ 64 \<Longrightarrow> unat (a + b :: uint64) = unat a + unat b"
  using unat_u64_add [of a b] by simp

lemma positive_prices:
  "retf (gasExpEIP158 E f ms z) (\<lambda>(r, f', z'). \<forall>c. r = Inr c \<longrightarrow> 0 < unat c)"
  "retf (makeGasLog n E f ms z) (\<lambda>(r, f', z'). \<forall>c. r = Inr c \<longrightarrow> 0 < unat c)"
  "state_ok (StateDB z) \<Longrightarrow> retf (gasSLoadEIP2929 E f ms z) (\<lambda>(r, f', z'). \<forall>c. r = Inr c \<longrightarrow> 0 < unat c)"
  by (auto simp: gasExpEIP158_def makeGasLog_def gasSLoadEIP2929_def runs_simps Let_def unat_gas_add params
      intro!: retf_mulGas retf_withMemoryGas retf_SlotIn retf_AddSlot)

lemma op_good_free:
  assumes ex: "exec_good (execute oper)" and dyn: "dynamicGas oper = Some g" "gas_good withMem g"
    and ms: "withMem \<or> memorySize oper = None" "returns_always (memorySize oper)"
    and pos: "\<And>E f ms z. state_ok (StateDB z) \<Longrightarrow>
      retf (g E f ms z) (\<lambda>(r, f', z'). \<forall>c. r = Inr c \<longrightarrow> 0 < unat c)"
  shows "op_good oper"
proof (rule op_good_priced [OF ex dyn(1) _ ms(2)])
  fix E and sz :: uint64 and f :: frame and z :: zvm
  assume ok: "state_ok (StateDB z)" "mem_ok (f_mem f)" "memorySize oper = None \<longrightarrow> sz = 0"
  have "retf (g E f sz z) (gas_post f sz z)"
    using ok dyn(2) ms(1) by (auto simp: gas_good_def)
  from runs_conj [OF this pos [OF ok(1)]]
  show "retf (g E f sz z) (\<lambda>(r, f', z'). gas_post f sz z (r, f', z') \<and>
      (\<forall>c. r = Inr c \<longrightarrow> 0 < unat c + unat (constantGas oper)))"
    by (rule runs_mono) auto
qed

lemma free_ops_good:
  "execute oper = opExp \<Longrightarrow> dynamicGas oper = Some gasExpEIP158 \<Longrightarrow> memorySize oper = None \<Longrightarrow> op_good oper"
  "execute oper = opSload \<Longrightarrow> dynamicGas oper = Some gasSLoadEIP2929 \<Longrightarrow> memorySize oper = None \<Longrightarrow> op_good oper"
  "execute oper = makeLog k \<Longrightarrow> dynamicGas oper = Some (makeGasLog n) \<Longrightarrow> memorySize oper = Some memoryLog \<Longrightarrow>
     op_good oper"
  subgoal by (rule op_good_free [OF _ _ gasExpEIP158_good _ _ positive_prices(1)]) (simp_all add: arith_good)
  subgoal by (rule op_good_free [OF _ _ gasSLoad_good _ _ positive_prices(3)]) (simp_all add: state_read_good)
  subgoal by (rule op_good_free [OF _ _ makeGasLog_good _ _ positive_prices(2)]) (simp_all add: makeLog_good)
  done

lemma sstore_good:
  assumes "execute oper = opSstore" "dynamicGas oper = Some gasSStoreEIP3529" "memorySize oper = None"
  shows "op_good oper"
proof (rule op_good_priced)
  show "exec_good (execute oper)"
    using assms opSstore_good by simp
  show "retf (gasSStoreEIP3529 E f ms z) (\<lambda>(r, f', z'). gas_post f ms z (r, f', z') \<and>
      (\<forall>c. r = Inr c \<longrightarrow> 0 < unat c + unat (constantGas oper)))"
    if "state_ok (StateDB z)" "memorySize oper = None \<longrightarrow> ms = 0" for E f ms z
    using makeGasSStore_good [OF that(1), of SstoreClearsScheduleRefundEIP3529 E f] that(2) assms(3)
    by (auto simp: gasSStoreEIP3529_def u64_order elim!: runs_mono)
qed (use assms in simp_all)

lemmas plain_instructions = arith_good context_good block_good stack_good memory_good state_read_good
  opExtCodeCopy_good opExtCodeHash_good opKeccak256_good jump_good

lemmas memory_prices =
  memoryCopierGas_good gasKeccak256_good pureMemoryGascost_good gasExtCodeCopy_good
  memoryCopierGas_good [of 2, folded gasCallDataCopy_def] memoryCopierGas_good [of 2, folded gasCodeCopy_def]
  memoryCopierGas_good [of 2, folded gasReturnDataCopy_def]
  pureMemoryGascost_good [folded gasReturn_def] pureMemoryGascost_good [folded gasRevert_def]
  pureMemoryGascost_good [folded gasMLoad_def] pureMemoryGascost_good [folded gasMStore_def]
  pureMemoryGascost_good [folded gasMStore8_def]

lemmas instruction_rules = op_good_constant op_good_memory op_good_access op_good_stop free_ops_good sstore_good
  call_ops_good create_ops_good

lemma undefined_good: "op_good undefined_operation"
  by (rule op_good_stop) (simp_all add: undefined_operation_def plain_instructions)

lemma table_good_1: "\<forall>x \<in> set shanghai_1. op_good (snd x)"
  unfolding shanghai_1_def
  by (simp add: instruction_rules plain_instructions memory_prices gasAccountCheck_good params)

lemma table_good_2: "\<forall>x \<in> set shanghai_2. op_good (snd x)"
  unfolding shanghai_2_def
  by (simp add: instruction_rules plain_instructions memory_prices gasAccountCheck_good params)

lemma table_good_3: "\<forall>x \<in> set shanghai_3. op_good (snd x)"
  unfolding shanghai_3_def
  by (simp add: instruction_rules plain_instructions memory_prices gasAccountCheck_good params)

lemma table_good_4: "\<forall>x \<in> set shanghai_4. op_good (snd x)"
  unfolding shanghai_4_def
  by (simp add: instruction_rules plain_instructions memory_prices gasAccountCheck_good params)

lemma table_good_5: "\<forall>x \<in> set shanghai_5. op_good (snd x)"
  unfolding shanghai_5_def
  by (simp add: instruction_rules plain_instructions memory_prices gasAccountCheck_good params)

lemma table_good_6: "\<forall>x \<in> set shanghai_6. op_good (snd x)"
  unfolding shanghai_6_def
  by (simp add: instruction_rules plain_instructions memory_prices gasAccountCheck_good params)

lemma table_good_7: "\<forall>x \<in> set shanghai_7. op_good (snd x)"
  unfolding shanghai_7_def
  by (simp add: instruction_rules plain_instructions memory_prices gasAccountCheck_good params)

lemma instruction_good: "op_good (newShanghaiInstructionSet b)"
proof (cases "map_of shanghai_entries b")
  case None
  then show ?thesis
    by (simp add: newShanghaiInstructionSet_def undefined_good)
next
  case (Some oper)
  then have "(b, oper) \<in> set shanghai_entries"
    by (rule map_of_SomeD)
  then have "op_good (snd (b, oper))"
    using table_good_1 table_good_2 table_good_3 table_good_4 table_good_5 table_good_6 table_good_7
    unfolding shanghai_entries_def set_append by blast
  then show ?thesis
    using Some by (simp add: newShanghaiInstructionSet_def)
qed

section \<open>The main loop\<close>

lemma loopBody_good:
  assumes run: "runner_good n run" "precompiles_ok E" and ok: "state_ok (StateDB z)" "mem_ok (f_mem f)"
    and n: "unat (Gas (f_con f)) \<le> n"
  shows "retf (loopBody E run f z) (step_result (unat (Gas (f_con f))) z)"
proof -
  define oper where "oper = newShanghaiInstructionSet (GetOp (f_con f) (f_pc f))"
  have err: "retf (opErr e f z) (step_result (unat (Gas (f_con f))) z)" for e
    using ok by (simp add: opErr_def step_result_def zext_refl)
  have go: "retf (payAndExecute oper E run (f\<lparr>f_con := con\<rparr>) z) (step_result (unat (Gas (f_con f))) z)"
    if "UseGas (f_con f) (constantGas oper) = (con, True)" for con
  proof -
    have "unat (Gas con) + unat (constantGas oper) = unat (Gas (f_con f))"
      using that by (auto simp: UseGas_exact unat_sub_if_size word_le_nat_alt split: if_splits)
    then show ?thesis
      using instruction_good [of "GetOp (f_con f) (f_pc f)", folded oper_def, unfolded op_good_def, rule_format,
          OF run ok(1), of "f\<lparr>f_con := con\<rparr>"] ok n by simp
  qed
  show ?thesis
    using err go
    by (cases "UseGas (f_con f) (constantGas oper)")
      (auto simp: loopBody_def oper_def [symmetric] payAndExecute_def [symmetric] Let_def UseGas_exact
        split: if_splits)
qed

definition loop_result :: "frame \<Rightarrow> zvm \<Rightarrow> bytes \<times> vmerror option \<times> frame \<times> zvm \<Rightarrow> bool" where
  "loop_result f z = (\<lambda>(res, err, f', z'). zext z z' \<and> unat (Gas (f_con f')) \<le> unat (Gas (f_con f)))"

lemma RunWith_good:
  assumes loop: "\<And>f z. state_ok (StateDB z) \<Longrightarrow> mem_ok (f_mem f) \<Longrightarrow> unat (Gas (f_con f)) < n \<Longrightarrow>
    retf (loop f z) (loop_result f z)"
  shows "runner_good n (RunWith loop)"
  unfolding runner_good_def
proof (intro allI impI)
  fix con :: contract and input ro and z :: zvm
  assume ok: "state_ok (StateDB z)" and g: "unat (Gas con) < n"
  define z1 where "z1 = (if ro \<and> \<not> readOnly z then z\<lparr>z_depth := z_depth z + 1, readOnly := True\<rparr>
    else z\<lparr>z_depth := z_depth z + 1\<rparr>)\<lparr>returnData := []\<rparr>"
  have z1 [simp]: "StateDB z1 = StateDB z" "z_depth z1 = z_depth z + 1" "readOnly z1 = (readOnly z \<or> ro)"
    by (auto simp: z1_def)
  define f where "f = \<lparr>f_pc = 0, f_mem = NewMemory, f_stk = [], f_con = con\<lparr>Input := input\<rparr>\<rparr>"
  have l: "retf (loop f z1) (loop_result f z1)"
    using ok g by (intro loop) (simp_all add: f_def)
  have "retf (loop f z1) (\<lambda>(ret, err, f', z'). moves (ro \<or> readOnly z) (StateDB z) (StateDB z') \<and>
      same_mode z (z'\<lparr>z_depth := z_depth z' - 1, readOnly := (if ro \<and> \<not> readOnly z then False else readOnly z')\<rparr>) \<and>
      unat (Gas (f_con f')) \<le> unat (Gas con))"
    by (rule runs_mono [OF l]) (auto simp: loop_result_def zext_def same_mode_def f_def disj_commute)
  then show "retf (RunWith loop con input ro z)
      (\<lambda>(ret, err, con', z'). moves (ro \<or> readOnly z) (StateDB z) (StateDB z') \<and> same_mode z z' \<and>
        unat (Gas con') \<le> unat (Gas con))"
    using ok by (auto simp: RunWith_def Let_def z1_def [symmetric] f_def same_mode_def moves_refl split_def)
qed

lemma Run_loop_good:
  assumes pre: "precompiles_ok E"
  shows "state_ok (StateDB z) \<Longrightarrow> mem_ok (f_mem f) \<Longrightarrow> unat (Gas (f_con f)) < n \<Longrightarrow>
    retf (Run_loop n E f z) (loop_result f z)"
proof (induction n arbitrary: f z)
  case (Suc n)
  have run: "runner_good n (RunWith (Run_loop n E))"
    using Suc.IH by (rule RunWith_good)
  have "retf (case err of None \<Rightarrow> Run_loop n E (f'\<lparr>f_pc := f_pc f' + 1\<rparr>) z'
      | Some e \<Rightarrow> Inr (res, if e = errStopToken then None else Some e, f', z')) (loop_result f z)"
    if r: "step_result (unat (Gas (f_con f))) z ((res, err), f', z')" for res err f' z'
  proof (cases err)
    case None
    have "retf (Run_loop n E (f'\<lparr>f_pc := f_pc f' + 1\<rparr>) z') (loop_result (f'\<lparr>f_pc := f_pc f' + 1\<rparr>) z')"
      using r None Suc.prems(3) by (intro Suc.IH) (auto simp: step_result_def dest: zext_ok)
    then have "retf (Run_loop n E (f'\<lparr>f_pc := f_pc f' + 1\<rparr>) z') (loop_result f z)"
      by (rule runs_mono) (use r in \<open>auto simp: loop_result_def step_result_def intro: zext_trans\<close>)
    then show ?thesis
      using None by simp
  qed (use r in \<open>auto simp: step_result_def loop_result_def\<close>)
  then show ?case
    using loopBody_good [OF run pre Suc.prems(1,2)] Suc.prems(3)
    by (auto intro!: runs_mono [OF loopBody_good [OF run pre Suc.prems(1,2)]])
qed simp

lemma Run_good: "precompiles_ok E \<Longrightarrow> runner_good n (Run n E)"
  unfolding Run_def by (rule RunWith_good [OF Run_loop_good])

end
