(* ===== verification/ZVM_Fuel.thy ===== *)
theory ZVM_Fuel
  imports ZVM_Interpreter
begin

text \<open>
  The bound on the iterations of \<open>Run_loop\<close> is not part of the program. It decides only whether a
  run comes to its end: a run that ends with some bound ends with the same result with every larger
  one. Results are ordered with \<open>OutOfFuel\<close> below everything else, and every operation that takes the
  interpreter as an argument is monotone in it.
\<close>

definition below :: "'a go \<Rightarrow> 'a go \<Rightarrow> bool" where
  "below m m' \<longleftrightarrow> m = Inl OutOfFuel \<or> m = m'"

lemma below_refl [simp]: "below m m"
  by (simp add: below_def)

lemma below_fuel [simp]: "below (Inl OutOfFuel) m"
  by (simp add: below_def)

lemma below_trans: "below m m' \<Longrightarrow> below m' m'' \<Longrightarrow> below m m''"
  by (auto simp: below_def)

lemma below_andThen:
  "below m m' \<Longrightarrow> (\<And>a. below (k a) (k' a)) \<Longrightarrow> below (andThen m k) (andThen m' k')"
  by (cases m; cases m') (force simp: below_def)+

lemma below_cases:
  "(c \<Longrightarrow> below m m') \<Longrightarrow> (\<not> c \<Longrightarrow> below n n') \<Longrightarrow> below (if c then m else n) (if c then m' else n')"
  "(\<And>a b. below (f a b) (f' a b)) \<Longrightarrow> below (case p of (a, b) \<Rightarrow> f a b) (case p of (a, b) \<Rightarrow> f' a b)"
  "(\<And>a b. below (h a b x) (h' a b x)) \<Longrightarrow> below ((case p of (a, b) \<Rightarrow> h a b) x) ((case p of (a, b) \<Rightarrow> h' a b) x)"
  "(opt = None \<Longrightarrow> below m m') \<Longrightarrow> (\<And>a. opt = Some a \<Longrightarrow> below (g a) (g' a)) \<Longrightarrow>
     below (case opt of None \<Rightarrow> m | Some a \<Rightarrow> g a) (case opt of None \<Rightarrow> m' | Some a \<Rightarrow> g' a)"
  by (auto split: prod.split option.split)

definition runner_below :: "runner \<Rightarrow> runner \<Rightarrow> bool" where
  "runner_below run run' \<longleftrightarrow> (\<forall>con input ro z. below (run con input ro z) (run' con input ro z))"

lemmas below_intros = below_refl below_andThen below_cases

section \<open>Calls\<close>

lemma calls_below:
  assumes "runner_below run run'"
  shows "below (Call E run clr addr input gas val z) (Call E run' clr addr input gas val z)"
    "below (DelegateCall E run clr addr input gas z) (DelegateCall E run' clr addr input gas z)"
    "below (StaticCall E run clr addr input gas z) (StaticCall E run' clr addr input gas z)"
proof -
  have run: "below (run con input ro z) (run' con input ro z)" for con input ro z
    using assms by (simp add: runner_below_def)
  show "below (Call E run clr addr input gas val z) (Call E run' clr addr input gas val z)"
    "below (DelegateCall E run clr addr input gas z) (DelegateCall E run' clr addr input gas z)"
    "below (StaticCall E run clr addr input gas z) (StaticCall E run' clr addr input gas z)"
    unfolding Call_def executeCall_def DelegateCall_def StaticCall_def Let_def by (intro below_intros run)+
qed

lemma creates_below:
  assumes "runner_below run run'"
  shows "below (Create E run clr code gas val z) (Create E run' clr code gas val z)"
    "below (Create2 E run clr code gas val salt z) (Create2 E run' clr code gas val salt z)"
proof -
  have run: "below (run con input ro z) (run' con input ro z)" for con input ro z
    using assms by (simp add: runner_below_def)
  show "below (Create E run clr code gas val z) (Create E run' clr code gas val z)"
    "below (Create2 E run clr code gas val salt z) (Create2 E run' clr code gas val salt z)"
    unfolding Create_def Create2_def create_def executeCreate_def Let_def by (intro below_intros run)+
qed

section \<open>Instructions\<close>

definition op_below :: "operation \<Rightarrow> bool" where
  "op_below oper \<longleftrightarrow> (\<forall>E run run' f z. runner_below run run' \<longrightarrow>
     below (execute oper E run f z) (execute oper E run' f z))"

lemma op_below_pure: "(\<forall>E run run' f z. execute oper E run f z = execute oper E run' f z) \<Longrightarrow> op_below oper"
  unfolding op_below_def by (metis below_refl)

lemma op_below_calls:
  "execute oper = opCall \<Longrightarrow> op_below oper" "execute oper = opDelegateCall \<Longrightarrow> op_below oper"
  "execute oper = opStaticCall \<Longrightarrow> op_below oper" "execute oper = opCreate \<Longrightarrow> op_below oper"
  "execute oper = opCreate2 \<Longrightarrow> op_below oper"
  unfolding op_below_def
  by (auto simp: opCall_def opDelegateCall_def opStaticCall_def opCreate_def opCreate2_def Let_def
      intro!: below_intros calls_below creates_below)

lemmas instruction_defs =
  opAdd_def opSub_def opMul_def opDiv_def opSdiv_def opMod_def opSmod_def opExp_def opSignExtend_def opNot_def
  opLt_def opGt_def opSlt_def opSgt_def opEq_def opIszero_def opAnd_def opOr_def opXor_def opByte_def
  opAddmod_def opMulmod_def opSHL_def opSHR_def opSAR_def opKeccak256_def opAddress_def opBalance_def
  opOrigin_def opCaller_def opCallValue_def opCallDataLoad_def opCallDataSize_def opCallDataCopy_def
  opReturnDataSize_def opReturnDataCopy_def opExtCodeSize_def opCodeSize_def opCodeCopy_def opExtCodeCopy_def
  opExtCodeHash_def opGasprice_def opBlockhash_def opCoinbase_def opTimestamp_def opNumber_def opRandom_def
  opGasLimit_def opSelfBalance_def opChainID_def opBaseFee_def opPop_def opMload_def opMstore_def opMstore8_def
  opSload_def opSstore_def opJump_def opJumpi_def opJumpdest_def opPc_def opMsize_def opGas_def opReturn_def
  opRevert_def opUndefined_def opStop_def makeLog_def opPush0_def opPush1_def makePush_def makeDup_def
  makeSwap_def unop_def binop_def ternop_def pushop_def

lemma table_below:
  "\<forall>x \<in> set shanghai_1. op_below (snd x)" "\<forall>x \<in> set shanghai_2. op_below (snd x)"
  "\<forall>x \<in> set shanghai_3. op_below (snd x)" "\<forall>x \<in> set shanghai_4. op_below (snd x)"
  "\<forall>x \<in> set shanghai_5. op_below (snd x)" "\<forall>x \<in> set shanghai_6. op_below (snd x)"
  "\<forall>x \<in> set shanghai_7. op_below (snd x)"
  unfolding shanghai_1_def shanghai_2_def shanghai_3_def shanghai_4_def shanghai_5_def shanghai_6_def shanghai_7_def
  by (simp_all add: op_below_pure op_below_calls instruction_defs)

lemma instruction_below: "op_below (newShanghaiInstructionSet b)"
proof (cases "map_of shanghai_entries b")
  case None
  then show ?thesis
    by (simp add: newShanghaiInstructionSet_def undefined_operation_def op_below_pure opUndefined_def)
next
  case (Some oper)
  then have "(b, oper) \<in> set shanghai_entries"
    by (rule map_of_SomeD)
  then have "op_below (snd (b, oper))"
    using table_below unfolding shanghai_entries_def set_append by blast
  then show ?thesis
    using Some by (simp add: newShanghaiInstructionSet_def)
qed

section \<open>The main loop\<close>

lemma loopBody_below:
  assumes "runner_below run run'"
  shows "below (loopBody E run f z) (loopBody E run' f z)"
  using assms instruction_below
  unfolding loopBody_def Let_def by (intro below_intros) (simp add: op_below_def)

lemma RunWith_below:
  "(\<And>f z. below (loop f z) (loop' f z)) \<Longrightarrow> runner_below (RunWith loop) (RunWith loop')"
  unfolding runner_below_def RunWith_def Let_def by (intro allI below_intros)

lemma iteration_below:
  "(\<And>f z. below (Run_loop m E f z) (Run_loop n E f z)) \<Longrightarrow>
     below (Run_loop (Suc m) E f z) (Run_loop (Suc n) E f z)"
  unfolding Run_loop.simps(2) by (intro below_intros loopBody_below RunWith_below)

lemma Run_loop_Suc_below: "below (Run_loop n E f z) (Run_loop (Suc n) E f z)"
proof (induction n arbitrary: f z)
  case (Suc n)
  show ?case
    by (rule iteration_below [OF Suc.IH])
qed simp

lemma Run_loop_below: "m \<le> n \<Longrightarrow> below (Run_loop m E f z) (Run_loop n E f z)"
  by (induction rule: dec_induct) (auto intro: below_trans Run_loop_Suc_below simp del: Run_loop.simps)

lemma Run_below: "m \<le> n \<Longrightarrow> runner_below (Run m E) (Run n E)"
  unfolding Run_def by (rule RunWith_below [OF Run_loop_below])

end
