(* ===== verification/ZVM_Results.thy ===== *)
theory ZVM_Results
  imports ZVM_Termination ZVM_Fuel "HOL-Library.Signed_Division"
begin

text \<open>
  What a caller of the virtual machine can rely on: the entry points \<open>Call\<close>, \<open>DelegateCall\<close>,
  \<open>StaticCall\<close>, \<open>Create\<close> and \<open>Create2\<close> of \<open>core/vm/zvm.go\<close> with the interpreter and the
  precompiled contracts of the repository.
\<close>

unbundle bit_operations_syntax

section \<open>The precompiled contracts\<close>

lemma pairingPoints_returns: "retf (pairingPoints L input i n cs ts) (\<lambda>_. True)"
  by (induction n arbitrary: i cs ts) (auto intro!: retf_go_slice split: sum.split)

lemma precompiled_run:
  "retf (depositroot_Run L input) (\<lambda>_. True)" "retf (sha256hash_Run L input) (\<lambda>_. True)"
  "retf (dataCopy_Run input) (\<lambda>_. True)" "retf (bigModExp_Run input) (\<lambda>_. True)"
  "retf (runBn256Add L input) (\<lambda>_. True)" "retf (runBn256ScalarMul L input) (\<lambda>_. True)"
  "retf (runBn256Pairing L input) (\<lambda>_. True)"
  by (auto simp: depositroot_Run_def sha256hash_Run_def dataCopy_Run_def bigModExp_Run_def runBn256Add_def
      runBn256ScalarMul_def runBn256Pairing_def Let_def runs_if split: sum.split
      intro!: retf_getData runs_mono [OF pairingPoints_returns])

lemma precompiled_gas:
  "retf (depositroot_RequiredGas input) (\<lambda>_. True)" "retf (sha256hash_RequiredGas input) (\<lambda>_. True)"
  "retf (dataCopy_RequiredGas input) (\<lambda>_. True)" "retf (bigModExp_RequiredGas b input) (\<lambda>_. True)"
  "retf (bn256AddIstanbul_RequiredGas input) (\<lambda>_. True)"
  "retf (bn256ScalarMulIstanbul_RequiredGas input) (\<lambda>_. True)"
  "retf (bn256PairingIstanbul_RequiredGas input) (\<lambda>_. True)"
  by (auto simp: depositroot_RequiredGas_def sha256hash_RequiredGas_def dataCopy_RequiredGas_def
      bigModExp_RequiredGas_def modexp_expHead_def bn256AddIstanbul_RequiredGas_def
      bn256ScalarMulIstanbul_RequiredGas_def bn256PairingIstanbul_RequiredGas_def Let_def runs_if
      intro!: retf_getData)

lemma precompiled_ok: "precompile E = PrecompiledContractsBerlin L \<Longrightarrow> precompiles_ok E"
  by (auto simp: precompiles_ok_def PrecompiledContractsBerlin_def precompiled_run precompiled_gas
      split: if_splits)

lemma below_returns: "below m m' \<Longrightarrow> retf m Q \<Longrightarrow> m' = m"
  by (auto simp: below_def)

lemma retf_not_fuel: "retf m Q \<Longrightarrow> m \<noteq> Inl OutOfFuel"
  by auto

lemma below_result: "below m m' \<Longrightarrow> m = Inr a \<Longrightarrow> m' = Inr a"
  by (auto simp: below_def)

section \<open>A concrete machine\<close>

text \<open>Arithmetic on 256-bit words as an instance of the library, in the reading its documentation
  gives.\<close>

definition u256_ext :: "uint256 \<Rightarrow> uint256 \<Rightarrow> uint256" where
  "u256_ext num back = (if back < 31 then signed_take_bit (8 * unat back + 7) num else num)"

definition u256_words :: u256_lib where
  "u256_words =
     \<lparr>u_Add = (+), u_Sub = (-), u_Mul = (*), u_Div = (\<lambda>x y. if y = 0 then 0 else x div y),
      u_SDiv = (\<lambda>x y. if y = 0 then 0 else word_of_int (sint x sdiv sint y)),
      u_Mod = (\<lambda>x y. if y = 0 then 0 else x mod y),
      u_SMod = (\<lambda>x y. if y = 0 then 0 else word_of_int (sint x smod sint y)),
      u_Exp = (\<lambda>x y. x ^ unat y), u_ExtendSign = u256_ext, u_Not = NOT,
      u_And = (AND), u_Or = (OR), u_Xor = (XOR),
      u_Byte = (\<lambda>x n. if n < 32 then drop_bit (248 - 8 * unat n) x AND 255 else 0),
      u_AddMod = (\<lambda>x y m. if m = 0 then 0 else word_of_int ((uint x + uint y) mod uint m)),
      u_MulMod = (\<lambda>x y m. if m = 0 then 0 else word_of_int (uint x * uint y mod uint m)),
      u_Lsh = (\<lambda>x n. push_bit n x), u_Rsh = (\<lambda>x n. drop_bit n x), u_SRsh = (\<lambda>x n. signed_drop_bit n x),
      u_Lt = (<), u_Gt = (>), u_Slt = (\<lambda>x y. sint x < sint y), u_Sgt = (\<lambda>x y. sint x > sint y), u_Eq = (=),
      u_LtUint64 = (\<lambda>x n. uint x < uint n), u_GtUint64 = (\<lambda>x n. uint x > uint n),
      u_Sign = (\<lambda>x. if x = 0 then 0 else if sint x < 0 then -1 else 1),
      u_BitLen = (\<lambda>x. bit_len (unat x))\<rparr>"

text \<open>Stand-ins for the curve and hash libraries.\<close>

definition sample_crypto :: "(unit, unit, bytes) crypto_lib" where
  "sample_crypto =
     \<lparr>sha256_Sum256 = (\<lambda>b. replicate 32 0), G1_Unmarshal = (\<lambda>_. Inr ()), G1_Marshal = (\<lambda>_. replicate 64 0),
      G1_Add = (\<lambda>_ _. ()), G1_ScalarMult = (\<lambda>_ _. ()), G2_Unmarshal = (\<lambda>_. Inr ()),
      PairingCheck = (\<lambda>_ _. True), ssz_Hasher = [], ssz_Index = length, ssz_PutBytes = (\<lambda>b h. h @ b),
      ssz_PutUint64 = (\<lambda>_ h. h), ssz_Merkleize = (\<lambda>_ h. h), ssz_MerkleizeVectorizedHTR = (\<lambda>_ h. h),
      ssz_EnableVectorizedHTR = False, ssz_HashRoot = (\<lambda>_. Inr (replicate 32 0))\<rparr>"

definition sample_env :: zenv where
  "sample_env =
     \<lparr>u256 = u256_words,
      Context = \<lparr>GetHash = (\<lambda>_. 0), Coinbase = 9, GasLimit = 30000000, BlockNumber = 1, BlockTime = 1,
        BaseFee = Some 7, Random = Some 3\<rparr>,
      TxCtx = \<lparr>Origin = 1, GasPrice = 7\<rparr>, ChainID = 1, EnablePreimageRecording = False, NoBaseFee = False,
      precompile = PrecompiledContractsBerlin sample_crypto\<rparr>"

text \<open>A machine in which address 16 holds the given code.\<close>

definition sample_zvm :: "bytes \<Rightarrow> zvm" where
  "sample_zvm code =
     \<lparr>StateDB = SetCode 16 code sample_state, z_depth = 0, callGasTemp = 0, readOnly = False, returnData = [],
      z_jumpdests = Map.empty, aborts = (\<lambda>_. False)\<rparr>"

lemma sample_machine:
  "state_ok (StateDB (sample_zvm code))" "precompile sample_env = PrecompiledContractsBerlin sample_crypto"
  using extends_state_ok [OF SetCode_extends [OF sample_ok(1)]] by (simp_all add: sample_zvm_def sample_env_def)

text \<open>A transfer of five to the copy contract at address 4, which asks for 15 gas.\<close>

lemma sample_balance: "fst (GetBalance a (StateDB (sample_zvm code))) = 7"
proof -
  have "fst (GetBalance a sample_state) = 7"
    by (simp add: GetBalance_def getStateObject_def getDeletedStateObject_def sample_state_def New_def readAccount_def
        newObject_def Let_def)
  moreover have "fst (GetBalance a (SetCode 16 code sample_state)) = fst (GetBalance a sample_state)"
    using GetBalance_withObject [OF sample_ok(1), where h = "\<lambda>x. x" and a = 16 and b = a
        and f = "so_SetCode (Keccak256Hash (db sample_state) code) code", OF so_SetCode_keeps]
      SetCode_extends [OF sample_ok(1), of 16 code]
    by (simp add: SetCode_def)
  ultimately show ?thesis
    by (simp add: sample_zvm_def)
qed

lemma sample_call:
  "\<exists>z'. Call sample_env run (AccountRef 1) 4 [] gas 5 (sample_zvm code) =
     Inr ([], if gas < 15 then 0 else gas - 15, if gas < 15 then Some ErrOutOfGas else None, z')"
proof -
  let ?z = "sample_zvm code"
  note ok = sample_machine(1) [of code]
  obtain s0 where s0: "CanTransfer (StateDB ?z) 1 5 = (True, s0)"
    using sample_balance [of 1 code] by (cases "GetBalance 1 (StateDB ?z)") (auto simp: CanTransfer_def)
  have ok0: "state_ok s0"
    using moves_state_ok [OF moves_quiet [OF ok CanTransfer_quiet [OF state_ok_wf [OF ok] s0]]] .
  obtain i s1 ex s2 where sn: "Snapshot s0 = (i, s1)" and ex: "Exist 4 s1 = (ex, s2)"
    by fastforce
  define s3 where "s3 = Transfer (if \<not> ex then CreateAccount 4 s2 else s2) 1 4 5"
  have e2: "moves False s1 s2"
    using read_step(1) [OF moves_refl [OF moves_state_ok [OF Snapshot_moves [OF ok0 sn]]] ex] .
  have "\<not> ex \<Longrightarrow> nonce_of (view s2) 4 = 0"
    using Exist_read [OF state_ok_wf [OF moves_state_ok [OF Snapshot_moves [OF ok0 sn]]], of 4] ex
    by (auto simp: quiet_def nonce_of_def)
  then have "moves False s1 s3"
    using e2 by (auto simp: s3_def intro!: state_step)
  then obtain s4 where s4: "RevertToSnapshot i s3 = Inr s4"
    using revert_moves [OF ok0 sn moves_extends] by blast
  have pre: "precompile sample_env 4 = Some \<lparr>RequiredGas = dataCopy_RequiredGas, pre_Run = dataCopy_Run\<rparr>"
    by (simp add: sample_env_def PrecompiledContractsBerlin_def)
  have "Call sample_env run (AccountRef 1) 4 [] gas 5 ?z = executeCall sample_env run i (AccountRef 1) 4 [] gas 5 (setDB s3 ?z)"
    using s0 sn ex pre unfolding Call_def s3_def by (simp add: sample_zvm_def Let_def)
  then show ?thesis
    using s4 by (simp add: executeCall_def pre RunPrecompiledContract_def dataCopy_RequiredGas_def dataCopy_Run_def
        params finishCall_def withoutGas_def)
qed

section \<open>Results of the entry points\<close>

lemma entry_results:
  assumes ok: "state_ok (StateDB z)" and pre: "precompile E = PrecompiledContractsBerlin L"
  shows "readOnly z \<longrightarrow> val = 0 \<Longrightarrow> Call E (Run n E) clr addr input gas val z = Inr r \<Longrightarrow> call_result (readOnly z) gas z r"
    "DelegateCall E (Run n E) clr addr input gas z = Inr r \<Longrightarrow> call_result (readOnly z) gas z r"
    "StaticCall E (Run n E) clr addr input gas z = Inr r \<Longrightarrow> call_result True gas z r"
    "Create E (Run n E) clr code gas val z = Inr r' \<Longrightarrow> create_result clr val gas z r'"
    "Create2 E (Run n E) clr code gas val salt z = Inr r' \<Longrightarrow> create_result clr val gas z r'"
proof -
  define m where "m = max n (unat gas + 1)"
  note p = precompiled_ok [OF pre] and up = Run_below [of n m E]
  have run: "runner_good m (Run m E)" and m: "unat gas < m" "n \<le> m"
    using Run_good [OF p] by (auto simp: m_def)
  note up = calls_below [OF up [OF m(2)], THEN below_result] creates_below [OF up [OF m(2)], THEN below_result]
  show "Call E (Run n E) clr addr input gas val z = Inr r \<Longrightarrow> call_result (readOnly z) gas z r"
    if "readOnly z \<longrightarrow> val = 0"
    using runs_D [OF Call_good [OF run p ok m(1) that] up(1)] .
  show "DelegateCall E (Run n E) clr addr input gas z = Inr r \<Longrightarrow> call_result (readOnly z) gas z r"
    using runs_D [OF DelegateCall_good [OF run p ok m(1)] up(2)] .
  show "StaticCall E (Run n E) clr addr input gas z = Inr r \<Longrightarrow> call_result True gas z r"
    using runs_D [OF StaticCall_good [OF run p ok m(1)] up(3)] .
  show "Create E (Run n E) clr code gas val z = Inr r' \<Longrightarrow> create_result clr val gas z r'"
    using runs_D [OF Create_good [OF run m(1) ok] up(4)] .
  show "Create2 E (Run n E) clr code gas val salt z = Inr r' \<Longrightarrow> create_result clr val gas z r'"
    using runs_D [OF Create2_good [OF run m(1) ok] up(5)] .
qed

section \<open>Properties\<close>

text \<open>C9: Every call ends, however the code loops or calls itself: with more iterations allowed than
  there is gas, \<open>Call\<close>, \<open>DelegateCall\<close> and \<open>StaticCall\<close> never run out of iterations, and allowing
  still more does not change what they return.\<close>

theorem Call_terminates:
  assumes "state_ok (StateDB z)" "precompile E = PrecompiledContractsBerlin L" "readOnly z \<longrightarrow> val = 0"
    "unat gas < n" "n \<le> m"
  shows "Call E (Run n E) clr addr input gas val z \<noteq> Inl OutOfFuel \<and>
    Call E (Run m E) clr addr input gas val z = Call E (Run n E) clr addr input gas val z \<and>
    DelegateCall E (Run n E) clr addr input gas z \<noteq> Inl OutOfFuel \<and>
    DelegateCall E (Run m E) clr addr input gas z = DelegateCall E (Run n E) clr addr input gas z \<and>
    StaticCall E (Run n E) clr addr input gas z \<noteq> Inl OutOfFuel \<and>
    StaticCall E (Run m E) clr addr input gas z = StaticCall E (Run n E) clr addr input gas z"
proof -
  note pre = precompiled_ok [OF assms(2)]
  note run = Run_good [OF pre] pre assms(1,4)
  note up = calls_below [OF Run_below [OF assms(5)]]
  show ?thesis
    using below_returns [OF up(1) Call_good [OF run assms(3)]] below_returns [OF up(2) DelegateCall_good [OF run]]
      below_returns [OF up(3) StaticCall_good [OF run]] retf_not_fuel [OF Call_good [OF run assms(3)]]
      retf_not_fuel [OF DelegateCall_good [OF run]] retf_not_fuel [OF StaticCall_good [OF run]] by blast
qed

text \<open>The code at address 16 jumps to its own start.\<close>

theorem Call_terminates_witness:
  "Call sample_env (Run 1001 sample_env) (AccountRef 1) 16 [] 1000 0 (sample_zvm [0x5b, 0x60, 0, 0x56]) \<noteq>
     Inl OutOfFuel"
  using Call_terminates [OF sample_machine, where gas = 1000 and n = 1001 and m = 1001 and clr = "AccountRef 1"
      and addr = 16 and input = "[]" and val = 0] by simp

text \<open>C10: Contract creation ends likewise.\<close>

theorem Create_terminates:
  assumes "state_ok (StateDB z)" "precompile E = PrecompiledContractsBerlin L" "unat gas < n" "n \<le> m"
  shows "Create E (Run n E) clr code gas val z \<noteq> Inl OutOfFuel \<and>
    Create E (Run m E) clr code gas val z = Create E (Run n E) clr code gas val z \<and>
    Create2 E (Run n E) clr code gas val salt z \<noteq> Inl OutOfFuel \<and>
    Create2 E (Run m E) clr code gas val salt z = Create2 E (Run n E) clr code gas val salt z"
proof -
  note run = Run_good [OF precompiled_ok [OF assms(2)]] assms(3,1)
  note up = creates_below [OF Run_below [OF assms(4)]]
  show ?thesis
    using below_returns [OF up(1) Create_good [OF run]] below_returns [OF up(2) Create2_good [OF run]]
      retf_not_fuel [OF Create_good [OF run]] retf_not_fuel [OF Create2_good [OF run]] by blast
qed

theorem Create_terminates_witness:
  "Create sample_env (Run 1001 sample_env) (AccountRef 1) [0x5b, 0x60, 0, 0x56] 1000 5 (sample_zvm []) \<noteq> Inl OutOfFuel"
  using Create_terminates [OF sample_machine, where gas = 1000 and n = 1001 and m = 1001 and clr = "AccountRef 1"
      and code = "[0x5b, 0x60, 0, 0x56]" and val = 5] by simp

text \<open>C5: A call that fails, for whatever reason and however deep in nested calls, leaves no trace:
  everything that can be read from the world state is as it was before the call, and so are the depth
  and the read-only mode.\<close>

theorem Call_failure_rolls_back:
  assumes "state_ok (StateDB z)" "precompile E = PrecompiledContractsBerlin L" "readOnly z \<longrightarrow> val = 0"
    and "r = Call E (Run n E) clr addr input gas val z \<or> r = DelegateCall E (Run n E) clr addr input gas z \<or>
      r = StaticCall E (Run n E) clr addr input gas z"
    and "r = Inr (ret, gas', Some e, z')"
  shows "view (StateDB z') = view (StateDB z) \<and> z_depth z' = z_depth z \<and> readOnly z' = readOnly z"
proof -
  have "\<exists>ro. call_result ro gas z (ret, gas', Some e, z')"
    using assms(4) entry_results(1-3) [OF assms(1,2)] assms(3) unfolding assms(5) by metis
  then show ?thesis
    by (auto simp: call_result_def same_mode_def)
qed

theorem Call_failure_rolls_back_witness:
  "\<exists>z'. Call sample_env (Run 1 sample_env) (AccountRef 1) 4 [] 10 5 (sample_zvm []) = Inr ([], 0, Some ErrOutOfGas, z') \<and>
     view (StateDB z') = view (StateDB (sample_zvm []))"
proof -
  obtain z' where z': "Call sample_env (Run 1 sample_env) (AccountRef 1) 4 [] 10 5 (sample_zvm []) =
      Inr ([], 0, Some ErrOutOfGas, z')"
    using sample_call [of "Run 1 sample_env" 10 "[]"] by auto
  moreover have "readOnly (sample_zvm []) \<longrightarrow> (5 :: int) = 0"
    by (simp add: sample_zvm_def)
  ultimately show ?thesis
    using Call_failure_rolls_back [OF sample_machine _ disjI1 [OF refl] z'] by blast
qed

text \<open>C13: No entry point returns more gas than it was given.\<close>

theorem gas_never_created:
  assumes "state_ok (StateDB z)" "precompile E = PrecompiledContractsBerlin L" "readOnly z \<longrightarrow> val = 0"
  shows "\<forall>ret gas' err z'.
      Call E (Run n E) clr addr input gas val z = Inr (ret, gas', err, z') \<or>
      DelegateCall E (Run n E) clr addr input gas z = Inr (ret, gas', err, z') \<or>
      StaticCall E (Run n E) clr addr input gas z = Inr (ret, gas', err, z') \<or>
      Create E (Run n E) clr code gas val z = Inr (ret, addr', gas', err, z') \<or>
      Create2 E (Run n E) clr code gas val salt z = Inr (ret, addr', gas', err, z') \<longrightarrow>
    unat gas' \<le> unat gas"
proof (intro allI impI)
  fix ret gas' err z'
  assume "Call E (Run n E) clr addr input gas val z = Inr (ret, gas', err, z') \<or>
      DelegateCall E (Run n E) clr addr input gas z = Inr (ret, gas', err, z') \<or>
      StaticCall E (Run n E) clr addr input gas z = Inr (ret, gas', err, z') \<or>
      Create E (Run n E) clr code gas val z = Inr (ret, addr', gas', err, z') \<or>
      Create2 E (Run n E) clr code gas val salt z = Inr (ret, addr', gas', err, z')"
  then have "(\<exists>ro. call_result ro gas z (ret, gas', err, z')) \<or> create_result clr val gas z (ret, addr', gas', err, z')"
    using entry_results [OF assms(1,2)] assms(3) by metis
  then show "unat gas' \<le> unat gas"
    by (auto simp: call_result_def create_result_def)
qed

theorem gas_never_created_witness:
  "\<exists>gas' err z'. Call sample_env (Run 1 sample_env) (AccountRef 1) 4 [] 100 5 (sample_zvm []) = Inr ([], gas', err, z') \<and>
     unat gas' \<le> 100"
proof -
  obtain gas' err z' where "Call sample_env (Run 1 sample_env) (AccountRef 1) 4 [] 100 5 (sample_zvm []) =
      Inr ([], gas', err, z')"
    using sample_call [of "Run 1 sample_env" 100 "[]"] by auto
  moreover have "readOnly (sample_zvm []) \<longrightarrow> (5 :: int) = 0"
    by (simp add: sample_zvm_def)
  ultimately show ?thesis
    using gas_never_created [OF sample_machine, of "[]" 5 1 "AccountRef 1" 4 "[]" 100] by force
qed

text \<open>C6: Execution neither creates nor destroys value: the sum of the balances of all accounts is
  the same after every call and every contract creation, successful or not.\<close>

theorem execution_conserves_supply:
  assumes "state_ok (StateDB z)" "precompile E = PrecompiledContractsBerlin L" "readOnly z \<longrightarrow> val = 0"
    and "r = Call E (Run n E) clr addr input gas val z \<or> r = DelegateCall E (Run n E) clr addr input gas z \<or>
      r = StaticCall E (Run n E) clr addr input gas z"
    and "r' = Create E (Run n E) clr code gas val z \<or> r' = Create2 E (Run n E) clr code gas val salt z"
  shows "(r = Inr (ret, gas', err, z') \<longrightarrow> total_supply (StateDB z') = total_supply (StateDB z)) \<and>
    (r' = Inr (ret, addr', gas', err, z') \<longrightarrow> total_supply (StateDB z') = total_supply (StateDB z))"
proof (intro conjI impI)
  assume "r = Inr (ret, gas', err, z')"
  then have "\<exists>ro. call_result ro gas z (ret, gas', err, z')"
    using assms(4) entry_results(1-3) [OF assms(1,2)] assms(3) by metis
  then show "total_supply (StateDB z') = total_supply (StateDB z)"
    by (auto simp: call_result_def moves_def)
next
  assume "r' = Inr (ret, addr', gas', err, z')"
  then have "create_result clr val gas z (ret, addr', gas', err, z')"
    using assms(5) entry_results(4,5) [OF assms(1,2)] by metis
  then show "total_supply (StateDB z') = total_supply (StateDB z)"
    by (auto simp: create_result_def moves_def)
qed

theorem execution_conserves_supply_witness:
  "\<exists>z'. Call sample_env (Run 1 sample_env) (AccountRef 1) 4 [] 100 5 (sample_zvm []) = Inr ([], 85, None, z') \<and>
     total_supply (StateDB z') = total_supply (StateDB (sample_zvm []))"
proof -
  obtain z' where z': "Call sample_env (Run 1 sample_env) (AccountRef 1) 4 [] 100 5 (sample_zvm []) = Inr ([], 85, None, z')"
    using sample_call [of "Run 1 sample_env" 100 "[]"] by auto
  moreover have "readOnly (sample_zvm []) \<longrightarrow> (5 :: int) = 0"
    by (simp add: sample_zvm_def)
  ultimately show ?thesis
    using execution_conserves_supply [OF sample_machine _ disjI1 [OF refl] disjI1 [OF refl]] by blast
qed

text \<open>C8: Code reached through \<open>StaticCall\<close>, and everything it calls in turn, changes neither a
  nonce, a balance, a code or a storage slot of an existing account nor the logs; accounts that did not
  exist can at most come into being empty.\<close>

theorem StaticCall_changes_nothing:
  assumes "state_ok (StateDB z)" "precompile E = PrecompiledContractsBerlin L"
    and "StaticCall E (Run n E) clr addr input gas z = Inr (ret, gas', err, z')"
  shows "frozen (StateDB z) (StateDB z')"
  using entry_results(3) [OF assms] by (simp add: call_result_def moves_def)

lemma sample_static_call:
  "\<exists>z'. StaticCall sample_env run (AccountRef 1) 4 [] 100 (sample_zvm code) = Inr ([], 85, None, z')"
proof -
  obtain i s1 where sn: "Snapshot (StateDB (sample_zvm code)) = (i, s1)"
    by fastforce
  have "precompile sample_env 4 = Some \<lparr>RequiredGas = dataCopy_RequiredGas, pre_Run = dataCopy_Run\<rparr>"
    by (simp add: sample_env_def PrecompiledContractsBerlin_def)
  then show ?thesis
    using sn by (simp add: StaticCall_def RunPrecompiledContract_def dataCopy_RequiredGas_def dataCopy_Run_def
        params finishCall_def withoutGas_def Let_def) (simp add: sample_zvm_def)
qed

theorem StaticCall_changes_nothing_witness:
  "\<exists>z'. StaticCall sample_env (Run 1 sample_env) (AccountRef 1) 4 [] 100 (sample_zvm []) = Inr ([], 85, None, z') \<and>
     frozen (StateDB (sample_zvm [])) (StateDB z')"
  using sample_static_call StaticCall_changes_nothing [OF sample_machine] by blast





end
