(* ===== verification/State_Transition.thy ===== *)
theory State_Transition
  imports ZVM_Results
begin

text \<open>
  The application of one message to the world state: \<open>core/state_transition.go\<close> with the gas pool
  of \<open>core/gaspool.go\<close> and the errors of \<open>core/error.go\<close>. A message buys its gas at the price it
  offers, pays the intrinsic cost, runs in the virtual machine, gets the unused gas and a part of the
  refund counter back, and leaves the tip to the coinbase; the base fee is burned. The theorems account
  for every unit of gas and of value, on success and on failure.

  A pointer that the code compares with nil is an option. The texts of errors are left out, and so is
  the tracer, which only observes.
\<close>

section \<open>Gas pool\<close>

datatype core_error =
    CoreNonceTooLow | CoreNonceTooHigh | CoreNonceMax | CoreGasLimitReached
  | CoreInsufficientFundsForTransfer | CoreMaxInitCodeSizeExceeded | CoreInsufficientFunds
  | CoreGasUintOverflow | CoreIntrinsicGas | CoreTxTypeNotSupported | CoreTipAboveFeeCap | CoreTipVeryHigh
  | CoreFeeCapVeryHigh | CoreFeeCapTooLow | CoreSenderNoEOA

type_synonym GasPool = uint64

definition AddGas :: "GasPool \<Rightarrow> uint64 \<Rightarrow> GasPool go" where
  "AddGas gp amount =
     (if MaxUint64 - amount < gp then Inl (PanicMsg ''gas pool pushed above uint64'') else Inr (gp + amount))"

definition SubGas :: "GasPool \<Rightarrow> uint64 \<Rightarrow> core_error + GasPool" where
  "SubGas gp amount = (if gp < amount then Inl CoreGasLimitReached else Inr (gp - amount))"

section \<open>Messages\<close>

type_synonym AccessTuple = "address \<times> hash list"

primrec StorageKeys :: "AccessTuple list \<Rightarrow> nat" where
  "StorageKeys [] = 0"
| "StorageKeys (tuple # al) = length (snd tuple) + StorageKeys al"

record Message =
  msg_To :: "address option"
  msg_From :: address
  msg_Nonce :: uint64
  msg_Value :: int
  msg_GasLimit :: uint64
  msg_GasPrice :: int
  msg_GasFeeCap :: "int option"
  msg_GasTipCap :: int
  msg_Data :: bytes
  msg_AccessList :: "AccessTuple list"
  SkipAccountChecks :: bool

record ExecutionResult =
  UsedGas :: uint64
  res_Err :: "vmerror option"
  ReturnData :: bytes

definition Return :: "ExecutionResult \<Rightarrow> bytes" where
  "Return result = (if res_Err result \<noteq> None then [] else ReturnData result)"

definition Revert :: "ExecutionResult \<Rightarrow> bytes" where
  "Revert result = (if res_Err result \<noteq> Some ErrExecutionReverted then [] else ReturnData result)"

section \<open>Intrinsic gas\<close>

primrec nonZeroBytes :: "bytes \<Rightarrow> uint64" where
  "nonZeroBytes [] = 0"
| "nonZeroBytes (b # data) = (if b \<noteq> 0 then 1 + nonZeroBytes data else nonZeroBytes data)"

text \<open>The three charges for the data of a message, each guarded against overflow.\<close>

definition chargeUnits :: "uint64 \<Rightarrow> uint64 \<Rightarrow> uint64 \<Rightarrow> core_error + uint64" where
  "chargeUnits gas price units =
     (if (MaxUint64 - gas) div price < units then Inl CoreGasUintOverflow else Inr (gas + units * price))"

definition dataGas :: "bytes \<Rightarrow> bool \<Rightarrow> uint64 \<Rightarrow> core_error + uint64" where
  "dataGas data isContractCreation gas =
     (let dataLen = of_nat (length data); nz = nonZeroBytes data in
      if dataLen = 0 then Inr gas
      else case chargeUnits gas TxDataNonZeroGasEIP2028 nz of
        Inl e \<Rightarrow> Inl e
      | Inr gas \<Rightarrow>
          (case chargeUnits gas TxDataZeroGas (dataLen - nz) of
             Inl e \<Rightarrow> Inl e
           | Inr gas \<Rightarrow>
               if isContractCreation then chargeUnits gas InitCodeWordGas (toWordSize dataLen) else Inr gas))"

definition IntrinsicGas :: "bytes \<Rightarrow> AccessTuple list \<Rightarrow> bool \<Rightarrow> core_error + uint64" where
  "IntrinsicGas data accessList isContractCreation =
     (case dataGas data isContractCreation (if isContractCreation then TxGasContractCreation else TxGas) of
        Inl e \<Rightarrow> Inl e
      | Inr gas \<Rightarrow>
          Inr (if accessList \<noteq> []
               then gas + of_nat (length accessList) * TxAccessListAddressGas
                      + of_nat (StorageKeys accessList) * TxAccessListStorageKeyGas
               else gas))"

section \<open>The transition\<close>

definition GetRefund :: "statedb \<Rightarrow> uint64" where
  "GetRefund s = refund s"

text \<open>\<open>StateTransition\<close>; its state is that of the machine, to which both point.\<close>

record StateTransition =
  st_gp :: GasPool
  st_msg :: Message
  gasRemaining :: uint64
  initialGas :: uint64
  st_zvm :: zvm

definition NewStateTransition :: "zvm \<Rightarrow> Message \<Rightarrow> GasPool \<Rightarrow> StateTransition" where
  "NewStateTransition z msg gp = \<lparr>st_gp = gp, st_msg = msg, gasRemaining = 0, initialGas = 0, st_zvm = z\<rparr>"

definition withState :: "statedb \<Rightarrow> StateTransition \<Rightarrow> StateTransition" where
  "withState s st = st\<lparr>st_zvm := setDB s (st_zvm st)\<rparr>"

definition gasUsed :: "StateTransition \<Rightarrow> uint64" where
  "gasUsed st = initialGas st - gasRemaining st"

definition buyGas :: "StateTransition \<Rightarrow> core_error option \<times> StateTransition" where
  "buyGas st =
     (let msg = st_msg st;
          mgval = uint (msg_GasLimit msg) * msg_GasPrice msg;
          balanceCheck = (case msg_GasFeeCap msg of
              None \<Rightarrow> mgval
            | Some cap \<Rightarrow> uint (msg_GasLimit msg) * cap + msg_Value msg)
      in case GetBalance (msg_From msg) (StateDB (st_zvm st)) of (funds, s) \<Rightarrow>
         if funds < balanceCheck then (Some CoreInsufficientFunds, withState s st)
         else case SubGas (st_gp st) (msg_GasLimit msg) of
           Inl e \<Rightarrow> (Some e, withState s st)
         | Inr gp \<Rightarrow>
             (None, withState (SubBalance (msg_From msg) mgval s)
                      (st\<lparr>st_gp := gp, gasRemaining := gasRemaining st + msg_GasLimit msg,
                          initialGas := msg_GasLimit msg\<rparr>)))"

text \<open>The first part of \<open>preCheck\<close>: nonce and code of the sender.\<close>

definition checkSender :: "Message \<Rightarrow> statedb \<Rightarrow> core_error option \<times> statedb" where
  "checkSender msg s =
     (if SkipAccountChecks msg then (None, s)
      else case GetNonce (msg_From msg) s of (stNonce, s) \<Rightarrow>
        if stNonce < msg_Nonce msg then (Some CoreNonceTooHigh, s)
        else if msg_Nonce msg < stNonce then (Some CoreNonceTooLow, s)
        else if stNonce + 1 < stNonce then (Some CoreNonceMax, s)
        else case GetCodeHash (msg_From msg) s of (codeHash, s) \<Rightarrow>
          if codeHash \<noteq> 0 \<and> codeHash \<noteq> EmptyCodeHash (db s) then (Some CoreSenderNoEOA, s)
          else (None, s))"

text \<open>The second part: the fees.\<close>

definition checkFees :: "zenv \<Rightarrow> Message \<Rightarrow> core_error option go" where
  "checkFees E msg =
     (case msg_GasFeeCap msg of
        None \<Rightarrow> Inl NilDereference
      | Some cap \<Rightarrow>
          if NoBaseFee E \<and> \<not> 0 < BitLen cap \<and> \<not> 0 < BitLen (msg_GasTipCap msg) then Inr None
          else if 256 < BitLen cap then Inr (Some CoreFeeCapVeryHigh)
          else if 256 < BitLen (msg_GasTipCap msg) then Inr (Some CoreTipVeryHigh)
          else if cap < msg_GasTipCap msg then Inr (Some CoreTipAboveFeeCap)
          else case BaseFee (Context E) of
            None \<Rightarrow> Inl NilDereference
          | Some baseFee \<Rightarrow> Inr (if cap < baseFee then Some CoreFeeCapTooLow else None))"

definition preCheck :: "zenv \<Rightarrow> StateTransition \<Rightarrow> (core_error option \<times> StateTransition) go" where
  "preCheck E st =
     (case checkSender (st_msg st) (StateDB (st_zvm st)) of
        (Some e, s) \<Rightarrow> Inr (Some e, withState s st)
      | (None, s) \<Rightarrow>
          andThen (checkFees E (st_msg st)) (\<lambda>err.
          case err of
            Some e \<Rightarrow> Inr (Some e, withState s st)
          | None \<Rightarrow> Inr (buyGas (withState s st))))"

text \<open>The execution of the message in the virtual machine, as a contract creation or as a call.\<close>

definition executeMessage ::
  "nat \<Rightarrow> zenv \<Rightarrow> StateTransition \<Rightarrow> (bytes \<times> vmerror option \<times> StateTransition) go" where
  "executeMessage n E st =
     (let msg = st_msg st; sender = AccountRef (msg_From msg) in
      case msg_To msg of
        None \<Rightarrow>
          andThen (Create E (Run n E) sender (msg_Data msg) (gasRemaining st) (msg_Value msg) (st_zvm st))
            (\<lambda>(ret, _, gas, vmerr, z). Inr (ret, vmerr, st\<lparr>gasRemaining := gas, st_zvm := z\<rparr>))
      | Some dest \<Rightarrow>
          (case GetNonce (ref_Address sender) (StateDB (st_zvm st)) of (nonce, s) \<Rightarrow>
           andThen (Call E (Run n E) sender dest (msg_Data msg) (gasRemaining st) (msg_Value msg)
               (setDB (SetNonce (msg_From msg) (nonce + 1) s) (st_zvm st)))
             (\<lambda>(ret, gas, vmerr, z). Inr (ret, vmerr, st\<lparr>gasRemaining := gas, st_zvm := z\<rparr>))))"

definition refundGas :: "uint64 \<Rightarrow> StateTransition \<Rightarrow> StateTransition go" where
  "refundGas refundQuotient st =
     (let s = StateDB (st_zvm st);
          refund' = (if GetRefund s < gasUsed st div refundQuotient then GetRefund s else gasUsed st div refundQuotient);
          remaining = gasRemaining st + refund';
          s = AddBalance (msg_From (st_msg st)) (uint remaining * msg_GasPrice (st_msg st)) s
      in andThen (AddGas (st_gp st) remaining) (\<lambda>gp.
         Inr (withState s (st\<lparr>gasRemaining := remaining, st_gp := gp\<rparr>))))"

definition payTip :: "zenv \<Rightarrow> StateTransition \<Rightarrow> StateTransition go" where
  "payTip E st =
     (case (msg_GasFeeCap (st_msg st), BaseFee (Context E)) of
        (Some cap, Some baseFee) \<Rightarrow>
          let effectiveTip = min (msg_GasTipCap (st_msg st)) (cap - baseFee) in
          Inr (if NoBaseFee E \<and> cap = 0 \<and> msg_GasTipCap (st_msg st) = 0 then st
               else withState (AddBalance (Coinbase (Context E)) (uint (gasUsed st) * effectiveTip)
                      (StateDB (st_zvm st))) st)
      | _ \<Rightarrow> Inl NilDereference)"

text \<open>The keys of the table of precompiled contracts. Go lists them in no fixed order; the access list
  they are added to does not depend on it.\<close>

definition ActivePrecompiles :: "address list" where
  "ActivePrecompiles = [1, 2, 4, 5, 6, 7, 8]"

text \<open>From the execution to the end.\<close>

definition finishTransition ::
  "nat \<Rightarrow> zenv \<Rightarrow> StateTransition \<Rightarrow> ((core_error + ExecutionResult) \<times> StateTransition) go" where
  "finishTransition n E st =
     andThen (Prepare (msg_From (st_msg st)) (Coinbase (Context E)) (msg_To (st_msg st)) ActivePrecompiles
         (msg_AccessList (st_msg st)) (StateDB (st_zvm st))) (\<lambda>s.
     andThen (executeMessage n E (withState s st)) (\<lambda>(ret, vmerr, st).
     andThen (refundGas RefundQuotientEIP3529 st) (\<lambda>st.
     andThen (payTip E st) (\<lambda>st.
     Inr (Inr \<lparr>UsedGas = gasUsed st, res_Err = vmerr, ReturnData = ret\<rparr>, st)))))"

text \<open>The checks that follow \<open>preCheck\<close>, when the gas has been bought.\<close>

definition checkedTransition ::
  "nat \<Rightarrow> zenv \<Rightarrow> StateTransition \<Rightarrow> ((core_error + ExecutionResult) \<times> StateTransition) go" where
  "checkedTransition n E st =
     (let msg = st_msg st; contractCreation = (msg_To msg = None) in
      case IntrinsicGas (msg_Data msg) (msg_AccessList msg) contractCreation of
        Inl e \<Rightarrow> Inr (Inl e, st)
      | Inr gas \<Rightarrow>
          if gasRemaining st < gas then Inr (Inl CoreIntrinsicGas, st)
          else
            let st = st\<lparr>gasRemaining := gasRemaining st - gas\<rparr> in
            case (if 0 < msg_Value msg then CanTransfer (StateDB (st_zvm st)) (msg_From msg) (msg_Value msg)
                  else (True, StateDB (st_zvm st))) of (affordable, s) \<Rightarrow>
            let st = withState s st in
            if \<not> affordable then Inr (Inl CoreInsufficientFundsForTransfer, st)
            else if contractCreation \<and> MaxInitCodeSize < length (msg_Data msg)
            then Inr (Inl CoreMaxInitCodeSizeExceeded, st)
            else finishTransition n E st)"

definition TransitionDb ::
  "nat \<Rightarrow> zenv \<Rightarrow> StateTransition \<Rightarrow> ((core_error + ExecutionResult) \<times> StateTransition) go" where
  "TransitionDb n E st =
     andThen (preCheck E st) (\<lambda>(err, st).
     case err of Some e \<Rightarrow> Inr (Inl e, st) | None \<Rightarrow> checkedTransition n E st)"

definition ApplyMessage ::
  "nat \<Rightarrow> zenv \<Rightarrow> zvm \<Rightarrow> Message \<Rightarrow> GasPool \<Rightarrow> ((core_error + ExecutionResult) \<times> StateTransition) go" where
  "ApplyMessage n E z msg gp = TransitionDb n E (NewStateTransition z msg gp)"


section \<open>Accounting\<close>

text \<open>The sum of the balances has changed by the given amount.\<close>

definition ledger_shift :: "int \<Rightarrow> statedb \<Rightarrow> statedb \<Rightarrow> bool" where
  "ledger_shift d s s' \<longleftrightarrow> state_ok s' \<and> total_supply s' = total_supply s + d \<and>
     (\<forall>a. nonce_of (view s) a \<le> nonce_of (view s') a)"

lemma ledger_shift_state_ok: "ledger_shift d s s' \<Longrightarrow> state_ok s'"
  by (simp add: ledger_shift_def)

lemma ledger_shift_trans: "ledger_shift d s t \<Longrightarrow> ledger_shift e t u \<Longrightarrow> ledger_shift (d + e) s u"
  by (auto simp: ledger_shift_def intro: order_trans)

lemma ledger_shift_moves: "moves ro s s' \<Longrightarrow> ledger_shift 0 s s'"
  by (auto simp: ledger_shift_def moves_def extends_state_ok)

lemma ledger_shift_quiet: "state_ok s \<Longrightarrow> quiet s s' \<Longrightarrow> ledger_shift 0 s s'"
  using ledger_shift_moves [OF moves_quiet] .

lemma ledger_shift_AddBalance: "state_ok s \<Longrightarrow> ledger_shift n s (AddBalance a n s)"
  by (simp add: ledger_shift_def supply_AddBalance nonce_AddBalance extends_state_ok [OF AddBalance_extends])

lemma ledger_shift_SubBalance: "state_ok s \<Longrightarrow> ledger_shift (- n) s (SubBalance a n s)"
  by (simp add: ledger_shift_def supply_SubBalance nonce_SubBalance extends_state_ok [OF SubBalance_extends])

lemma balance_accessL [simp]: "balance (view (s\<lparr>accessL := al\<rparr>)) a = balance (view s) a"
  "nonce_of (view (s\<lparr>accessL := al\<rparr>)) a = nonce_of (view s) a"
  by (simp_all add: balance_def nonce_of_def live_view_def view_fields)

lemma Prepare_shift:
  assumes "state_ok s" "Prepare sender coinbase dst pre al s = Inr s'"
  shows "ledger_shift 0 s s' \<and> (\<forall>a. balance (view s') a = balance (view s) a \<and> nonce_of (view s') a = nonce_of (view s) a)"
proof -
  obtain l where s': "s' = s\<lparr>accessL := l\<rparr>" and l: "al_ok l"
    using Prepare_ok [OF state_ok_wf [OF assms(1)], of sender coinbase dst pre al] assms(2) by auto
  have "state_ok s'"
    using assms(1) l by (auto simp: s' state_ok_def wf_fields revs_ok_def)
  then show ?thesis
    by (simp add: ledger_shift_def s' total_supply_def)
qed

lemma Prepare_returns: "state_ok s \<Longrightarrow> \<exists>s'. Prepare sender coinbase dst pre al s = Inr s'"
  using Prepare_ok [OF state_ok_wf] by blast

section \<open>Checks before execution\<close>

lemma withState_simps [simp]:
  "StateDB (st_zvm (withState s st)) = s" "st_msg (withState s st) = st_msg st" "st_gp (withState s st) = st_gp st"
  "gasRemaining (withState s st) = gasRemaining st" "initialGas (withState s st) = initialGas st"
  "readOnly (st_zvm (withState s st)) = readOnly (st_zvm st)" "z_depth (st_zvm (withState s st)) = z_depth (st_zvm st)"
  by (simp_all add: withState_def)

lemma checkSender_quiet:
  assumes ok: "state_ok s" and c: "checkSender msg s = (r, s')"
  shows "quiet s s'"
    and "r = None \<Longrightarrow> \<not> SkipAccountChecks msg \<Longrightarrow> nonce_of (view s) (msg_From msg) = msg_Nonce msg \<and>
      \<not> msg_Nonce msg + 1 < msg_Nonce msg \<and>
      fst (GetCodeHash (msg_From msg) s) \<in> {0, EmptyCodeHash (db s)}"
proof -
  obtain m s1 where m: "GetNonce (msg_From msg) s = (m, s1)"
    by fastforce
  obtain h s2 where h: "GetCodeHash (msg_From msg) s1 = (h, s2)"
    by fastforce
  have q1: "quiet s s1"
    using GetNonce_read(1) [OF state_ok_wf [OF ok], of "msg_From msg"] m by simp
  then have wf: "wf_state s1"
    using state_ok_wf [OF ok] by (simp add: quiet_def)
  have q2: "quiet s1 s2"
    using GetCodeHash_read(1) [OF wf, of "msg_From msg"] h by simp
  show "quiet s s'"
    using c m h q1 quiet_trans [OF q1 q2] by (auto simp: checkSender_def split: if_splits)
  have "fst (GetCodeHash (msg_From msg) s) = h"
    using GetCodeHash_read(2) [OF wf, of "msg_From msg"] GetCodeHash_read(2) [OF state_ok_wf [OF ok], of "msg_From msg"]
      q1 h by (simp add: quiet_def)
  moreover have "db s2 = db s"
    using quiet_trans [OF q1 q2] by (intro view_env) (simp add: quiet_def)
  ultimately show "r = None \<Longrightarrow> \<not> SkipAccountChecks msg \<Longrightarrow> nonce_of (view s) (msg_From msg) = msg_Nonce msg \<and>
      \<not> msg_Nonce msg + 1 < msg_Nonce msg \<and> fst (GetCodeHash (msg_From msg) s) \<in> {0, EmptyCodeHash (db s)}"
    using c m h nonce_GetNonce [OF state_ok_wf [OF ok], of "msg_From msg"]
    by (auto simp: checkSender_def split: if_splits)
qed

lemma SubGas_ok: "SubGas gp n = Inr gp' \<longleftrightarrow> n \<le> gp \<and> gp' = gp - n"
  by (auto simp: SubGas_def)

text \<open>The gas a message buys.\<close>

definition boughtGas :: "statedb \<Rightarrow> StateTransition \<Rightarrow> StateTransition" where
  "boughtGas s st =
     (let msg = st_msg st in
      withState (SubBalance (msg_From msg) (uint (msg_GasLimit msg) * msg_GasPrice msg) s)
        (st\<lparr>st_gp := st_gp st - msg_GasLimit msg, gasRemaining := gasRemaining st + msg_GasLimit msg,
            initialGas := msg_GasLimit msg\<rparr>))"

lemma buyGas_result:
  assumes ok: "state_ok (StateDB (st_zvm st))" and b: "buyGas st = (err, st')"
  shows "\<exists>s. quiet (StateDB (st_zvm st)) s \<and>
    (case err of
       Some e \<Rightarrow> st' = withState s st \<and> e \<in> {CoreInsufficientFunds, CoreGasLimitReached}
     | None \<Rightarrow> st' = boughtGas s st \<and> msg_GasLimit (st_msg st) \<le> st_gp st \<and>
         (\<forall>cap. msg_GasFeeCap (st_msg st) = Some cap \<longrightarrow>
            uint (msg_GasLimit (st_msg st)) * cap + msg_Value (st_msg st)
              \<le> balance (view (StateDB (st_zvm st))) (msg_From (st_msg st))))"
proof -
  obtain f s where g: "GetBalance (msg_From (st_msg st)) (StateDB (st_zvm st)) = (f, s)"
    by fastforce
  have "quiet (StateDB (st_zvm st)) s"
    using GetBalance_read(1) [OF state_ok_wf [OF ok], of "msg_From (st_msg st)"] g by simp
  moreover have "f = balance (view (StateDB (st_zvm st))) (msg_From (st_msg st))"
    using balance_GetBalance [OF state_ok_wf [OF ok], of "msg_From (st_msg st)"] g by simp
  ultimately show ?thesis
    using b g
    by (intro exI [of _ s])
      (auto simp: buyGas_def boughtGas_def Let_def SubGas_def split: if_splits option.splits)
qed

lemma checkFees_result:
  assumes "checkFees E msg = Inr r"
  shows "r = None \<Longrightarrow> \<not> NoBaseFee E \<Longrightarrow>
      \<exists>cap b. msg_GasFeeCap msg = Some cap \<and> BaseFee (Context E) = Some b \<and> msg_GasTipCap msg \<le> cap \<and> b \<le> cap"
    and "r = Some e \<Longrightarrow> e \<in> {CoreFeeCapVeryHigh, CoreTipVeryHigh, CoreTipAboveFeeCap, CoreFeeCapTooLow}"
  using assms by (auto simp: checkFees_def split: option.splits if_splits)

text \<open>What a message must satisfy to be executed.\<close>

definition admissible :: "zenv \<Rightarrow> statedb \<Rightarrow> Message \<Rightarrow> GasPool \<Rightarrow> bool" where
  "admissible E s msg gp \<longleftrightarrow>
     (\<not> SkipAccountChecks msg \<longrightarrow> nonce_of (view s) (msg_From msg) = msg_Nonce msg \<and>
        \<not> msg_Nonce msg + 1 < msg_Nonce msg \<and> fst (GetCodeHash (msg_From msg) s) \<in> {0, EmptyCodeHash (db s)}) \<and>
     (\<not> NoBaseFee E \<longrightarrow> (\<exists>cap b. msg_GasFeeCap msg = Some cap \<and> BaseFee (Context E) = Some b \<and>
        msg_GasTipCap msg \<le> cap \<and> b \<le> cap \<and>
        uint (msg_GasLimit msg) * cap + msg_Value msg \<le> balance (view s) (msg_From msg))) \<and>
     msg_GasLimit msg \<le> gp"

definition precheck_errors :: "core_error set" where
  "precheck_errors = {CoreNonceTooHigh, CoreNonceTooLow, CoreNonceMax, CoreSenderNoEOA, CoreFeeCapVeryHigh,
     CoreTipVeryHigh, CoreTipAboveFeeCap, CoreFeeCapTooLow, CoreInsufficientFunds, CoreGasLimitReached}"

lemma checkSender_errors:
  "checkSender msg s = (Some e, s') \<Longrightarrow> e \<in> {CoreNonceTooHigh, CoreNonceTooLow, CoreNonceMax, CoreSenderNoEOA}"
  by (auto simp: checkSender_def split: if_splits prod.splits)

text \<open>A message that passes the checks is admissible and has paid for its gas; one that does not has
  changed nothing.\<close>

lemma preCheck_result:
  assumes ok: "state_ok (StateDB (st_zvm st))" and p: "preCheck E st = Inr (err, st')"
  shows "\<exists>s. quiet (StateDB (st_zvm st)) s \<and>
    (case err of
       Some e \<Rightarrow> st' = withState s st \<and> e \<in> precheck_errors
     | None \<Rightarrow> st' = boughtGas s st \<and> admissible E (StateDB (st_zvm st)) (st_msg st) (st_gp st))"
proof -
  obtain r s1 where c: "checkSender (st_msg st) (StateDB (st_zvm st)) = (r, s1)"
    by fastforce
  note q1 = checkSender_quiet [OF ok c]
  have ok1: "state_ok (StateDB (st_zvm (withState s1 st)))"
    using moves_state_ok [OF moves_quiet [OF ok q1(1)]] by simp
  consider e where "r = Some e" | e where "r = None" "checkFees E (st_msg st) = Inr (Some e)"
    | "r = None" "checkFees E (st_msg st) = Inr None" "buyGas (withState s1 st) = (err, st')"
    using p c
    by (cases r; cases "checkFees E (st_msg st)"; cases "projr (checkFees E (st_msg st))") (auto simp: preCheck_def)
  then show ?thesis
  proof cases
    case 1
    then show ?thesis
      using p c q1(1) checkSender_errors [OF c [unfolded 1]]
      by (intro exI [of _ s1]) (auto simp: preCheck_def precheck_errors_def)
  next
    case 2
    then show ?thesis
      using p c q1(1) checkFees_result(2) [OF 2(2), of e]
      by (intro exI [of _ s1]) (auto simp: preCheck_def precheck_errors_def)
  next
    case 3
    obtain s where s: "quiet s1 s" "case err of
        Some e \<Rightarrow> st' = withState s (withState s1 st) \<and> e \<in> {CoreInsufficientFunds, CoreGasLimitReached}
      | None \<Rightarrow> st' = boughtGas s (withState s1 st) \<and> msg_GasLimit (st_msg st) \<le> st_gp st \<and>
          (\<forall>cap. msg_GasFeeCap (st_msg st) = Some cap \<longrightarrow> uint (msg_GasLimit (st_msg st)) * cap + msg_Value (st_msg st)
            \<le> balance (view s1) (msg_From (st_msg st)))"
      using buyGas_result [OF ok1 3(3), unfolded withState_simps] by blast
    moreover have "withState s (withState s1 st) = withState s st" "boughtGas s (withState s1 st) = boughtGas s st"
      by (simp_all add: withState_def boughtGas_def setDB_def Let_def)
    ultimately show ?thesis
      using quiet_trans [OF q1(1) s(1)] q1 3 checkFees_result(1) [OF 3(2)]
      by (intro exI [of _ s]) (auto simp: precheck_errors_def admissible_def quiet_def split: option.splits)
  qed
qed

section \<open>Execution and settlement\<close>

lemma bump_nonce:
  assumes ok: "state_ok s0" and m: "GetNonce a s0 = (m, s)" and c: "\<not> nonce_of (view s0) a + 1 < nonce_of (view s0) a"
  shows "moves False s0 (SetNonce a (m + 1) s)" "nonce_of (view s0) a < nonce_of (view (SetNonce a (m + 1) s)) a"
proof -
  have q: "quiet s0 s"
    using GetNonce_read(1) [OF state_ok_wf [OF ok], of a] m by simp
  note e = moves_quiet [OF ok q, of False]
  have m': "m = nonce_of (view s0) a" "nonce_of (view s) a = m"
    using nonce_GetNonce [OF state_ok_wf [OF ok], of a] m q by (simp_all add: quiet_def)
  have "m < m + 1"
    using c m'(1) less_le word_not_simps(1) by fastforce
  then show "moves False s0 (SetNonce a (m + 1) s)" "nonce_of (view s0) a < nonce_of (view (SetNonce a (m + 1) s)) a"
    using moves_trans [OF e write_moves(1) [OF moves_state_ok [OF e]]] m' nonce_SetNonce [OF moves_state_ok [OF e]]
    by auto
qed

lemma executeMessage_result:
  fixes st :: StateTransition
  assumes ok: "state_ok (StateDB (st_zvm st))" and pre: "precompile E = PrecompiledContractsBerlin L"
    and ro: "\<not> readOnly (st_zvm st)" and x: "executeMessage n E st = Inr (ret, vmerr, st')"
    and c: "can_create (AccountRef (msg_From (st_msg st))) (msg_Value (st_msg st)) (st_zvm st)"
  shows "\<exists>gas z. st' = st\<lparr>gasRemaining := gas, st_zvm := z\<rparr> \<and> unat gas \<le> unat (gasRemaining st) \<and>
    moves False (StateDB (st_zvm st)) (StateDB z) \<and> same_mode (st_zvm st) z \<and>
    nonce_of (view (StateDB (st_zvm st))) (msg_From (st_msg st)) < nonce_of (view (StateDB z)) (msg_From (st_msg st))"
proof (cases "msg_To (st_msg st)")
  case None
  then obtain a gas z where r: "st' = st\<lparr>gasRemaining := gas, st_zvm := z\<rparr>"
    "Create E (Run n E) (AccountRef (msg_From (st_msg st))) (msg_Data (st_msg st)) (gasRemaining st)
       (msg_Value (st_msg st)) (st_zvm st) = Inr (ret, a, gas, vmerr, z)"
    using x by (auto simp: executeMessage_def Let_def)
  show ?thesis
    using entry_results(4) [OF ok pre r(2)] c r(1) by (auto simp: create_result_def)
next
  case (Some d)
  obtain m s where m: "GetNonce (msg_From (st_msg st)) (StateDB (st_zvm st)) = (m, s)"
    by fastforce
  let ?z = "setDB (SetNonce (msg_From (st_msg st)) (m + 1) s) (st_zvm st)"
  obtain gas z where r: "st' = st\<lparr>gasRemaining := gas, st_zvm := z\<rparr>"
    "Call E (Run n E) (AccountRef (msg_From (st_msg st))) d (msg_Data (st_msg st)) (gasRemaining st)
       (msg_Value (st_msg st)) ?z = Inr (ret, gas, vmerr, z)"
    using x Some m by (auto simp: executeMessage_def Let_def)
  have "\<not> nonce_of (view (StateDB (st_zvm st))) (msg_From (st_msg st)) + 1
      < nonce_of (view (StateDB (st_zvm st))) (msg_From (st_msg st))"
    using c by (simp add: can_create_def)
  note b = bump_nonce [OF ok m this]
  have "call_result (readOnly ?z) (gasRemaining st) ?z (ret, gas, vmerr, z)"
    using r(2) moves_state_ok [OF b(1)] ro by (intro entry_results(1) [OF _ pre]) simp_all
  then have k: "moves False (StateDB ?z) (StateDB z)" "same_mode (st_zvm st) z" "unat gas \<le> unat (gasRemaining st)"
    using ro by (simp_all add: call_result_def same_mode_def)
  show ?thesis
    using r(1) k(2,3) moves_trans [OF b(1), of "StateDB z"] k(1) order_less_le_trans [OF b(2)] moves_nonce [OF k(1)]
    by (intro exI conjI) auto
qed

lemma AddGas_ok:
  assumes "unat gp + unat n < 2 ^ 64"
  shows "AddGas gp n = Inr (gp + n)" "unat (gp + n) = unat gp + unat n"
proof -
  show "unat (gp + n) = unat gp + unat n"
    using assms by (simp add: unat_u64_add)
  have "\<not> MaxUint64 - n < gp"
    using assms by (simp add: word_less_nat_alt unat_sub_if_size unat_MaxUint64)
  then show "AddGas gp n = Inr (gp + n)"
    by (simp add: AddGas_def)
qed

lemma refundGas_result:
  assumes "gasRemaining st \<le> initialGas st" "unat (st_gp st) + unat (initialGas st) < 2 ^ 64"
  obtains r where "refundGas RefundQuotientEIP3529 st =
      Inr (withState (AddBalance (msg_From (st_msg st)) (uint r * msg_GasPrice (st_msg st)) (StateDB (st_zvm st)))
        (st\<lparr>gasRemaining := r, st_gp := st_gp st + r\<rparr>))"
    "unat (st_gp st + r) = unat (st_gp st) + unat r" "r \<le> initialGas st"
    "4 * (unat (initialGas st) - unat (gasRemaining st)) \<le> 5 * (unat (initialGas st) - unat r)"
proof -
  define f where "f = (if GetRefund (StateDB (st_zvm st)) < gasUsed st div 5 then GetRefund (StateDB (st_zvm st))
      else gasUsed st div 5)"
  define r where "r = gasRemaining st + f"
  have u: "unat (gasUsed st) = unat (initialGas st) - unat (gasRemaining st)"
    using assms(1) by (simp add: gasUsed_def unat_sub word_le_nat_alt)
  have le: "unat (gasRemaining st) \<le> unat (initialGas st)"
    using assms(1) by (simp add: word_le_nat_alt)
  have f: "unat f \<le> unat (gasUsed st) div 5"
    by (auto simp: f_def word_less_nat_alt unat_div)
  have r: "unat r = unat (gasRemaining st) + unat f"
    unfolding r_def using f u le unat_u64_less [of "initialGas st"] by (intro unat_u64_add) linarith
  have lr: "unat r \<le> unat (initialGas st)"
    using r f u le by linarith
  have "refundGas RefundQuotientEIP3529 st =
      Inr (withState (AddBalance (msg_From (st_msg st)) (uint r * msg_GasPrice (st_msg st)) (StateDB (st_zvm st)))
        (st\<lparr>gasRemaining := r, st_gp := st_gp st + r\<rparr>))"
    using AddGas_ok [of "st_gp st" r] assms(2) lr
    by (simp add: refundGas_def Let_def f_def [symmetric] r_def [symmetric] params)
  then show ?thesis
    using that lr AddGas_ok(2) [of "st_gp st" r] assms(2) r f u by (simp add: word_le_nat_alt)
qed

lemma payTip_result:
  assumes "payTip E st = Inr st'" "\<not> NoBaseFee E"
  obtains cap b where "msg_GasFeeCap (st_msg st) = Some cap" "BaseFee (Context E) = Some b"
    "st' = withState (AddBalance (Coinbase (Context E)) (uint (gasUsed st) * min (msg_GasTipCap (st_msg st)) (cap - b))
       (StateDB (st_zvm st))) st"
  using assms by (auto simp: payTip_def Let_def split: option.splits)

text \<open>The bookkeeping of a transition: \<open>r\<close> is the gas that is given back.\<close>

definition settled :: "zenv \<Rightarrow> StateTransition \<Rightarrow> uint64 \<Rightarrow> StateTransition \<Rightarrow> bool" where
  "settled E st used st' \<longleftrightarrow> (\<exists>r cap b. msg_GasFeeCap (st_msg st) = Some cap \<and> BaseFee (Context E) = Some b \<and>
     r \<le> initialGas st \<and> used = initialGas st - r \<and> used = gasUsed st' \<and>
     unat (st_gp st') = unat (st_gp st) + unat r \<and>
     4 * (unat (initialGas st) - unat (gasRemaining st)) \<le> 5 * unat used \<and>
     ledger_shift (uint r * msg_GasPrice (st_msg st) + uint used * min (msg_GasTipCap (st_msg st)) (cap - b))
       (StateDB (st_zvm st)) (StateDB (st_zvm st')) \<and>
     same_mode (st_zvm st) (st_zvm st') \<and> st_msg st' = st_msg st)"

lemma settlement_result:
  fixes st :: StateTransition
  assumes ok: "state_ok (StateDB (st_zvm st))" and nb: "\<not> NoBaseFee E"
    and f: "refundGas RefundQuotientEIP3529 st = Inr st2" and t: "payTip E st2 = Inr st'"
    and g: "gasRemaining st \<le> initialGas st" "unat (st_gp st) + unat (initialGas st) < 2 ^ 64"
  shows "settled E st (gasUsed st') st'"
proof -
  let ?a = "msg_From (st_msg st)"
  obtain r where r: "st2 = withState (AddBalance ?a (uint r * msg_GasPrice (st_msg st)) (StateDB (st_zvm st)))
        (st\<lparr>gasRemaining := r, st_gp := st_gp st + r\<rparr>)"
    "unat (st_gp st + r) = unat (st_gp st) + unat r" "r \<le> initialGas st"
    "4 * (unat (initialGas st) - unat (gasRemaining st)) \<le> 5 * (unat (initialGas st) - unat r)"
    using refundGas_result [OF g] f by auto
  obtain cap b where t': "msg_GasFeeCap (st_msg st2) = Some cap" "BaseFee (Context E) = Some b"
    "st' = withState (AddBalance (Coinbase (Context E)) (uint (gasUsed st2) * min (msg_GasTipCap (st_msg st2)) (cap - b))
       (StateDB (st_zvm st2))) st2"
    using payTip_result [OF t nb] .
  have used: "gasUsed st' = initialGas st - r" "gasUsed st2 = initialGas st - r"
    "unat (initialGas st - r) = unat (initialGas st) - unat r"
    using r(3) by (simp_all add: t'(3) r(1) gasUsed_def unat_sub)
  note m1 = ledger_shift_AddBalance [OF ok, of "uint r * msg_GasPrice (st_msg st)" ?a]
  note m2 = ledger_shift_trans [OF m1 ledger_shift_AddBalance [OF ledger_shift_state_ok [OF m1],
      of "uint (initialGas st - r) * min (msg_GasTipCap (st_msg st)) (cap - b)" "Coinbase (Context E)"]]
  have "ledger_shift (uint r * msg_GasPrice (st_msg st) + uint (initialGas st - r) * min (msg_GasTipCap (st_msg st)) (cap - b))
      (StateDB (st_zvm st)) (StateDB (st_zvm st'))"
    using m2 by (simp add: t'(3) r(1) gasUsed_def)
  then show ?thesis
    using r t' used unfolding settled_def
    by (intro exI [of _ r] exI [of _ cap] exI [of _ b]) (simp add: same_mode_def)
qed

lemma finishTransition_result:
  fixes st :: StateTransition
  assumes ok: "state_ok (StateDB (st_zvm st))" and pre: "precompile E = PrecompiledContractsBerlin L"
    and ro: "\<not> readOnly (st_zvm st)" and nb: "\<not> NoBaseFee E"
    and x: "finishTransition n E st = Inr (res, st')"
    and c: "can_create (AccountRef (msg_From (st_msg st))) (msg_Value (st_msg st)) (st_zvm st)"
    and g: "gasRemaining st \<le> initialGas st" "unat (st_gp st) + unat (initialGas st) < 2 ^ 64"
  shows "\<exists>result. res = Inr result \<and> settled E st (UsedGas result) st' \<and>
    nonce_of (view (StateDB (st_zvm st))) (msg_From (st_msg st))
      < nonce_of (view (StateDB (st_zvm st'))) (msg_From (st_msg st))"
proof -
  let ?a = "msg_From (st_msg st)"
  obtain s1 ret vmerr st2 st3 where
    p: "Prepare ?a (Coinbase (Context E)) (msg_To (st_msg st)) ActivePrecompiles
      (msg_AccessList (st_msg st)) (StateDB (st_zvm st)) = Inr s1"
    and e: "executeMessage n E (withState s1 st) = Inr (ret, vmerr, st2)"
    and f: "refundGas RefundQuotientEIP3529 st2 = Inr st3" and t: "payTip E st3 = Inr st'"
    and res: "res = Inr \<lparr>UsedGas = gasUsed st', res_Err = vmerr, ReturnData = ret\<rparr>"
    using x by (auto simp: finishTransition_def)
  note p1 = Prepare_shift [OF ok p]
  have ok1: "state_ok (StateDB (st_zvm (withState s1 st)))"
    using p1 by (simp add: ledger_shift_def)
  have c1: "can_create (AccountRef ?a) (msg_Value (st_msg st)) (st_zvm (withState s1 st))"
    using c p1 by (simp add: can_create_def)
  obtain gas z where e2: "st2 = (withState s1 st)\<lparr>gasRemaining := gas, st_zvm := z\<rparr>" "unat gas \<le> unat (gasRemaining st)"
    "moves False s1 (StateDB z)" "same_mode (st_zvm st) z" "nonce_of (view s1) ?a < nonce_of (view (StateDB z)) ?a"
    using executeMessage_result [OF ok1 pre _ e] ro c1 by (auto simp: same_mode_def)
  note m1 = ledger_shift_trans [OF conjunct1 [OF p1] ledger_shift_moves [OF e2(3)]]
  have "settled E st2 (gasUsed st') st'"
    using ledger_shift_state_ok [OF m1] g e2(1,2)
    by (intro settlement_result [OF _ nb f t]) (simp_all add: word_le_nat_alt)
  moreover have "4 * (unat (initialGas st) - unat (gasRemaining st)) \<le> 4 * (unat (initialGas st) - unat gas)"
    using e2(2) by simp
  ultimately have "settled E st (gasUsed st') st'"
    using m1 ledger_shift_trans [OF m1] e2(1,4) unfolding settled_def
    by (fastforce simp: same_mode_def)
  moreover have "nonce_of (view (StateDB z)) ?a \<le> nonce_of (view (StateDB (st_zvm st'))) ?a"
    using \<open>settled E st2 (gasUsed st') st'\<close> e2(1) by (auto simp: settled_def ledger_shift_def)
  ultimately show ?thesis
    using res p1 order_less_le_trans [OF e2(5)] by simp
qed

section \<open>The whole transition\<close>

text \<open>The errors that are found after the gas has been bought.\<close>

definition late_errors :: "core_error set" where
  "late_errors = {CoreGasUintOverflow, CoreIntrinsicGas, CoreInsufficientFundsForTransfer, CoreMaxInitCodeSizeExceeded}"

lemma IntrinsicGas_error: "IntrinsicGas data al cr = Inl e \<Longrightarrow> e = CoreGasUintOverflow"
  by (auto simp: IntrinsicGas_def dataGas_def chargeUnits_def Let_def split: sum.splits if_splits)

lemma boughtGas_simps [simp]:
  "st_msg (boughtGas s st) = st_msg st" "st_gp (boughtGas s st) = st_gp st - msg_GasLimit (st_msg st)"
  "gasRemaining (boughtGas s st) = gasRemaining st + msg_GasLimit (st_msg st)"
  "initialGas (boughtGas s st) = msg_GasLimit (st_msg st)"
  "readOnly (st_zvm (boughtGas s st)) = readOnly (st_zvm st)" "z_depth (st_zvm (boughtGas s st)) = z_depth (st_zvm st)"
  "StateDB (st_zvm (boughtGas s st)) =
     SubBalance (msg_From (st_msg st)) (uint (msg_GasLimit (st_msg st)) * msg_GasPrice (st_msg st)) s"
  by (simp_all add: boughtGas_def Let_def)

text \<open>How a transition can end: rejected without effect, rejected after the gas has been bought, or
  executed.\<close>

lemma TransitionDb_cases:
  fixes st :: StateTransition
  assumes ok: "state_ok (StateDB (st_zvm st))" and t: "TransitionDb n E st = Inr (res, st')"
  obtains (rejected) e s where "res = Inl e" "e \<in> precheck_errors" "quiet (StateDB (st_zvm st)) s" "st' = withState s st"
  | (unpaid) e s s' g where "res = Inl e" "e \<in> late_errors" "quiet (StateDB (st_zvm st)) s"
      "quiet (StateDB (st_zvm (boughtGas s st))) s'" "st' = withState s' ((boughtGas s st)\<lparr>gasRemaining := g\<rparr>)"
  | (executed) s s' gas where "quiet (StateDB (st_zvm st)) s" "admissible E (StateDB (st_zvm st)) (st_msg st) (st_gp st)"
      "IntrinsicGas (msg_Data (st_msg st)) (msg_AccessList (st_msg st)) (msg_To (st_msg st) = None) = Inr gas"
      "gas \<le> gasRemaining st + msg_GasLimit (st_msg st)" "quiet (StateDB (st_zvm (boughtGas s st))) s'"
      "finishTransition n E (withState s' ((boughtGas s st)\<lparr>gasRemaining :=
         gasRemaining st + msg_GasLimit (st_msg st) - gas\<rparr>)) = Inr (res, st')"
proof -
  obtain err st1 where p: "preCheck E st = Inr (err, st1)"
    using t by (auto simp: TransitionDb_def)
  obtain s where s: "quiet (StateDB (st_zvm st)) s" "case err of
       Some e \<Rightarrow> st1 = withState s st \<and> e \<in> precheck_errors
     | None \<Rightarrow> st1 = boughtGas s st \<and> admissible E (StateDB (st_zvm st)) (st_msg st) (st_gp st)"
    using preCheck_result [OF ok p] by blast
  show thesis
  proof (cases err)
    case (Some e)
    then show thesis
      using t p s by (intro rejected [of e s]) (simp_all add: TransitionDb_def)
  next
    case None
    then have st1: "st1 = boughtGas s st" "admissible E (StateDB (st_zvm st)) (st_msg st) (st_gp st)"
      using s(2) by simp_all
    define s2 where "s2 = SubBalance (msg_From (st_msg st)) (uint (msg_GasLimit (st_msg st)) * msg_GasPrice (st_msg st)) s"
    have ok2: "state_ok s2"
      unfolding s2_def using extends_state_ok [OF SubBalance_extends [OF moves_state_ok [OF moves_quiet [OF ok s(1)]]]] .
    obtain af s' where c: "(if 0 < msg_Value (st_msg st) then CanTransfer s2 (msg_From (st_msg st)) (msg_Value (st_msg st))
        else (True, s2)) = (af, s')"
      by fastforce
    have q: "quiet (StateDB (st_zvm (boughtGas s st))) s'"
      using c CanTransfer_quiet [OF state_ok_wf [OF ok2]] by (auto simp: s2_def split: if_splits)
    have idem: "withState (StateDB (st_zvm st1)) (st1\<lparr>gasRemaining := gasRemaining st1\<rparr>) = st1"
      by (simp add: withState_def setDB_def)
    show thesis
    proof (cases "IntrinsicGas (msg_Data (st_msg st)) (msg_AccessList (st_msg st)) (msg_To (st_msg st) = None)")
      case (Inl e)
      then show thesis
        using t p None st1 idem s(1) IntrinsicGas_error [OF Inl]
        by (intro unpaid [of e s "StateDB (st_zvm st1)" "gasRemaining st1"]) (simp_all add: TransitionDb_def checkedTransition_def late_errors_def Let_def)
    next
      case (Inr gas)
      show thesis
        using t p None st1 idem s(1) Inr q c executed [OF s(1) st1(2) Inr _ q]
          unpaid [of CoreIntrinsicGas s "StateDB (st_zvm st1)" "gasRemaining st1"]
          unpaid [of _ s s' "gasRemaining st + msg_GasLimit (st_msg st) - gas"]
        by (auto simp: TransitionDb_def checkedTransition_def late_errors_def Let_def s2_def [symmetric] split: if_splits prod.splits)
    qed
  qed
qed

text \<open>The sender can pay for the value as well once the gas is paid for, so that even a contract creation
  gets to count up the nonce.\<close>

lemma admissible_can_create:
  fixes st :: StateTransition
  assumes ok: "state_ok (StateDB (st_zvm st))" and q: "quiet (StateDB (st_zvm st)) s"
    "quiet (StateDB (st_zvm (boughtGas s st))) s'"
    and a: "admissible E (StateDB (st_zvm st)) (st_msg st) (st_gp st)" "\<not> SkipAccountChecks (st_msg st)" "\<not> NoBaseFee E"
    and d: "z_depth (st_zvm st) \<le> int (unat CallCreateDepth)"
    and fee: "msg_GasFeeCap (st_msg st) = Some cap" "msg_GasPrice (st_msg st) \<le> cap"
  shows "can_create (AccountRef (msg_From (st_msg st))) (msg_Value (st_msg st))
    (st_zvm (withState s' ((boughtGas s st)\<lparr>gasRemaining := g\<rparr>)))"
proof -
  let ?msg = "st_msg st"
  have ok1: "state_ok s" and vs: "view s = view (StateDB (st_zvm st))"
    using moves_state_ok [OF moves_quiet [OF ok q(1)]] q(1) by (simp_all add: quiet_def)
  have v: "view s' = view (SubBalance (msg_From ?msg) (uint (msg_GasLimit ?msg) * msg_GasPrice ?msg) s)"
    using q(2) by (simp add: quiet_def)
  have "balance (view s') (msg_From ?msg) =
      balance (view (StateDB (st_zvm st))) (msg_From ?msg) - uint (msg_GasLimit ?msg) * msg_GasPrice ?msg"
    using balance_GetBalance [OF state_ok_wf [OF ok1]] GetBalance_SubBalance [OF ok1]
      balance_GetBalance [OF state_ok_wf [OF extends_state_ok [OF SubBalance_extends [OF ok1]]]] vs v by simp
  moreover have "uint (msg_GasLimit ?msg) * msg_GasPrice ?msg \<le> uint (msg_GasLimit ?msg) * cap"
    using fee(2) by (simp add: mult_left_mono)
  moreover have "nonce_of (view s') (msg_From ?msg) = msg_Nonce ?msg"
    using v vs nonce_SubBalance [OF ok1] a(1,2) by (simp add: admissible_def)
  ultimately show ?thesis
    using a d fee(1) by (auto simp: can_create_def admissible_def)
qed

lemma executed_result:
  fixes st :: StateTransition
  assumes ok: "state_ok (StateDB (st_zvm st))" and pre: "precompile E = PrecompiledContractsBerlin L"
    and md: "\<not> readOnly (st_zvm st)" "z_depth (st_zvm st) \<le> int (unat CallCreateDepth)" "\<not> NoBaseFee E"
    and m: "\<not> SkipAccountChecks (st_msg st)" "msg_GasFeeCap (st_msg st) = Some cap" "msg_GasPrice (st_msg st) \<le> cap"
    and t: "TransitionDb n E st = Inr (Inr result, st')" and z: "gasRemaining st = 0"
  shows "\<exists>s s' gas. quiet (StateDB (st_zvm st)) s \<and> admissible E (StateDB (st_zvm st)) (st_msg st) (st_gp st) \<and>
    IntrinsicGas (msg_Data (st_msg st)) (msg_AccessList (st_msg st)) (msg_To (st_msg st) = None) = Inr gas \<and>
    gas \<le> msg_GasLimit (st_msg st) \<and> quiet (StateDB (st_zvm (boughtGas s st))) s' \<and>
    settled E (withState s' ((boughtGas s st)\<lparr>gasRemaining := msg_GasLimit (st_msg st) - gas\<rparr>)) (UsedGas result) st' \<and>
    nonce_of (view (StateDB (st_zvm st))) (msg_From (st_msg st))
      < nonce_of (view (StateDB (st_zvm st'))) (msg_From (st_msg st))"
  using ok t
proof (cases rule: TransitionDb_cases)
  case (executed s s' gas)
  let ?st = "withState s' ((boughtGas s st)\<lparr>gasRemaining := msg_GasLimit (st_msg st) - gas\<rparr>)"
  have ok1: "state_ok s"
    using moves_state_ok [OF moves_quiet [OF ok executed(1)]] .
  have ok2: "state_ok s'"
    using executed(5) moves_state_ok [OF moves_quiet [OF extends_state_ok [OF SubBalance_extends [OF ok1]]]] by simp
  have le: "msg_GasLimit (st_msg st) \<le> st_gp st" "gas \<le> msg_GasLimit (st_msg st)"
    using executed(2,4) z by (simp_all add: admissible_def)
  have "settled E ?st (UsedGas result) st' \<and> nonce_of (view s') (msg_From (st_msg st))
      < nonce_of (view (StateDB (st_zvm st'))) (msg_From (st_msg st))"
    using finishTransition_result [OF _ pre _ md(3), of ?st n "Inr result" st']
      admissible_can_create [OF ok executed(1,5,2) m(1) md(3,2) m(2,3)] executed(6) ok2 md(1) le z
      unat_u64_less [of "st_gp st"]
    by (simp add: word_le_nat_alt unat_sub)
  moreover have "nonce_of (view s') (msg_From (st_msg st)) = nonce_of (view (StateDB (st_zvm st))) (msg_From (st_msg st))"
    using executed(1,5) nonce_SubBalance [OF ok1] by (simp add: quiet_def)
  ultimately show ?thesis
    using executed(1-3,5) le(2) by (intro exI [of _ s] exI [of _ s'] exI [of _ gas]) simp
qed simp_all

text \<open>What the sender pays, less what it gets back and what the coinbase gets, is the base fee.\<close>

lemma fee_split:
  fixes limit used r :: uint64
  assumes "r \<le> limit" "used = limit - r"
  shows "- (uint limit * min (tip + b) cap) + (uint r * min (tip + b) cap + uint used * min tip (cap - b)) = - (uint used * b)"
proof -
  have "uint limit = uint used + uint r"
    using assms by (simp add: uint_sub_if' word_le_def)
  moreover have "min (tip + b) cap = min tip (cap - b) + b"
    by (simp add: min_def)
  ultimately show ?thesis
    by (simp add: algebra_simps)
qed

lemma transaction_ledger:
  fixes st :: StateTransition
  assumes ok: "state_ok (StateDB (st_zvm st))" and q: "quiet (StateDB (st_zvm st)) s"
    "quiet (StateDB (st_zvm (boughtGas s st))) s'" and le: "msg_GasLimit (st_msg st) \<le> st_gp st" "gas \<le> msg_GasLimit (st_msg st)"
    and fee: "msg_GasFeeCap (st_msg st) = Some cap" "BaseFee (Context E) = Some b"
      "msg_GasPrice (st_msg st) = min (msg_GasTipCap (st_msg st) + b) cap"
    and t: "settled E (withState s' ((boughtGas s st)\<lparr>gasRemaining := msg_GasLimit (st_msg st) - gas\<rparr>)) used st'"
  shows "ledger_shift (- (uint used * b)) (StateDB (st_zvm st)) (StateDB (st_zvm st'))"
    "unat (st_gp st') + unat used = unat (st_gp st)" "4 * unat gas \<le> 5 * unat used" "used \<le> msg_GasLimit (st_msg st)"
proof -
  let ?msg = "st_msg st"
  obtain r where r: "r \<le> msg_GasLimit ?msg" "used = msg_GasLimit ?msg - r"
    "unat (st_gp st') = unat (st_gp st - msg_GasLimit ?msg) + unat r"
    "4 * (unat (msg_GasLimit ?msg) - unat (msg_GasLimit ?msg - gas)) \<le> 5 * unat used"
    "ledger_shift (uint r * msg_GasPrice ?msg + uint used * min (msg_GasTipCap ?msg) (cap - b)) s' (StateDB (st_zvm st'))"
    using t fee by (auto simp: settled_def)
  note m1 = ledger_shift_quiet [OF ok q(1)]
  note m2 = ledger_shift_trans [OF m1 ledger_shift_SubBalance [OF ledger_shift_state_ok [OF m1], of "uint (msg_GasLimit ?msg) * msg_GasPrice ?msg"
        "msg_From ?msg"]]
  note m3 = ledger_shift_trans [OF m2 ledger_shift_quiet [OF ledger_shift_state_ok [OF m2] q(2) [unfolded boughtGas_simps]]]
  show "ledger_shift (- (uint used * b)) (StateDB (st_zvm st)) (StateDB (st_zvm st'))"
    using ledger_shift_trans [OF m3 r(5)] fee_split [OF r(1,2), of "msg_GasTipCap ?msg" b cap] by (simp add: fee(3))
  show "unat (st_gp st') + unat used = unat (st_gp st)" "4 * unat gas \<le> 5 * unat used" "used \<le> msg_GasLimit ?msg"
    using r le by (auto simp: unat_sub word_le_nat_alt)
qed

lemma ApplyMessage_result:
  assumes "state_ok (StateDB z)" "precompile E = PrecompiledContractsBerlin L" "\<not> readOnly z" "z_depth z = 0"
    and "\<not> NoBaseFee E" "BaseFee (Context E) = Some b" "\<not> SkipAccountChecks msg" "msg_GasFeeCap msg = Some cap"
    and "msg_GasPrice msg = min (msg_GasTipCap msg + b) cap"
    and "ApplyMessage n E z msg gp = Inr (Inr result, st')"
  shows "ledger_shift (- (uint (UsedGas result) * b)) (StateDB z) (StateDB (st_zvm st'))"
    "unat (st_gp st') + unat (UsedGas result) = unat gp" "UsedGas result \<le> msg_GasLimit msg"
    "\<exists>gas. IntrinsicGas (msg_Data msg) (msg_AccessList msg) (msg_To msg = None) = Inr gas \<and>
       4 * unat gas \<le> 5 * unat (UsedGas result)"
    "nonce_of (view (StateDB z)) (msg_From msg) = msg_Nonce msg"
    "msg_Nonce msg < nonce_of (view (StateDB (st_zvm st'))) (msg_From msg)"
    "admissible E (StateDB z) msg gp" "same_mode z (st_zvm st')"
proof -
  define st where "st = NewStateTransition z msg gp"
  have st: "st_msg st = msg" "st_zvm st = z" "gasRemaining st = 0" "st_gp st = gp"
    by (simp_all add: NewStateTransition_def st_def)
  have pc: "msg_GasPrice msg \<le> cap" and tr: "TransitionDb n E st = Inr (Inr result, st')"
    using assms(9,10) by (simp_all add: ApplyMessage_def st_def)
  obtain s s' gas where x: "quiet (StateDB z) s" "admissible E (StateDB z) msg gp"
    "IntrinsicGas (msg_Data msg) (msg_AccessList msg) (msg_To msg = None) = Inr gas" "gas \<le> msg_GasLimit msg"
    "quiet (StateDB (st_zvm (boughtGas s st))) s'"
    "settled E (withState s' ((boughtGas s st)\<lparr>gasRemaining := msg_GasLimit (st_msg st) - gas\<rparr>)) (UsedGas result) st'"
    "nonce_of (view (StateDB z)) (msg_From msg) < nonce_of (view (StateDB (st_zvm st'))) (msg_From msg)"
    using executed_result [of st, unfolded st, OF assms(1-3) _ assms(5,7,8) pc tr] assms(4) unfolding st(1) by auto
  have "msg_GasLimit (st_msg st) \<le> st_gp st"
    using x(2) st by (simp add: admissible_def)
  note l = transaction_ledger [OF _ _ x(5) this _ _ assms(6) _ x(6), of cap, unfolded st]
  show "ledger_shift (- (uint (UsedGas result) * b)) (StateDB z) (StateDB (st_zvm st'))"
    "unat (st_gp st') + unat (UsedGas result) = unat gp" "UsedGas result \<le> msg_GasLimit msg"
    using l assms x(1,4) by blast+
  have "4 * unat gas \<le> 5 * unat (UsedGas result)"
    using l(3) assms x(1,4) by blast
  then show "\<exists>gas. IntrinsicGas (msg_Data msg) (msg_AccessList msg) (msg_To msg = None) = Inr gas \<and>
      4 * unat gas \<le> 5 * unat (UsedGas result)"
    using x(3) by blast
  show "nonce_of (view (StateDB z)) (msg_From msg) = msg_Nonce msg" and "admissible E (StateDB z) msg gp"
    using x(2) assms(7) by (simp_all add: admissible_def)
  then show "msg_Nonce msg < nonce_of (view (StateDB (st_zvm st'))) (msg_From msg)"
    using x(7) by simp
  show "same_mode z (st_zvm st')"
    using x(6) st by (auto simp: settled_def same_mode_def)
qed

section \<open>Termination\<close>

lemma executeMessage_below:
  assumes "n \<le> m"
  shows "below (executeMessage n E st) (executeMessage m E st)"
proof (cases "msg_To (st_msg st)")
  case None
  show ?thesis
    unfolding executeMessage_def Let_def None option.case
    by (intro below_andThen below_refl creates_below(1) [OF Run_below [OF assms]])
next
  case (Some d)
  show ?thesis
    unfolding executeMessage_def Let_def Some option.case split_def
    by (intro below_andThen below_refl calls_below(1) [OF Run_below [OF assms]])
qed

lemma TransitionDb_below:
  assumes "n \<le> m"
  shows "below (TransitionDb n E st) (TransitionDb m E st)"
proof -
  have f: "below (finishTransition n E st) (finishTransition m E st)" for st
    unfolding finishTransition_def split_def
    by (intro below_andThen below_refl executeMessage_below assms)
  have c: "below (checkedTransition n E st) (checkedTransition m E st)" for st
    unfolding checkedTransition_def Let_def split_def
    by (cases "IntrinsicGas (msg_Data (st_msg st)) (msg_AccessList (st_msg st)) (msg_To (st_msg st) = None)")
      (simp_all add: f)
  show ?thesis
    unfolding TransitionDb_def split_def
    by (intro below_andThen below_refl) (simp add: c split: option.split)
qed

lemma executeMessage_returns:
  fixes st :: StateTransition
  assumes ok: "state_ok (StateDB (st_zvm st))" and pre: "precompile E = PrecompiledContractsBerlin L"
    and ro: "\<not> readOnly (st_zvm st)" and n: "unat (gasRemaining st) < n"
    and c: "\<not> nonce_of (view (StateDB (st_zvm st))) (msg_From (st_msg st)) + 1
      < nonce_of (view (StateDB (st_zvm st))) (msg_From (st_msg st))"
  shows "executeMessage n E st \<noteq> Inl OutOfFuel"
proof -
  note run = Run_good [OF precompiled_ok [OF pre]] and p = precompiled_ok [OF pre]
  let ?a = "msg_From (st_msg st)"
  obtain m s where m: "GetNonce ?a (StateDB (st_zvm st)) = (m, s)"
    by fastforce
  have "Create E (Run n E) (AccountRef ?a) code (gasRemaining st) v (st_zvm st) \<noteq> Inl OutOfFuel" for code v
    by (rule retf_not_fuel [OF Create_good [OF run n ok]])
  moreover have "Call E (Run n E) (AccountRef ?a) d inp (gasRemaining st) v
      (setDB (SetNonce ?a (m + 1) s) (st_zvm st)) \<noteq> Inl OutOfFuel" for d inp v
    by (rule retf_not_fuel [OF Call_good [OF run p _ n]])
      (use moves_state_ok [OF bump_nonce(1) [OF ok m c]] ro in simp_all)
  ultimately show ?thesis
    by (cases "msg_To (st_msg st)") (simp_all add: executeMessage_def m Let_def andThen_eq_Inl split_def)
qed

lemma settlement_panics: "refundGas q st \<noteq> Inl OutOfFuel" "payTip E st \<noteq> Inl OutOfFuel" "preCheck E st \<noteq> Inl OutOfFuel"
  by (auto simp: refundGas_def payTip_def preCheck_def checkFees_def AddGas_def Let_def andThen_eq_Inl
      split: option.splits prod.splits if_splits)

lemma finishTransition_returns:
  fixes st :: StateTransition
  assumes ok: "state_ok (StateDB (st_zvm st))" and pre: "precompile E = PrecompiledContractsBerlin L"
    and ro: "\<not> readOnly (st_zvm st)" and n: "unat (gasRemaining st) < n"
    and c: "\<not> nonce_of (view (StateDB (st_zvm st))) (msg_From (st_msg st)) + 1
      < nonce_of (view (StateDB (st_zvm st))) (msg_From (st_msg st))"
  shows "finishTransition n E st \<noteq> Inl OutOfFuel"
proof -
  obtain s where s: "Prepare (msg_From (st_msg st)) (Coinbase (Context E)) (msg_To (st_msg st)) ActivePrecompiles
      (msg_AccessList (st_msg st)) (StateDB (st_zvm st)) = Inr s"
    using Prepare_returns [OF ok] by blast
  have "executeMessage n E (withState s st) \<noteq> Inl OutOfFuel"
    using Prepare_shift [OF ok s] ro n c by (intro executeMessage_returns [OF _ pre]) (simp_all add: ledger_shift_def)
  then show ?thesis
    by (simp add: finishTransition_def s andThen_eq_Inl split_def settlement_panics)
qed

lemma TransitionDb_returns:
  fixes st :: StateTransition
  assumes ok: "state_ok (StateDB (st_zvm st))" and pre: "precompile E = PrecompiledContractsBerlin L"
    and ro: "\<not> readOnly (st_zvm st)" and z: "gasRemaining st = 0" and n: "unat (msg_GasLimit (st_msg st)) < n"
    and m: "\<not> SkipAccountChecks (st_msg st)"
  shows "TransitionDb n E st \<noteq> Inl OutOfFuel"
proof
  assume "TransitionDb n E st = Inl OutOfFuel"
  then obtain st1 where p: "preCheck E st = Inr (None, st1)" and c: "checkedTransition n E st1 = Inl OutOfFuel"
    by (auto simp: TransitionDb_def andThen_eq_Inl settlement_panics split: option.splits)
  obtain s where s: "quiet (StateDB (st_zvm st)) s" "st1 = boughtGas s st" "admissible E (StateDB (st_zvm st)) (st_msg st) (st_gp st)"
    using preCheck_result [OF ok p] by auto
  have ok1: "state_ok s"
    using moves_state_ok [OF moves_quiet [OF ok s(1)]] .
  have ok2: "state_ok (StateDB (st_zvm st1))"
    using s(2) extends_state_ok [OF SubBalance_extends [OF ok1]] by simp
  have nn: "nonce_of (view (StateDB (st_zvm st1))) (msg_From (st_msg st)) = msg_Nonce (st_msg st)"
    using s m nonce_SubBalance [OF ok1] by (simp add: admissible_def quiet_def)
  have "finishTransition n E (withState s' (st1\<lparr>gasRemaining := gasRemaining st1 - gas\<rparr>)) \<noteq> Inl OutOfFuel"
    if "quiet (StateDB (st_zvm st1)) s'" "\<not> gasRemaining st1 < gas" for s' gas
  proof (rule finishTransition_returns [OF _ pre])
    show "state_ok (StateDB (st_zvm (withState s' (st1\<lparr>gasRemaining := gasRemaining st1 - gas\<rparr>))))"
      using moves_state_ok [OF moves_quiet [OF ok2 that(1)]] by simp
    show "unat (gasRemaining (withState s' (st1\<lparr>gasRemaining := gasRemaining st1 - gas\<rparr>))) < n"
      using that(2) s(2) z n by (simp add: unat_sub_if_size word_less_nat_alt)
  qed (use ro s m that(1) nn in \<open>auto simp: quiet_def admissible_def\<close>)
  moreover have "quiet (StateDB (st_zvm st1)) s'"
    if "CanTransfer (StateDB (st_zvm st1)) a v = (b, s')" for a v b s'
    using CanTransfer_quiet [OF state_ok_wf [OF ok2] that] .
  ultimately show False
    using c by (auto simp: checkedTransition_def Let_def split: sum.splits if_splits prod.splits)
qed

section \<open>Failed calls\<close>

lemma balance_AddBalance:
  "state_ok s \<Longrightarrow> balance (view (AddBalance a n s)) b = balance (view s) b + (if b = a then n else 0)"
  by (simp add: balance_GetBalance state_ok_wf extends_state_ok [OF AddBalance_extends] GetBalance_AddBalance)

lemma balance_SubBalance:
  "state_ok s \<Longrightarrow> balance (view (SubBalance a n s)) b = balance (view s) b - (if b = a then n else 0)"
  by (simp add: balance_GetBalance state_ok_wf extends_state_ok [OF SubBalance_extends] GetBalance_SubBalance)

lemma executeMessage_failed:
  fixes st :: StateTransition
  assumes ok: "state_ok (StateDB (st_zvm st))" and pre: "precompile E = PrecompiledContractsBerlin L"
    and ro: "\<not> readOnly (st_zvm st)" and x: "executeMessage n E st = Inr (ret, Some e, st')"
    and d: "msg_To (st_msg st) = Some d"
    and c: "\<not> nonce_of (view (StateDB (st_zvm st))) (msg_From (st_msg st)) + 1
      < nonce_of (view (StateDB (st_zvm st))) (msg_From (st_msg st))"
  shows "state_ok (StateDB (st_zvm st')) \<and> (\<exists>gas z. st' = st\<lparr>gasRemaining := gas, st_zvm := z\<rparr> \<and> unat gas \<le> unat (gasRemaining st)) \<and>
    (\<forall>a. balance (view (StateDB (st_zvm st'))) a = balance (view (StateDB (st_zvm st))) a \<and>
      nonce_of (view (StateDB (st_zvm st'))) a =
        nonce_of (view (StateDB (st_zvm st))) a + (if a = msg_From (st_msg st) then 1 else 0))"
proof -
  let ?a = "msg_From (st_msg st)"
  obtain m s where m: "GetNonce ?a (StateDB (st_zvm st)) = (m, s)"
    by fastforce
  let ?z = "setDB (SetNonce ?a (m + 1) s) (st_zvm st)"
  obtain gas z where r: "st' = st\<lparr>gasRemaining := gas, st_zvm := z\<rparr>"
    "Call E (Run n E) (AccountRef ?a) d (msg_Data (st_msg st)) (gasRemaining st)
       (msg_Value (st_msg st)) ?z = Inr (ret, gas, Some e, z)"
    using x d m by (auto simp: executeMessage_def Let_def)
  have q: "quiet (StateDB (st_zvm st)) s"
    using GetNonce_read(1) [OF state_ok_wf [OF ok], of ?a] m by simp
  note ok1 = moves_state_ok [OF moves_quiet [OF ok q]] and b = bump_nonce [OF ok m c]
  have "call_result (readOnly ?z) (gasRemaining st) ?z (ret, gas, Some e, z)"
    using r(2) moves_state_ok [OF b(1)] ro by (intro entry_results(1) [OF _ pre]) simp_all
  then have k: "state_ok (StateDB z)" "view (StateDB z) = view (SetNonce ?a (m + 1) s)" "unat gas \<le> unat (gasRemaining st)"
    by (auto simp: call_result_def moves_state_ok)
  have "m = nonce_of (view s) ?a" "view s = view (StateDB (st_zvm st))"
    using nonce_GetNonce [OF state_ok_wf [OF ok], of ?a] m q by (simp_all add: quiet_def)
  then show ?thesis
    using k r(1) nonce_SetNonce [OF ok1] balance_SetNonce [OF ok1] by auto
qed

text \<open>The effect of a settlement on balances and nonces.\<close>

lemma settlement_balances:
  fixes st :: StateTransition
  assumes ok: "state_ok (StateDB (st_zvm st))" and nb: "\<not> NoBaseFee E"
    and f: "refundGas RefundQuotientEIP3529 st = Inr st2" and t: "payTip E st2 = Inr st'"
    and g: "gasRemaining st \<le> initialGas st" "unat (st_gp st) + unat (initialGas st) < 2 ^ 64"
    and fee: "msg_GasFeeCap (st_msg st) = Some cap" "BaseFee (Context E) = Some b"
  shows "\<exists>r. r \<le> initialGas st \<and> gasUsed st' = initialGas st - r \<and> (\<forall>a.
    balance (view (StateDB (st_zvm st'))) a = balance (view (StateDB (st_zvm st))) a
      + (if a = msg_From (st_msg st) then uint r * msg_GasPrice (st_msg st) else 0)
      + (if a = Coinbase (Context E) then uint (gasUsed st') * min (msg_GasTipCap (st_msg st)) (cap - b) else 0) \<and>
    nonce_of (view (StateDB (st_zvm st'))) a = nonce_of (view (StateDB (st_zvm st))) a)"
proof -
  let ?s = "\<lambda>r. AddBalance (msg_From (st_msg st)) (uint r * msg_GasPrice (st_msg st)) (StateDB (st_zvm st))"
  obtain r where r: "st2 = withState (?s r) (st\<lparr>gasRemaining := r, st_gp := st_gp st + r\<rparr>)" "r \<le> initialGas st"
    using refundGas_result [OF g] f by auto
  have ok2: "state_ok (?s r)"
    using extends_state_ok [OF AddBalance_extends [OF ok]] .
  have t': "st' = withState (AddBalance (Coinbase (Context E)) (uint (gasUsed st2) * min (msg_GasTipCap (st_msg st2)) (cap - b))
       (StateDB (st_zvm st2))) st2"
    using payTip_result [OF t nb] fee r(1) by auto
  have "gasUsed st' = initialGas st - r" "gasUsed st2 = initialGas st - r"
    by (simp_all add: t' r(1) gasUsed_def)
  then show ?thesis
    using r t' balance_AddBalance [OF ok] balance_AddBalance [OF ok2] nonce_AddBalance [OF ok] nonce_AddBalance [OF ok2]
    by (intro exI [of _ r]) simp
qed

end
