(* ===== verification/Payments.thy ===== *)
theory Payments
  imports State_Transition
begin

text \<open>
  Admissible messages are executed, and the one that every chain lives on, a transfer of value to an
  account without code, is followed to the end. What is
  known of an account's code and of the refund counter is followed through the operations that such a
  transaction performs, down to the exact balances that it leaves.
\<close>

section \<open>Admissible messages are executed\<close>

lemma CanTransfer_iff: "state_ok s \<Longrightarrow> CanTransfer s a v = (c, s') \<Longrightarrow> c \<longleftrightarrow> v \<le> balance (view s) a"
  using balance_GetBalance [OF state_ok_wf, of s a] by (auto simp: CanTransfer_def split: prod.splits)

lemma checkSender_admits:
  assumes ok: "state_ok s" and a: "admissible E s msg gp"
  obtains s' where "checkSender msg s = (None, s')" "quiet s s'"
proof -
  obtain r s' where c: "checkSender msg s = (r, s')"
    by fastforce
  obtain m s1 h s2 where m: "GetNonce (msg_From msg) s = (m, s1)" and h: "GetCodeHash (msg_From msg) s1 = (h, s2)"
    by fastforce
  have q: "quiet s s1"
    using GetNonce_read(1) [OF state_ok_wf [OF ok], of "msg_From msg"] m by simp
  then have wf: "wf_state s1"
    using state_ok_wf [OF ok] by (simp add: quiet_def)
  have "quiet s1 s2"
    using GetCodeHash_read(1) [OF wf, of "msg_From msg"] h by simp
  then have "db s2 = db s"
    using q by (intro view_env) (simp add: quiet_def)
  moreover have "h = fst (GetCodeHash (msg_From msg) s)"
    using GetCodeHash_read(2) [OF wf, of "msg_From msg"] GetCodeHash_read(2) [OF state_ok_wf [OF ok], of "msg_From msg"]
      q h by (simp add: quiet_def)
  moreover have "m = nonce_of (view s) (msg_From msg)"
    using nonce_GetNonce [OF state_ok_wf [OF ok], of "msg_From msg"] m by simp
  ultimately have "r = None"
    using c m h a by (auto simp: checkSender_def admissible_def split: if_splits)
  then show thesis
    using that c checkSender_quiet(1) [OF ok c] by blast
qed

lemma preCheck_admits:
  fixes st :: StateTransition
  assumes ok: "state_ok (StateDB (st_zvm st))" and a: "admissible E (StateDB (st_zvm st)) (st_msg st) (st_gp st)"
    and nb: "\<not> NoBaseFee E" and f: "msg_GasFeeCap (st_msg st) = Some cap" "BitLen cap \<le> 256" "BitLen (msg_GasTipCap (st_msg st)) \<le> 256"
  obtains s where "preCheck E st = Inr (None, boughtGas s st)" "quiet (StateDB (st_zvm st)) s"
proof -
  let ?s = "StateDB (st_zvm st)" and ?msg = "st_msg st"
  obtain s1 where s1: "checkSender ?msg ?s = (None, s1)" "quiet ?s s1"
    using checkSender_admits [OF ok a] .
  obtain b where b: "BaseFee (Context E) = Some b" "msg_GasTipCap ?msg \<le> cap" "b \<le> cap"
    "uint (msg_GasLimit ?msg) * cap + msg_Value ?msg \<le> balance (view ?s) (msg_From ?msg)"
    using a nb f(1) by (auto simp: admissible_def)
  have fees: "checkFees E ?msg = Inr None"
    using b f nb by (simp add: checkFees_def)
  obtain x s2 where g: "GetBalance (msg_From ?msg) s1 = (x, s2)"
    by fastforce
  have wf: "wf_state s1"
    using s1(2) state_ok_wf [OF ok] by (simp add: quiet_def)
  have "x = balance (view ?s) (msg_From ?msg)"
    using balance_GetBalance [OF wf, of "msg_From ?msg"] g s1(2) by (simp add: quiet_def)
  then have "buyGas (withState s1 st) = (None, boughtGas s2 (withState s1 st))"
    using g b(4) f(1) a by (simp add: buyGas_def Let_def SubGas_def admissible_def boughtGas_def not_less)
  moreover have "boughtGas s2 (withState s1 st) = boughtGas s2 st"
    by (simp add: withState_def boughtGas_def setDB_def Let_def)
  moreover have "quiet ?s s2"
    using quiet_trans [OF s1(2)] GetBalance_read(1) [OF wf, of "msg_From ?msg"] g by simp
  ultimately show thesis
    using that s1(1) fees by (simp add: preCheck_def)
qed

text \<open>An admissible message that can pay for its intrinsic gas is executed.\<close>

lemma TransitionDb_executes:
  fixes st :: StateTransition
  assumes ok: "state_ok (StateDB (st_zvm st))" and a: "admissible E (StateDB (st_zvm st)) (st_msg st) (st_gp st)"
    and nb: "\<not> NoBaseFee E" and f: "msg_GasFeeCap (st_msg st) = Some cap" "BitLen cap \<le> 256" "BitLen (msg_GasTipCap (st_msg st)) \<le> 256"
    and p: "msg_GasPrice (st_msg st) \<le> cap" and z: "gasRemaining st = 0"
    and i: "IntrinsicGas (msg_Data (st_msg st)) (msg_AccessList (st_msg st)) (msg_To (st_msg st) = None) = Inr gas"
      "gas \<le> msg_GasLimit (st_msg st)" "msg_To (st_msg st) \<noteq> None \<or> length (msg_Data (st_msg st)) \<le> MaxInitCodeSize"
  shows "\<exists>s s'. TransitionDb n E st = finishTransition n E
      (withState s' ((boughtGas s st)\<lparr>gasRemaining := msg_GasLimit (st_msg st) - gas\<rparr>)) \<and>
    quiet (StateDB (st_zvm st)) s \<and> quiet (StateDB (st_zvm (boughtGas s st))) s'"
proof -
  let ?s = "StateDB (st_zvm st)" and ?msg = "st_msg st"
  obtain s where s: "preCheck E st = Inr (None, boughtGas s st)" "quiet ?s s"
    using preCheck_admits [OF ok a nb f] .
  let ?t = "SubBalance (msg_From ?msg) (uint (msg_GasLimit ?msg) * msg_GasPrice ?msg) s"
  have ok1: "state_ok s"
    using moves_state_ok [OF moves_quiet [OF ok s(2)]] .
  have ok2: "state_ok ?t"
    using extends_state_ok [OF SubBalance_extends [OF ok1]] .
  obtain c s' where c: "CanTransfer ?t (msg_From ?msg) (msg_Value ?msg) = (c, s')"
    by fastforce
  have "balance (view ?t) (msg_From ?msg) = balance (view ?s) (msg_From ?msg) - uint (msg_GasLimit ?msg) * msg_GasPrice ?msg"
    using balance_SubBalance [OF ok1] s(2) by (simp add: quiet_def)
  moreover have "uint (msg_GasLimit ?msg) * msg_GasPrice ?msg \<le> uint (msg_GasLimit ?msg) * cap"
    using p by (simp add: mult_left_mono)
  moreover have "uint (msg_GasLimit ?msg) * cap + msg_Value ?msg \<le> balance (view ?s) (msg_From ?msg)"
    using a nb f(1) by (auto simp: admissible_def)
  ultimately have "c"
    using CanTransfer_iff [OF ok2 c] by simp
  have q: "quiet ?t s'"
    using CanTransfer_quiet [OF state_ok_wf [OF ok2] c] .
  define t where "t = (if 0 < msg_Value ?msg then s' else ?t)"
  have "quiet ?t t"
    using q by (simp add: t_def)
  moreover have "TransitionDb n E st = finishTransition n E
      (withState t ((boughtGas s st)\<lparr>gasRemaining := msg_GasLimit ?msg - gas\<rparr>))"
    using s(1) c \<open>c\<close> i z by (auto simp: TransitionDb_def checkedTransition_def Let_def t_def not_less)
  ultimately show ?thesis
    using s(2) by auto
qed

section \<open>Code and refund counter\<close>

definition code_of :: "state_view \<Rightarrow> address \<Rightarrow> bytes" where
  "code_of v a = (case live_view v a of None \<Rightarrow> [] | Some x \<Rightarrow> ov_code x)"

lemma code_GetCode: "wf_state s \<Longrightarrow> code_of (view s) a = fst (GetCode a s)"
  by (simp add: code_of_def GetCode_read(2))

lemma view_refund: "view s' = view s \<Longrightarrow> refund s' = refund s \<and> db s' = db s"
  by (simp add: view_def)

lemma createObject_plain:
  assumes ok: "state_ok s" and c: "createObject a s = ((ob, prev), s')"
  shows "refund s' = refund s" "so_code ob = []"
proof -
  obtain p s0 where g: "getDeletedStateObject a s = (p, s0)"
    by fastforce
  note q = getDeletedStateObject_quiet [OF g]
  have r: "refund s0 = refund s"
    using q(1) view_refund [of s0 s] by (simp add: quiet_def)
  have "wf_state s0"
    using q(1) state_ok_wf [OF ok] by (simp add: quiet_def)
  then have pa: "\<forall>x. p = Some x \<longrightarrow> so_address x = a"
    using q(3) by (auto simp: wf_state_def obj_ok_def)
  note eq = c [unfolded createObject_eq [OF g pa] Let_def]
  show "refund s' = refund s" "so_code ob = []"
    using eq r by (auto simp: setStateObject_def addEntry_def resetState_def newObject_def Let_def split: option.splits)
qed

lemma GetOrNew_plain:
  assumes ok: "state_ok s" and g: "GetOrNewStateObject a s = (ob, s1)"
  shows "refund s1 = refund s" "fst (so_Code ob s1) = code_of (view s) a"
proof -
  obtain r s0 where r: "getStateObject a s = (r, s0)"
    by fastforce
  note q = getStateObject_quiet(1) [OF r]
  have v: "view s0 = view s"
    using q by (simp add: quiet_def)
  have ok0: "state_ok s0"
    using extends_state_ok [OF extends_quiet [OF ok q]] .
  have "refund s1 = refund s \<and> fst (so_Code ob s1) = code_of (view s) a"
  proof (cases r)
    case (Some x)
    then have "ob = x" "s1 = s0"
      using g r by (simp_all add: GetOrNewStateObject_def)
    moreover obtain y where "live_view (view s) a = Some y"
      using getStateObject_view [OF r] Some by (cases "live_view (view s) a") auto
    ultimately show ?thesis
      using view_refund [OF v] GetOrNewStateObject_view(2) [OF ok g] by (auto simp: code_of_def ov_def)
  next
    case None
    obtain prev where c: "createObject a s0 = ((ob, prev), s1)"
      using g r None by (auto simp: GetOrNewStateObject_def split: prod.splits)
    have "live_view (view s) a = None"
      using getStateObject_view [OF r] None by auto
    moreover have "fst (so_Code ob s1) = []"
      using createObject_plain(2) [OF ok0 c] createObject_env(1,2) [OF ok0 c]
      by (simp add: so_Code_def NewEmptyStateAccount_def)
    ultimately show ?thesis
      using createObject_plain(1) [OF ok0 c] view_refund [OF v] by (simp add: code_of_def)
  qed
  then show "refund s1 = refund s" "fst (so_Code ob s1) = code_of (view s) a"
    by simp_all
qed

lemma so_Code_cong:
  "so_code ob' = so_code ob \<Longrightarrow> acct_CodeHash (so_data ob') = acct_CodeHash (so_data ob) \<Longrightarrow>
     so_address ob' = so_address ob \<Longrightarrow> db s' = db s \<Longrightarrow> fst (so_Code ob' s') = fst (so_Code ob s)"
  by (simp add: so_Code_def split: sum.split)

lemma plain_withObject:
  assumes ok: "state_ok s"
    and f: "\<And>ob s ob' s'. f ob s = (ob', s') \<Longrightarrow> so_address ob' = so_address ob \<and>
      so_deleted ob' = so_deleted ob \<and> view s' = view s \<and> so_code ob' = so_code ob \<and>
      acct_CodeHash (so_data ob') = acct_CodeHash (so_data ob)"
  shows "code_of (view (withObject a f s)) b = code_of (view s) b" "refund (withObject a f s) = refund s"
proof -
  have k: "f ob s = (ob', s') \<Longrightarrow> so_address ob' = so_address ob \<and> so_deleted ob' = so_deleted ob \<and> view s' = view s"
    for ob s ob' s'
    using f by blast
  obtain ob s1 ob' s2 where g: "GetOrNewStateObject a s = (ob, s1)" "f ob s1 = (ob', s2)"
    and v: "live_view (view (withObject a f s)) a = Some (ov s2 ob')"
    "\<And>b. b \<noteq> a \<Longrightarrow> live_view (view (withObject a f s)) b = live_view (view s) b"
    using withObject_view [OF ok, of f a, OF k] by metis
  note e = GetOrNew_plain [OF ok g(1)]
  have s2: "refund s2 = refund s1" "db s2 = db s1"
    using view_refund [of s2 s1] f [OF g(2)] by simp_all
  have "fst (so_Code ob' s2) = fst (so_Code ob s1)"
    by (rule so_Code_cong) (use f [OF g(2)] s2(2) in simp_all)
  then show "code_of (view (withObject a f s)) b = code_of (view s) b"
    using v e(2) by (cases "b = a") (simp_all add: code_of_def ov_def)
  show "refund (withObject a f s) = refund s"
    using g s2 e by (simp add: withObject_def setStateObject_def)
qed

lemma plain_writes:
  assumes ok: "state_ok s"
  shows "code_of (view (AddBalance a n s)) b = code_of (view s) b" "refund (AddBalance a n s) = refund s"
    "code_of (view (SubBalance a n s)) b = code_of (view s) b" "refund (SubBalance a n s) = refund s"
    "code_of (view (SetNonce a m s)) b = code_of (view s) b" "refund (SetNonce a m s) = refund s"
proof -
  have 1: "so_AddBalance n ob s = (ob', s') \<Longrightarrow> so_address ob' = so_address ob \<and> so_deleted ob' = so_deleted ob \<and>
      view s' = view s \<and> so_code ob' = so_code ob \<and> acct_CodeHash (so_data ob') = acct_CodeHash (so_data ob)" for ob s ob' s'
    by (auto simp: so_AddBalance_def so_SetBalance_def so_setBalance_def split: if_splits)
  have 2: "so_SubBalance n ob s = (ob', s') \<Longrightarrow> so_address ob' = so_address ob \<and> so_deleted ob' = so_deleted ob \<and>
      view s' = view s \<and> so_code ob' = so_code ob \<and> acct_CodeHash (so_data ob') = acct_CodeHash (so_data ob)" for ob s ob' s'
    by (auto simp: so_SubBalance_def so_SetBalance_def so_setBalance_def split: if_splits)
  have 3: "so_SetNonce m ob s = (ob', s') \<Longrightarrow> so_address ob' = so_address ob \<and> so_deleted ob' = so_deleted ob \<and>
      view s' = view s \<and> so_code ob' = so_code ob \<and> acct_CodeHash (so_data ob') = acct_CodeHash (so_data ob)" for ob s ob' s'
    by (auto simp: so_SetNonce_def so_setNonce_def)
  show "code_of (view (AddBalance a n s)) b = code_of (view s) b" "refund (AddBalance a n s) = refund s"
    unfolding AddBalance_def by (rule plain_withObject [OF ok 1]; assumption)+
  show "code_of (view (SubBalance a n s)) b = code_of (view s) b" "refund (SubBalance a n s) = refund s"
    unfolding SubBalance_def by (rule plain_withObject [OF ok 2]; assumption)+
  show "code_of (view (SetNonce a m s)) b = code_of (view s) b" "refund (SetNonce a m s) = refund s"
    unfolding SetNonce_def by (rule plain_withObject [OF ok 3]; assumption)+
qed

lemma plain_CreateAccount:
  assumes ok: "state_ok s" and n: "live_view (view s) a = None"
  shows "code_of (view (CreateAccount a s)) b = code_of (view s) b" "refund (CreateAccount a s) = refund s"
proof -
  obtain ob prev s1 where c: "createObject a s = ((ob, prev), s1)"
    by (metis prod.exhaust)
  note env = createObject_env [OF ok c]
  have s1: "CreateAccount a s = s1"
    using c env(4) [OF n] by (simp add: CreateAccount_def)
  have code: "ov_code (ov s1 ob) = []"
    using createObject_plain(2) [OF ok c] env(1,2) by (simp add: ov_def so_Code_def NewEmptyStateAccount_def)
  have "live_view (view s1) a = Some (ov s1 ob)"
    using env(2,3) by (simp add: live_view_def)
  moreover have "live_view (view s1) b = live_view (view s) b" if "b \<noteq> a"
    using createObject_other [OF ok c that] by (simp add: live_view_def)
  ultimately show "code_of (view (CreateAccount a s)) b = code_of (view s) b"
    using n code s1 by (cases "b = a") (simp_all add: code_of_def)
  show "refund (CreateAccount a s) = refund s"
    using createObject_plain(1) [OF ok c] s1 by simp
qed

section \<open>A call of an account without code\<close>

lemma plain_Transfer:
  assumes ok: "state_ok s"
  shows "code_of (view (Transfer s a b n)) c = code_of (view s) c" "refund (Transfer s a b n) = refund s"
    "balance (view (Transfer s a b n)) c = balance (view s) c - (if c = a then n else 0) + (if c = b then n else 0)"
    "state_ok (Transfer s a b n)"
proof -
  have ok1: "state_ok (SubBalance a n s)"
    using extends_state_ok [OF SubBalance_extends [OF ok]] .
  show "code_of (view (Transfer s a b n)) c = code_of (view s) c" "refund (Transfer s a b n) = refund s"
    "balance (view (Transfer s a b n)) c = balance (view s) c - (if c = a then n else 0) + (if c = b then n else 0)"
    "state_ok (Transfer s a b n)"
    using plain_writes(1,2) [OF ok1] plain_writes(3,4) [OF ok] balance_AddBalance [OF ok1] balance_SubBalance [OF ok]
      extends_state_ok [OF AddBalance_extends [OF ok1]] by (simp_all add: Transfer_def)
qed

lemma plain_Call:
  fixes z :: zvm
  assumes ok: "state_ok (StateDB z)" and d: "z_depth z \<le> int (unat CallCreateDepth)"
    and v: "val \<le> balance (view (StateDB z)) (ref_Address clr)"
    and pre: "precompile E a = None" and code: "code_of (view (StateDB z)) a = []"
  obtains s where "Call E run clr a input gas val z = Inr ([], gas, None, setDB s z)" "state_ok s"
    "refund s = refund (StateDB z)"
    "\<And>c. balance (view s) c = balance (view (StateDB z)) c - (if c = ref_Address clr then val else 0) + (if c = a then val else 0)"
proof -
  obtain s0 where s0: "(if val \<noteq> 0 then CanTransfer (StateDB z) (ref_Address clr) val else (True, StateDB z)) = (True, s0)"
    and q0: "quiet (StateDB z) s0"
    using CanTransfer_iff [OF ok, of "ref_Address clr" val] v CanTransfer_quiet [OF state_ok_wf [OF ok], of "ref_Address clr" val]
    by (cases "val = 0"; cases "CanTransfer (StateDB z) (ref_Address clr) val") auto
  obtain i s1 ex s2 where sn: "Snapshot s0 = (i, s1)" and ex: "Exist a s1 = (ex, s2)"
    by fastforce
  have ok1: "state_ok s1"
    using moves_state_ok [OF Snapshot_moves [OF moves_state_ok [OF moves_quiet [OF ok q0]] sn]] .
  have q2: "quiet s1 s2" and e: "ex \<longleftrightarrow> live_view (view s1) a \<noteq> None"
    using Exist_read [OF state_ok_wf [OF ok1], of a] ex by simp_all
  have v2: "view s2 = view (StateDB z)"
    using q0 q2 sn by (auto simp: quiet_def Snapshot_def)
  have ok2: "state_ok s2"
    using moves_state_ok [OF moves_quiet [OF ok1 q2]] .
  have r2: "refund s2 = refund (StateDB z)"
    using view_refund [OF v2] by simp
  define s3 where "s3 = (if \<not> ex then CreateAccount a s2 else s2)"
  have s3: "state_ok s3" "refund s3 = refund (StateDB z)" "\<And>c. code_of (view s3) c = code_of (view (StateDB z)) c"
    "\<And>c. balance (view s3) c = balance (view (StateDB z)) c"
    using ok2 r2 v2 e q2 plain_CreateAccount [OF ok2, of a] balance_CreateAccount [OF ok2]
      extends_state_ok [OF CreateAccount_extends [OF ok2]] by (auto simp: s3_def quiet_def)
  let ?t = "Transfer s3 (ref_Address clr) a val"
  note t = plain_Transfer [OF s3(1), of "ref_Address clr" a val]
  obtain c s4 where c: "GetCode a ?t = (c, s4)"
    by fastforce
  have q4: "quiet ?t s4" and "c = []"
    using GetCode_read(1) [OF state_ok_wf [OF t(4)], of a] code_GetCode [OF state_ok_wf [OF t(4)], of a] c t(1) s3(3) code
    by simp_all
  show thesis
  proof (cases "\<not> ex \<and> val = 0")
    case True
    have "Call E run clr a input gas val z = Inr ([], gas, None, setDB s2 z)"
      using True d s0 sn ex pre unfolding Call_def by (simp add: Let_def)
    then show thesis
      using that ok2 r2 v2 True by simp
  next
    case False
    then have "Call E run clr a input gas val z = Inr ([], gas, None, setDB s4 z)"
      using d s0 sn ex pre c \<open>c = []\<close> unfolding Call_def s3_def
      by (auto simp: Let_def executeCall_def finishCall_def)
    moreover have "view s4 = view ?t" "state_ok s4"
      using q4 moves_state_ok [OF moves_quiet [OF t(4) q4]] by (simp_all add: quiet_def)
    ultimately show thesis
      using that t(2,3) s3(2,4) view_refund [of s4 ?t] by simp
  qed
qed

section \<open>The transaction\<close>

lemma refundGas_none:
  assumes "refund (StateDB (st_zvm st)) = 0" "unat (st_gp st) + unat (gasRemaining st) < 2 ^ 64"
  shows "refundGas q st = Inr (withState (AddBalance (msg_From (st_msg st))
      (uint (gasRemaining st) * msg_GasPrice (st_msg st)) (StateDB (st_zvm st))) (st\<lparr>st_gp := st_gp st + gasRemaining st\<rparr>))"
proof -
  have "(if GetRefund (StateDB (st_zvm st)) < gasUsed st div q then GetRefund (StateDB (st_zvm st)) else gasUsed st div q) = 0"
    using assms(1) by (simp add: GetRefund_def word_gt_0)
  then show ?thesis
    using AddGas_ok(1) [OF assms(2)] by (simp add: refundGas_def Let_def withState_def)
qed

lemma plain_executeMessage:
  fixes st :: StateTransition
  assumes ok: "state_ok (StateDB (st_zvm st))" and d: "z_depth (st_zvm st) \<le> int (unat CallCreateDepth)"
    and v: "msg_Value (st_msg st) \<le> balance (view (StateDB (st_zvm st))) (msg_From (st_msg st))"
    and dest: "msg_To (st_msg st) = Some a" "precompile E a = None" "code_of (view (StateDB (st_zvm st))) a = []"
  shows "\<exists>s. executeMessage n E st = Inr ([], None, withState s st) \<and> state_ok s \<and>
    refund s = refund (StateDB (st_zvm st)) \<and>
    (\<forall>c. balance (view s) c = balance (view (StateDB (st_zvm st))) c
       - (if c = msg_From (st_msg st) then msg_Value (st_msg st) else 0) + (if c = a then msg_Value (st_msg st) else 0))"
proof -
  let ?f = "msg_From (st_msg st)"
  obtain m s1 where m: "GetNonce ?f (StateDB (st_zvm st)) = (m, s1)"
    by fastforce
  have q: "quiet (StateDB (st_zvm st)) s1"
    using GetNonce_read(1) [OF state_ok_wf [OF ok], of ?f] m by simp
  have ok1: "state_ok s1" and v1: "view s1 = view (StateDB (st_zvm st))"
    using moves_state_ok [OF moves_quiet [OF ok q]] q by (simp_all add: quiet_def)
  let ?z = "setDB (SetNonce ?f (m + 1) s1) (st_zvm st)"
  obtain s where "Call E (Run n E) (AccountRef ?f) a (msg_Data (st_msg st)) (gasRemaining st) (msg_Value (st_msg st)) ?z =
      Inr ([], gasRemaining st, None, setDB s ?z)" "state_ok s" "refund s = refund (StateDB ?z)"
    "\<And>c. balance (view s) c = balance (view (StateDB ?z)) c
       - (if c = ?f then msg_Value (st_msg st) else 0) + (if c = a then msg_Value (st_msg st) else 0)"
    using plain_Call [of ?z "msg_Value (st_msg st)" "AccountRef ?f" E a "Run n E" "msg_Data (st_msg st)" "gasRemaining st"]
      extends_state_ok [OF SetNonce_extends [OF ok1]] d v dest(2,3) v1 balance_SetNonce [OF ok1] plain_writes(5) [OF ok1]
    by auto
  moreover have "st\<lparr>gasRemaining := gasRemaining st, st_zvm := setDB s ?z\<rparr> = withState s st"
    by (simp add: withState_def setDB_def)
  ultimately show ?thesis
    using m dest(1) v1 balance_SetNonce [OF ok1] plain_writes(6) [OF ok1] view_refund [OF v1]
    by (intro exI [of _ s]) (simp add: executeMessage_def Let_def)
qed

lemma plain_accessL [simp]: "code_of (view (s\<lparr>accessL := al\<rparr>)) a = code_of (view s) a"
  by (simp add: code_of_def live_view_def view_fields)

lemma plain_finish:
  fixes st :: StateTransition
  assumes ok: "state_ok (StateDB (st_zvm st))" and d: "z_depth (st_zvm st) \<le> int (unat CallCreateDepth)"
    and v: "msg_Value (st_msg st) \<le> balance (view (StateDB (st_zvm st))) (msg_From (st_msg st))"
    and dest: "msg_To (st_msg st) = Some a" "precompile E a = None" "code_of (view (StateDB (st_zvm st))) a = []"
    and r: "refund (StateDB (st_zvm st)) = 0" "unat (st_gp st) + unat (gasRemaining st) < 2 ^ 64"
    and fee: "msg_GasFeeCap (st_msg st) = Some cap" "BaseFee (Context E) = Some b" "\<not> NoBaseFee E"
  shows "\<exists>result st'. finishTransition n E st = Inr (Inr result, st') \<and> res_Err result = None \<and> UsedGas result = gasUsed st \<and>
    state_ok (StateDB (st_zvm st')) \<and> (\<forall>c. balance (view (StateDB (st_zvm st'))) c = balance (view (StateDB (st_zvm st))) c
      - (if c = msg_From (st_msg st) then msg_Value (st_msg st) else 0) + (if c = a then msg_Value (st_msg st) else 0)
      + (if c = msg_From (st_msg st) then uint (gasRemaining st) * msg_GasPrice (st_msg st) else 0)
      + (if c = Coinbase (Context E) then uint (gasUsed st) * min (msg_GasTipCap (st_msg st)) (cap - b) else 0))"
proof -
  let ?msg = "st_msg st"
  obtain al where p: "Prepare (msg_From ?msg) (Coinbase (Context E)) (msg_To ?msg) ActivePrecompiles
      (msg_AccessList ?msg) (StateDB (st_zvm st)) = Inr ((StateDB (st_zvm st))\<lparr>accessL := al\<rparr>)"
    using Prepare_ok [OF state_ok_wf [OF ok]] by blast
  let ?s1 = "(StateDB (st_zvm st))\<lparr>accessL := al\<rparr>"
  have ok1: "state_ok ?s1"
    using Prepare_shift [OF ok p] by (simp add: ledger_shift_def)
  obtain s where s: "executeMessage n E (withState ?s1 st) = Inr ([], None, withState s (withState ?s1 st))" "state_ok s"
    "refund s = 0" "\<And>c. balance (view s) c = balance (view (StateDB (st_zvm st))) c
       - (if c = msg_From ?msg then msg_Value ?msg else 0) + (if c = a then msg_Value ?msg else 0)"
    using plain_executeMessage [of "withState ?s1 st", unfolded withState_simps, OF ok1 d _ dest(1,2), of n] v dest(3) r(1)
    by auto
  let ?s2 = "AddBalance (msg_From ?msg) (uint (gasRemaining st) * msg_GasPrice ?msg) s"
  have ok2: "state_ok ?s2"
    using extends_state_ok [OF AddBalance_extends [OF s(2)]] .
  let ?s3 = "AddBalance (Coinbase (Context E)) (uint (gasUsed st) * min (msg_GasTipCap ?msg) (cap - b)) ?s2"
  have w: "withState s (withState ?s1 st) = withState s st"
    by (simp add: withState_def setDB_def)
  have "refundGas RefundQuotientEIP3529 (withState s st) =
      Inr (withState ?s2 (st\<lparr>st_gp := st_gp st + gasRemaining st\<rparr>))"
    using refundGas_none [of "withState s st"] s(3) r(2) by (simp add: withState_def setDB_def)
  then have "finishTransition n E st = Inr (Inr \<lparr>UsedGas = gasUsed st, res_Err = None, ReturnData = []\<rparr>,
      withState ?s3 (st\<lparr>st_gp := st_gp st + gasRemaining st\<rparr>))"
    using p s(1) fee by (simp add: finishTransition_def w payTip_def Let_def gasUsed_def) (simp add: withState_def setDB_def)
  then show ?thesis
    using s(4) balance_AddBalance [OF s(2)] balance_AddBalance [OF ok2] extends_state_ok [OF AddBalance_extends [OF ok2]]
    by simp
qed

text \<open>The state when the gas has been bought.\<close>

lemma bought_state:
  fixes st :: StateTransition
  assumes ok: "state_ok (StateDB (st_zvm st))" and q: "quiet (StateDB (st_zvm st)) s"
    "quiet (StateDB (st_zvm (boughtGas s st))) s'"
  shows "state_ok s'"
    "balance (view s') c = balance (view (StateDB (st_zvm st))) c
       - (if c = msg_From (st_msg st) then uint (msg_GasLimit (st_msg st)) * msg_GasPrice (st_msg st) else 0)"
    "code_of (view s') c = code_of (view (StateDB (st_zvm st))) c" "refund s' = refund (StateDB (st_zvm st))"
proof -
  let ?t = "SubBalance (msg_From (st_msg st)) (uint (msg_GasLimit (st_msg st)) * msg_GasPrice (st_msg st)) s"
  have ok1: "state_ok s" and v1: "view s = view (StateDB (st_zvm st))"
    using moves_state_ok [OF moves_quiet [OF ok q(1)]] q(1) by (simp_all add: quiet_def)
  show "state_ok s'"
    using moves_state_ok [OF moves_quiet [OF extends_state_ok [OF SubBalance_extends [OF ok1]]]] q(2) by auto
  have v2: "view s' = view ?t"
    using q(2) by (simp add: quiet_def)
  show "balance (view s') c = balance (view (StateDB (st_zvm st))) c
       - (if c = msg_From (st_msg st) then uint (msg_GasLimit (st_msg st)) * msg_GasPrice (st_msg st) else 0)"
    "code_of (view s') c = code_of (view (StateDB (st_zvm st))) c" "refund s' = refund (StateDB (st_zvm st))"
    using v1 v2 balance_SubBalance [OF ok1] plain_writes(3,4) [OF ok1] view_refund [OF v1] view_refund [OF v2]
    by simp_all
qed

lemma payment_applies:
  assumes "state_ok (StateDB z)" "z_depth z = 0" "refund (StateDB z) = 0" "\<not> NoBaseFee E"
    and "admissible E (StateDB z) msg gp" "msg_GasFeeCap msg = Some cap" "BaseFee (Context E) = Some b"
    and "BitLen cap \<le> 256" "BitLen (msg_GasTipCap msg) \<le> 256" "msg_GasPrice msg = min (msg_GasTipCap msg + b) cap"
    and "IntrinsicGas (msg_Data msg) (msg_AccessList msg) False = Inr gas" "gas \<le> msg_GasLimit msg"
    and "msg_To msg = Some a" "precompile E a = None" "fst (GetCode a (StateDB z)) = []"
  shows "\<exists>result st'. ApplyMessage n E z msg gp = Inr (Inr result, st') \<and> res_Err result = None \<and> UsedGas result = gas \<and>
    (\<forall>c. fst (GetBalance c (StateDB (st_zvm st'))) = fst (GetBalance c (StateDB z))
      - (if c = msg_From msg then msg_Value msg + uint gas * msg_GasPrice msg else 0)
      + (if c = a then msg_Value msg else 0)
      + (if c = Coinbase (Context E) then uint gas * min (msg_GasTipCap msg) (cap - b) else 0))"
proof -
  define st where "st = NewStateTransition z msg gp"
  have st: "st_msg st = msg" "st_zvm st = z" "gasRemaining st = 0" "st_gp st = gp"
    by (simp_all add: NewStateTransition_def st_def)
  have pc: "msg_GasPrice msg \<le> cap"
    using assms(10) by simp
  obtain s s' where x: "TransitionDb n E st = finishTransition n E
      (withState s' ((boughtGas s st)\<lparr>gasRemaining := msg_GasLimit msg - gas\<rparr>))"
    "quiet (StateDB z) s" "quiet (StateDB (st_zvm (boughtGas s st))) s'"
    using TransitionDb_executes [of st, unfolded st, OF assms(1,5,4,6,8,9) pc refl, of gas n] assms(11-13) unfolding st
    by auto
  define st2 where "st2 = withState s' ((boughtGas s st)\<lparr>gasRemaining := msg_GasLimit msg - gas\<rparr>)"
  have f: "st_msg st2 = msg" "StateDB (st_zvm st2) = s'" "gasRemaining st2 = msg_GasLimit msg - gas"
    "st_gp st2 = gp - msg_GasLimit msg" "z_depth (st_zvm st2) = 0" "gasUsed st2 = gas"
    using st assms(2) by (simp_all add: st2_def gasUsed_def)
  note bs = bought_state [of st, unfolded st, OF assms(1) x(2,3)]
  have b2: "balance (view s') c = balance (view (StateDB z)) c - (if c = msg_From msg then uint (msg_GasLimit msg) * msg_GasPrice msg else 0)"
    for c
    by (rule bs(2))
  have lim: "msg_GasLimit msg \<le> gp" "uint (msg_GasLimit msg) * cap + msg_Value msg \<le> balance (view (StateDB z)) (msg_From msg)"
    using assms(4-6) by (auto simp: admissible_def)
  have "uint (msg_GasLimit msg) * msg_GasPrice msg \<le> uint (msg_GasLimit msg) * cap"
    using pc by (simp add: mult_left_mono)
  then have v: "msg_Value msg \<le> balance (view s') (msg_From msg)"
    using lim(2) b2 by simp
  have c: "code_of (view s') a = []"
    using bs(3) assms(15) code_GetCode [OF state_ok_wf [OF assms(1)], of a] by simp
  have g: "unat (gp - msg_GasLimit msg) + unat (msg_GasLimit msg - gas) < 2 ^ 64"
    using lim(1) assms(12) unat_u64_less [of gp] by (simp add: unat_sub word_le_nat_alt)
  have "(0 :: int) \<le> int (unat CallCreateDepth)"
    by simp
  note fin = plain_finish [of st2, unfolded f, OF bs(1) this v assms(13,14) c bs(4) [unfolded assms(3)] g assms(6,7,4), of n]
  have "uint (msg_GasLimit msg - gas) = uint (msg_GasLimit msg) - uint gas"
    using assms(12) by (simp add: uint_sub_if' word_le_def)
  then have sum: "x - l * p - w + (uint (msg_GasLimit msg - gas)) * p = x - (w + uint gas * p)"
    if "l = uint (msg_GasLimit msg)" for x l w p
    using that by (simp add: left_diff_distrib)
  obtain result st' where r: "finishTransition n E st2 = Inr (Inr result, st')" "res_Err result = None" "UsedGas result = gas"
    "state_ok (StateDB (st_zvm st'))"
    "\<And>c. balance (view (StateDB (st_zvm st'))) c = balance (view s') c
      - (if c = msg_From msg then msg_Value msg else 0) + (if c = a then msg_Value msg else 0)
      + (if c = msg_From msg then uint (msg_GasLimit msg - gas) * msg_GasPrice msg else 0)
      + (if c = Coinbase (Context E) then uint gas * min (msg_GasTipCap msg) (cap - b) else 0)"
    using fin by blast
  have "ApplyMessage n E z msg gp = Inr (Inr result, st')"
    using x(1) r(1) by (simp add: ApplyMessage_def st_def st2_def)
  moreover have "fst (GetBalance c (StateDB (st_zvm st'))) = fst (GetBalance c (StateDB z))
      - (if c = msg_From msg then msg_Value msg + uint gas * msg_GasPrice msg else 0)
      + (if c = a then msg_Value msg else 0)
      + (if c = Coinbase (Context E) then uint gas * min (msg_GasTipCap msg) (cap - b) else 0)" for c
    using r(5) [of c] b2 [of c] sum [OF refl, of "balance (view (StateDB z)) c" "msg_GasPrice msg" "msg_Value msg"]
      balance_GetBalance [OF state_ok_wf [OF r(4)], of c] balance_GetBalance [OF state_ok_wf [OF assms(1)], of c]
    by (auto split: if_splits)
  ultimately show ?thesis
    using r(2,3) by blast
qed

end
