(* ===== verification/Transition_Results.thy ===== *)
theory Transition_Results
  imports Payments
begin

text \<open>
  What the application of a message guarantees: the ledger of a transaction, the protection against
  replay, the cost of a failed call, the effect of a rejected message, termination, and the exact
  intrinsic cost.
\<close>

section \<open>A message\<close>

text \<open>A world in which every account has a balance of one million, and a transfer of five from address 1 to
  the copy contract at address 4.\<close>

definition rich_state :: statedb where
  "rich_state = New 0 sample_db (\<lambda>_. Inr (Some \<lparr>acct_Nonce = 0, acct_Balance = 1000000, acct_Root = 0,
     acct_CodeHash = replicate 32 0\<rparr>)) None"

definition rich_zvm :: zvm where
  "rich_zvm = \<lparr>StateDB = rich_state, z_depth = 0, callGasTemp = 0, readOnly = False, returnData = [],
      z_jumpdests = Map.empty, aborts = (\<lambda>_. False)\<rparr>"

definition copy_message :: "uint64 \<Rightarrow> Message" where
  "copy_message limit = \<lparr>msg_To = Some 4, msg_From = 1, msg_Nonce = 0, msg_Value = 5, msg_GasLimit = limit,
     msg_GasPrice = 9, msg_GasFeeCap = Some 10, msg_GasTipCap = 2, msg_Data = [], msg_AccessList = [],
     SkipAccountChecks = False\<rparr>"

lemma rich_ok: "state_ok rich_state"
  using New_ok unfolding rich_state_def by (auto simp: env_ok_def readAccount_def New_def)

lemma rich_machine:
  "state_ok (StateDB rich_zvm)" "\<not> readOnly rich_zvm" "z_depth rich_zvm = 0" "StateDB rich_zvm = rich_state"
  using rich_ok by (simp_all add: rich_zvm_def)

lemma rich_env:
  "precompile sample_env = PrecompiledContractsBerlin sample_crypto" "\<not> NoBaseFee sample_env"
  "BaseFee (Context sample_env) = Some 7"
  by (simp_all add: sample_env_def)

lemma rich_account:
  "balance (view rich_state) a = 1000000" "nonce_of (view rich_state) a = 0" "fst (GetCodeHash a rich_state) = 0"
  unfolding balance_GetBalance [OF state_ok_wf [OF rich_ok]] nonce_GetNonce [OF state_ok_wf [OF rich_ok]]
  by (simp_all add: GetBalance_def GetNonce_def GetCodeHash_def getStateObject_def getDeletedStateObject_def rich_state_def
      New_def readAccount_def newObject_def Let_def BytesToHash_def)

text \<open>A call of the copy contract without input, on any state.\<close>

lemma copy_call:
  fixes z :: zvm
  assumes ok: "state_ok (StateDB z)" and d: "z_depth z \<le> 1024" and v: "val \<le> balance (view (StateDB z)) (ref_Address clr)"
    and pre: "precompile E 4 = Some \<lparr>RequiredGas = dataCopy_RequiredGas, pre_Run = dataCopy_Run\<rparr>"
    and ro: "\<not> readOnly z"
  shows "\<exists>z'. Call E run clr 4 [] gas val z =
     Inr ([], if gas < 15 then 0 else gas - 15, if gas < 15 then Some ErrOutOfGas else None, z')"
proof -
  obtain can s0 where s0: "CanTransfer (StateDB z) (ref_Address clr) val = (can, s0)"
    by fastforce
  have can
    using CanTransfer_iff [OF ok s0] v by simp
  obtain s0' where s0': "(if val \<noteq> 0 then CanTransfer (StateDB z) (ref_Address clr) val else (True, StateDB z)) = (True, s0')"
    using s0 \<open>can\<close> by (cases "val = 0") auto
  have "quiet (StateDB z) s0'"
    using s0' CanTransfer_quiet [OF state_ok_wf [OF ok]] by (auto split: if_splits)
  then have ok0: "state_ok s0'"
    using moves_state_ok [OF moves_quiet [OF ok]] by blast
  obtain i s1 ex s2 where sn: "Snapshot s0' = (i, s1)" and ex: "Exist 4 s1 = (ex, s2)"
    by fastforce
  define s3 where "s3 = Transfer (if \<not> ex then CreateAccount 4 s2 else s2) (ref_Address clr) 4 val"
  note e1 = moves_refl [OF moves_state_ok [OF Snapshot_moves [OF ok0 sn]], of False]
  have "\<not> ex \<Longrightarrow> nonce_of (view s2) 4 = 0"
    using Exist_read [OF state_ok_wf [OF moves_state_ok [OF e1]], of 4] ex by (auto simp: quiet_def nonce_of_def)
  then have "moves False s1 s3"
    using read_step(1) [OF e1 ex] by (auto simp: s3_def intro!: state_step)
  then obtain s4 where s4: "RevertToSnapshot i s3 = Inr s4"
    using revert_moves [OF ok0 sn moves_extends] by blast
  have "Call E run clr 4 [] gas val z = executeCall E run i clr 4 [] gas val (setDB s3 z)"
    using d s0' sn ex pre unfolding Call_def s3_def by (simp add: Let_def params)
  then show ?thesis
    using s4 by (simp add: executeCall_def pre RunPrecompiledContract_def dataCopy_RequiredGas_def dataCopy_Run_def
        params finishCall_def withoutGas_def)
qed

text \<open>A payment of five from address 1 to address 20.\<close>

definition payment :: "uint64 \<Rightarrow> Message" where
  "payment limit = (copy_message limit)\<lparr>msg_To := Some 20\<rparr>"

lemma message_fields:
  "msg_From (copy_message l) = 1" "msg_Nonce (copy_message l) = 0" "msg_Value (copy_message l) = 5"
  "msg_GasLimit (copy_message l) = l" "msg_GasPrice (copy_message l) = 9" "msg_GasFeeCap (copy_message l) = Some 10"
  "msg_GasTipCap (copy_message l) = 2" "msg_Data (copy_message l) = []" "msg_AccessList (copy_message l) = []"
  "\<not> SkipAccountChecks (copy_message l)" "msg_To (copy_message l) = Some 4"
  by (simp_all add: copy_message_def)

lemma intrinsic_empty: "IntrinsicGas [] [] False = Inr 21000"
  by (simp add: IntrinsicGas_def dataGas_def Let_def params)

lemma small_bits: "BitLen 10 \<le> 256" "BitLen 2 \<le> 256"
  by code_simp+

lemma rich_admits:
  assumes "l \<le> gp" "uint l \<le> 50000"
  shows "admissible sample_env (StateDB rich_zvm) (copy_message l) gp" "admissible sample_env (StateDB rich_zvm) (payment l) gp"
  using assms rich_account by (simp_all add: admissible_def payment_def message_fields rich_machine(4) rich_env)

lemma rich_code: "fst (GetCode 20 (StateDB rich_zvm)) = []" "precompile sample_env 20 = None" "refund (StateDB rich_zvm) = 0"
  by (simp_all add: rich_machine(4) sample_env_def PrecompiledContractsBerlin_def)
    (simp_all add: GetCode_def getStateObject_def getDeletedStateObject_def rich_state_def New_def readAccount_def newObject_def
      Let_def so_Code_def EmptyCodeHash_def sample_db_def HashBytes_def)

lemma payment_sample:
  "\<exists>result st'. ApplyMessage n sample_env rich_zvm (payment 21100) 30000 = Inr (Inr result, st') \<and> UsedGas result = 21000"
  using payment_applies [OF rich_machine(1,3) rich_code(3) rich_env(2) rich_admits(2), of 21100 30000 10 7 21000 20 n]
    rich_env(3) rich_code(1,2) small_bits intrinsic_empty
  by (auto simp: payment_def message_fields)

section \<open>Properties\<close>

text \<open>C3: A payment to an account without code always goes through. When the sender's nonce matches, the
  fees are in order and the balance covers value and gas, the transaction succeeds, uses exactly the
  intrinsic gas, and leaves exactly these balances: the sender has paid the value and the gas at the
  effective price, the recipient has got the value, and the coinbase the tip.\<close>


theorem plain_payment:
  assumes "state_ok (StateDB z)" "z_depth z = 0" "refund (StateDB z) = 0" "\<not> NoBaseFee E"
    and "admissible E (StateDB z) msg gp" "msg_GasFeeCap msg = Some cap" "BaseFee (Context E) = Some b"
    and "BitLen cap \<le> 256" "BitLen (msg_GasTipCap msg) \<le> 256" "msg_GasPrice msg = min (msg_GasTipCap msg + b) cap"
    and "IntrinsicGas (msg_Data msg) (msg_AccessList msg) False = Inr gas" "gas \<le> msg_GasLimit msg"
    and "msg_To msg = Some a" "precompile E a = None" "fst (GetCode a (StateDB z)) = []"
  shows "\<exists>result st'. ApplyMessage n E z msg gp = Inr (Inr result, st') \<and> res_Err result = None \<and> UsedGas result = gas \<and>
    (\<forall>c. fst (GetBalance c (StateDB (st_zvm st'))) = fst (GetBalance c (StateDB z))
      - (if c = msg_From msg then msg_Value msg + uint gas * msg_GasPrice msg else 0)
      + (if c = a then msg_Value msg else 0)
      + (if c = Coinbase (Context E) then uint gas * min (msg_GasTipCap msg) (cap - b) else 0))"
  using payment_applies [OF assms] .

theorem plain_payment_witness:
  "\<exists>result st'. ApplyMessage 1 sample_env rich_zvm (payment 21100) 30000 = Inr (Inr result, st') \<and>
     UsedGas result = 21000 \<and> fst (GetBalance 20 (StateDB (st_zvm st'))) = 1000005"
proof -
  have "fst (GetBalance 20 (StateDB rich_zvm)) = 1000000"
    using rich_account(1) [of 20] balance_GetBalance [OF state_ok_wf [OF rich_ok], of 20] by (simp add: rich_machine(4))
  moreover have "Coinbase (Context sample_env) = 9"
    by (simp add: sample_env_def)
  ultimately show ?thesis
    using plain_payment [OF rich_machine(1,3) rich_code(3) rich_env(2) rich_admits(2), of 21100 30000 10 7 21000 20 1]
      rich_env(3) rich_code(1,2) small_bits intrinsic_empty
    by (auto simp: payment_def message_fields)
qed

text \<open>C1: A transaction burns the base fee of the gas it uses and nothing else: the sum of all balances
  falls by exactly the gas used times the base fee. The gas it does not use goes back to the pool of the
  block, and the gas it is charged for lies between four fifths of the intrinsic cost and the limit.\<close>

theorem transaction_accounts:
  assumes "state_ok (StateDB z)" "precompile E = PrecompiledContractsBerlin L" "\<not> readOnly z" "z_depth z = 0"
    and "\<not> NoBaseFee E" "BaseFee (Context E) = Some b" "\<not> SkipAccountChecks msg" "msg_GasFeeCap msg = Some cap"
    and "msg_GasPrice msg = min (msg_GasTipCap msg + b) cap"
    and "ApplyMessage n E z msg gp = Inr (Inr result, st')"
  shows "total_supply (StateDB (st_zvm st')) = total_supply (StateDB z) - uint (UsedGas result) * b \<and>
    unat (st_gp st') + unat (UsedGas result) = unat gp \<and> UsedGas result \<le> msg_GasLimit msg \<and>
    (\<exists>gas. IntrinsicGas (msg_Data msg) (msg_AccessList msg) (msg_To msg = None) = Inr gas \<and>
       4 * unat gas \<le> 5 * unat (UsedGas result))"
  using ApplyMessage_result(1-4) [OF assms] by (simp add: ledger_shift_def)

theorem transaction_accounts_witness:
  "\<exists>result st'. ApplyMessage 1 sample_env rich_zvm (payment 21100) 30000 = Inr (Inr result, st') \<and>
     total_supply (StateDB (st_zvm st')) = total_supply (StateDB rich_zvm) - 21000 * 7 \<and> unat (st_gp st') = 9000"
proof -
  obtain result st' where r: "ApplyMessage 1 sample_env rich_zvm (payment 21100) 30000 = Inr (Inr result, st')"
    "UsedGas result = 21000"
    using payment_sample by blast
  have "\<not> SkipAccountChecks (payment 21100)" "msg_GasFeeCap (payment 21100) = Some 10"
    "msg_GasPrice (payment 21100) = min (msg_GasTipCap (payment 21100) + 7) 10"
    by (simp_all add: payment_def message_fields)
  then show ?thesis
    using transaction_accounts [OF rich_machine(1) rich_env(1) rich_machine(2,3) rich_env(2,3) _ _ _ r(1)] r by auto
qed

text \<open>C2: A transaction cannot be replayed: applied to the state that it has left, on whatever block, it is
  rejected because its nonce is too low.\<close>

theorem replay_rejected:
  assumes "state_ok (StateDB z)" "precompile E = PrecompiledContractsBerlin L" "\<not> readOnly z" "z_depth z = 0"
    and "\<not> NoBaseFee E" "BaseFee (Context E) = Some b" "\<not> SkipAccountChecks msg" "msg_GasFeeCap msg = Some cap"
    and "msg_GasPrice msg = min (msg_GasTipCap msg + b) cap"
    and "ApplyMessage n E z msg gp = Inr (Inr result, st')"
  shows "\<exists>st''. ApplyMessage n' E' (st_zvm st') msg gp' = Inr (Inl CoreNonceTooLow, st'')"
proof -
  let ?s = "StateDB (st_zvm st')"
  note r = ApplyMessage_result [OF assms]
  obtain m s where m: "GetNonce (msg_From msg) ?s = (m, s)"
    by fastforce
  have "msg_Nonce msg < m"
    using r(6) nonce_GetNonce [OF state_ok_wf [OF ledger_shift_state_ok [OF r(1)]], of "msg_From msg"] m by simp
  then have "checkSender msg ?s = (Some CoreNonceTooLow, s)"
    using m assms(7) by (simp add: checkSender_def)
  then show ?thesis
    by (simp add: ApplyMessage_def TransitionDb_def preCheck_def NewStateTransition_def)
qed

theorem replay_rejected_witness:
  "\<exists>result st' st''. ApplyMessage 1 sample_env rich_zvm (payment 21100) 30000 = Inr (Inr result, st') \<and>
     ApplyMessage 1 sample_env (st_zvm st') (payment 21100) 30000 = Inr (Inl CoreNonceTooLow, st'')"
proof -
  obtain result st' where r: "ApplyMessage 1 sample_env rich_zvm (payment 21100) 30000 = Inr (Inr result, st')"
    using payment_sample by blast
  have "\<not> SkipAccountChecks (payment 21100)" "msg_GasFeeCap (payment 21100) = Some 10"
    "msg_GasPrice (payment 21100) = min (msg_GasTipCap (payment 21100) + 7) 10"
    by (simp_all add: payment_def message_fields)
  then show ?thesis
    using replay_rejected [OF rich_machine(1) rich_env(1) rich_machine(2,3) rich_env(2,3) _ _ _ r] r by blast
qed

text \<open>C16: Every transaction ends: with more interpreter iterations allowed than its gas limit, its
  application never runs out of them, and allowing more does not change the outcome.\<close>

theorem transaction_terminates:
  assumes "state_ok (StateDB z)" "precompile E = PrecompiledContractsBerlin L" "\<not> readOnly z"
    and "\<not> SkipAccountChecks msg" "unat (msg_GasLimit msg) < n" "n \<le> m"
  shows "ApplyMessage n E z msg gp \<noteq> Inl OutOfFuel \<and> ApplyMessage m E z msg gp = ApplyMessage n E z msg gp"
proof -
  have "ApplyMessage n E z msg gp \<noteq> Inl OutOfFuel"
    unfolding ApplyMessage_def using assms
    by (intro TransitionDb_returns [OF _ assms(2)]) (simp_all add: NewStateTransition_def)
  then show ?thesis
    using TransitionDb_below [OF assms(6), of E "NewStateTransition z msg gp"] by (auto simp: ApplyMessage_def below_def)
qed

theorem transaction_terminates_witness:
  "ApplyMessage 21101 sample_env rich_zvm (copy_message 21100) 30000 \<noteq> Inl OutOfFuel"
  using transaction_terminates [OF rich_machine(1) rich_env(1) rich_machine(2), of "copy_message 21100" 21101 21101 30000]
  by (simp add: message_fields)

text \<open>C15: A rejected message. When a check before the purchase of gas fails, neither the world state nor the
  gas pool changes. The errors that are found later leave the price of the whole gas limit charged and the
  limit taken out of the pool; the caller has to discard state and pool.\<close>

theorem rejected_message:
  assumes "state_ok (StateDB z)" "ApplyMessage n E z msg gp = Inr (Inl e, st')"
    and "precompile E = PrecompiledContractsBerlin L" "\<not> readOnly z" "z_depth z = 0" "\<not> NoBaseFee E"
    and "\<not> SkipAccountChecks msg" "msg_GasFeeCap msg = Some cap" "msg_GasPrice msg \<le> cap"
  shows "(e \<in> precheck_errors \<and> view (StateDB (st_zvm st')) = view (StateDB z) \<and> st_gp st' = gp) \<or>
    (e \<in> late_errors \<and> st_gp st' = gp - msg_GasLimit msg \<and>
     (\<forall>a. fst (GetBalance a (StateDB (st_zvm st'))) = fst (GetBalance a (StateDB z))
        - (if a = msg_From msg then uint (msg_GasLimit msg) * msg_GasPrice msg else 0)))"
proof -
  define st where "st = NewStateTransition z msg gp"
  have st: "st_msg st = msg" "st_zvm st = z" "gasRemaining st = 0" "st_gp st = gp"
    by (simp_all add: NewStateTransition_def st_def)
  have tr: "TransitionDb n E st = Inr (Inl e, st')"
    using assms(2) by (simp add: ApplyMessage_def st_def)
  have ok: "state_ok (StateDB (st_zvm st))"
    using assms(1) st by simp
  show ?thesis
    using ok tr
  proof (cases rule: TransitionDb_cases)
    case (rejected e s)
    then show ?thesis
      using st by (simp add: quiet_def)
  next
    case (unpaid e s s' g)
    note bs = bought_state [OF ok unpaid(3,4), unfolded st]
    have "StateDB (st_zvm st') = s'" "st_gp st' = gp - msg_GasLimit msg"
      using unpaid(5) st by simp_all
    then show ?thesis
      using unpaid(1,2) bs(2) balance_GetBalance [OF state_ok_wf [OF bs(1)]] balance_GetBalance [OF state_ok_wf [OF assms(1)]]
      by simp
  next
    case (executed s s' gas)
    let ?st = "withState s' ((boughtGas s st)\<lparr>gasRemaining := gasRemaining st + msg_GasLimit (st_msg st) - gas\<rparr>)"
    have "can_create (AccountRef (msg_From msg)) (msg_Value msg) (st_zvm ?st)"
      using admissible_can_create [OF ok executed(1,5,2)] assms(5-9) st by simp
    moreover have "msg_GasLimit msg \<le> gp" "gas \<le> msg_GasLimit msg"
      using executed(2,4) st by (simp_all add: admissible_def)
    ultimately have "\<exists>result. Inl e = (Inr result :: core_error + ExecutionResult)"
      using finishTransition_result [OF _ assms(3) _ assms(6) executed(6)] bought_state(1) [OF ok executed(1,5)] assms(4) st
        unat_u64_less [of gp]
      by (simp add: word_le_nat_alt unat_sub)
    then show ?thesis
      by simp
  qed
qed

text \<open>The limit is below the intrinsic cost.\<close>

theorem rejected_message_witness:
  "\<exists>st'. ApplyMessage 1 sample_env rich_zvm (payment 100) 30000 = Inr (Inl CoreIntrinsicGas, st') \<and> st_gp st' = 29900"
proof -
  let ?st = "NewStateTransition rich_zvm (payment 100) 30000"
  obtain s where "preCheck sample_env ?st = Inr (None, boughtGas s ?st)"
    using preCheck_admits [of ?st sample_env 10] rich_machine(1) rich_admits(2) [of 100 30000] rich_env(2) small_bits
    by (auto simp: NewStateTransition_def payment_def message_fields)
  then have "ApplyMessage 1 sample_env rich_zvm (payment 100) 30000 = Inr (Inl CoreIntrinsicGas, boughtGas s ?st)"
    using intrinsic_empty by (simp add: ApplyMessage_def TransitionDb_def checkedTransition_def Let_def)
      (simp add: NewStateTransition_def payment_def message_fields)
  with rejected_message [OF rich_machine(1) this rich_env(1) rich_machine(2,3) rich_env(2), of 10] show ?thesis
    by (auto simp: precheck_errors_def payment_def message_fields)
qed

text \<open>The end of a transaction whose call has failed.\<close>

lemma failed_finish:
  fixes st :: StateTransition
  assumes ok: "state_ok (StateDB (st_zvm st))" and pre: "precompile E = PrecompiledContractsBerlin L"
    and ro: "\<not> readOnly (st_zvm st)" and nb: "\<not> NoBaseFee E"
    and x: "finishTransition n E st = Inr (Inr result, st')" "res_Err result = Some e" "msg_To (st_msg st) = Some d"
    and c: "\<not> nonce_of (view (StateDB (st_zvm st))) (msg_From (st_msg st)) + 1
      < nonce_of (view (StateDB (st_zvm st))) (msg_From (st_msg st))"
    and g: "gasRemaining st \<le> initialGas st" "unat (st_gp st) + unat (initialGas st) < 2 ^ 64"
    and fee: "msg_GasFeeCap (st_msg st) = Some cap" "BaseFee (Context E) = Some b"
  shows "\<exists>r. r \<le> initialGas st \<and> UsedGas result = initialGas st - r \<and> (\<forall>a.
    balance (view (StateDB (st_zvm st'))) a = balance (view (StateDB (st_zvm st))) a
      + (if a = msg_From (st_msg st) then uint r * msg_GasPrice (st_msg st) else 0)
      + (if a = Coinbase (Context E) then uint (UsedGas result) * min (msg_GasTipCap (st_msg st)) (cap - b) else 0) \<and>
    nonce_of (view (StateDB (st_zvm st'))) a =
      nonce_of (view (StateDB (st_zvm st))) a + (if a = msg_From (st_msg st) then 1 else 0))"
proof -
  let ?a = "msg_From (st_msg st)"
  obtain s1 ret st2 st3 where
    p: "Prepare ?a (Coinbase (Context E)) (msg_To (st_msg st)) ActivePrecompiles
      (msg_AccessList (st_msg st)) (StateDB (st_zvm st)) = Inr s1"
    and e: "executeMessage n E (withState s1 st) = Inr (ret, Some e, st2)"
    and f: "refundGas RefundQuotientEIP3529 st2 = Inr st3" and t: "payTip E st3 = Inr st'"
    and res: "UsedGas result = gasUsed st'"
    using x(1,2) by (auto simp: finishTransition_def)
  note p1 = Prepare_shift [OF ok p]
  have "state_ok (StateDB (st_zvm (withState s1 st)))"
    using p1 by (simp add: ledger_shift_def)
  note k = executeMessage_failed [OF this pre _ e]
  have k: "state_ok (StateDB (st_zvm st2))" "\<exists>gas z. st2 = (withState s1 st)\<lparr>gasRemaining := gas, st_zvm := z\<rparr> \<and> unat gas \<le> unat (gasRemaining st)"
    "\<And>a. balance (view (StateDB (st_zvm st2))) a = balance (view (StateDB (st_zvm st))) a \<and>
      nonce_of (view (StateDB (st_zvm st2))) a = nonce_of (view (StateDB (st_zvm st))) a + (if a = ?a then 1 else 0)"
    using k ro x(3) c p1 by auto
  then have m: "st_msg st2 = st_msg st" "initialGas st2 = initialGas st" "st_gp st2 = st_gp st" "gasRemaining st2 \<le> initialGas st2"
    using g(1) by (auto simp: word_le_nat_alt)
  note sb = settlement_balances [OF k(1) nb f t m(4), unfolded m, OF g(2) fee]
  show ?thesis
    unfolding res using sb [unfolded k(3) [THEN conjunct1] k(3) [THEN conjunct2]] .
qed

text \<open>C4: A failed call costs its gas and nothing else: every balance is as before, but for the gas the
  sender has paid and the tip the coinbase has got, and every nonce, but for the sender's, which has been
  counted up by one.\<close>

theorem failed_call_costs_gas:
  assumes "state_ok (StateDB z)" "precompile E = PrecompiledContractsBerlin L" "\<not> readOnly z" "z_depth z = 0"
    and "\<not> NoBaseFee E" "BaseFee (Context E) = Some b" "\<not> SkipAccountChecks msg" "msg_GasFeeCap msg = Some cap"
    and "ApplyMessage n E z msg gp = Inr (Inr result, st')" "msg_To msg = Some d" "res_Err result = Some e"
  shows "balance (view (StateDB (st_zvm st'))) a = balance (view (StateDB z)) a
      - (if a = msg_From msg then uint (UsedGas result) * msg_GasPrice msg else 0)
      + (if a = Coinbase (Context E) then uint (UsedGas result) * min (msg_GasTipCap msg) (cap - b) else 0) \<and>
    nonce_of (view (StateDB (st_zvm st'))) a = nonce_of (view (StateDB z)) a + (if a = msg_From msg then 1 else 0)"
proof -
  define st where "st = NewStateTransition z msg gp"
  have st: "st_msg st = msg" "st_zvm st = z" "gasRemaining st = 0" "st_gp st = gp"
    by (simp_all add: NewStateTransition_def st_def)
  have tr: "TransitionDb n E st = Inr (Inr result, st')"
    using assms(9) by (simp add: ApplyMessage_def st_def)
  have ok: "state_ok (StateDB (st_zvm st))"
    using assms(1) st by simp
  show ?thesis
    using ok tr
  proof (cases rule: TransitionDb_cases)
    case (executed s s' gas)
    define st2 where "st2 = withState s' ((boughtGas s st)\<lparr>gasRemaining := msg_GasLimit msg - gas\<rparr>)"
    have f: "st_msg st2 = msg" "StateDB (st_zvm st2) = s'" "gasRemaining st2 = msg_GasLimit msg - gas"
      "st_gp st2 = gp - msg_GasLimit msg" "initialGas st2 = msg_GasLimit msg" "readOnly (st_zvm st2) = readOnly z"
      using st by (simp_all add: st2_def)
    note bs = bought_state [OF ok executed(1,5), unfolded st]
    have le: "msg_GasLimit msg \<le> gp" "gas \<le> msg_GasLimit msg"
      using executed(2,4) st by (simp_all add: admissible_def)
    have n2: "nonce_of (view s') c = nonce_of (view (StateDB z)) c" for c
      using executed(1,5) nonce_SubBalance [OF moves_state_ok [OF moves_quiet [OF ok executed(1)]]] st by (simp add: quiet_def)
    have nn: "\<not> nonce_of (view s') (msg_From msg) + 1 < nonce_of (view s') (msg_From msg)"
      using executed(2) n2 assms(7) st by (simp add: admissible_def)
    have g: "msg_GasLimit msg - gas \<le> msg_GasLimit msg" "unat (gp - msg_GasLimit msg) + unat (msg_GasLimit msg) < 2 ^ 64"
      using le unat_u64_less [of gp] by (simp_all add: unat_sub word_le_nat_alt)
    have fin: "finishTransition n E st2 = Inr (Inr result, st')"
      using executed(6) st by (simp add: st2_def)
    obtain r where r: "r \<le> msg_GasLimit msg" "UsedGas result = msg_GasLimit msg - r"
      "balance (view (StateDB (st_zvm st'))) a = balance (view s') a
        + (if a = msg_From msg then uint r * msg_GasPrice msg else 0)
        + (if a = Coinbase (Context E) then uint (UsedGas result) * min (msg_GasTipCap msg) (cap - b) else 0)"
      "nonce_of (view (StateDB (st_zvm st'))) a = nonce_of (view s') a + (if a = msg_From msg then 1 else 0)"
      using failed_finish [of st2, unfolded f, OF bs(1) assms(2,3,5) fin assms(11,10) nn g assms(8,6)] by blast
    have "uint (UsedGas result) = uint (msg_GasLimit msg) - uint r"
      using r(1,2) by (simp add: uint_sub_if' word_le_def)
    then show ?thesis
      using r(3,4) bs(2) n2 by (simp add: left_diff_distrib)
  qed simp_all
qed

text \<open>The copy contract with too little gas.\<close>

lemma copy_fails:
  "\<exists>result st'. ApplyMessage n sample_env rich_zvm (copy_message 21010) 30000 = Inr (Inr result, st') \<and>
     res_Err result = Some ErrOutOfGas"
proof -
  let ?m = "copy_message 21010"
  define st where "st = NewStateTransition rich_zvm ?m 30000"
  have st: "st_msg st = ?m" "st_zvm st = rich_zvm" "gasRemaining st = 0" "st_gp st = 30000"
    by (simp_all add: NewStateTransition_def st_def)
  have "admissible sample_env (StateDB rich_zvm) ?m 30000"
    by (rule rich_admits(1)) simp_all
  note tx = TransitionDb_executes [of st, unfolded st, OF rich_machine(1) this rich_env(2), of 10 21000 n]
  obtain s s' where x: "TransitionDb n sample_env st = finishTransition n sample_env
      (withState s' ((boughtGas s st)\<lparr>gasRemaining := 10\<rparr>))"
    "quiet (StateDB rich_zvm) s" "quiet (StateDB (st_zvm (boughtGas s st))) s'"
    using tx small_bits intrinsic_empty by (auto simp: message_fields)
  define st2 where "st2 = withState s' ((boughtGas s st)\<lparr>gasRemaining := 10\<rparr>)"
  have f: "st_msg st2 = ?m" "StateDB (st_zvm st2) = s'" "gasRemaining st2 = 10" "initialGas st2 = 21010" "st_gp st2 = 8990"
    "readOnly (st_zvm st2) = readOnly rich_zvm" "z_depth (st_zvm st2) = 0"
    using st rich_machine(3) by (simp_all add: st2_def message_fields)
  note bs = bought_state [of st, unfolded st, OF rich_machine(1) x(2,3)]
  obtain s1 where p: "Prepare 1 (Coinbase (Context sample_env)) (Some 4) ActivePrecompiles [] s' = Inr s1"
    using Prepare_returns [OF bs(1)] by blast
  note p1 = Prepare_shift [OF bs(1) p]
  obtain m s3 where m: "GetNonce 1 s1 = (m, s3)"
    by fastforce
  have ok1: "state_ok s1"
    using p1 by (simp add: ledger_shift_def)
  have q: "quiet s1 s3"
    using GetNonce_read(1) [OF state_ok_wf [OF ok1], of 1] m by simp
  have ok3: "state_ok s3"
    using moves_state_ok [OF moves_quiet [OF ok1 q]] .
  have b: "5 \<le> balance (view (SetNonce 1 (m + 1) s3)) 1"
    using balance_SetNonce [OF ok3] q p1 bs(2) rich_account(1) rich_machine(4) by (simp add: quiet_def message_fields)
  let ?z = "setDB (SetNonce 1 (m + 1) s3) (st_zvm (withState s1 st2))"
  have pre: "precompile sample_env 4 = Some \<lparr>RequiredGas = dataCopy_RequiredGas, pre_Run = dataCopy_Run\<rparr>"
    by (simp add: sample_env_def PrecompiledContractsBerlin_def)
  obtain z' where z': "Call sample_env (Run n sample_env) (AccountRef 1) 4 [] 10 5 ?z = Inr ([], 0, Some ErrOutOfGas, z')"
    using copy_call [of ?z 5 "AccountRef 1" sample_env "Run n sample_env" 10] extends_state_ok [OF SetNonce_extends [OF ok3]]
      b pre f rich_machine(2) by auto
  let ?st3 = "(withState s1 st2)\<lparr>gasRemaining := 0, st_zvm := z'\<rparr>"
  have e: "executeMessage n sample_env (withState s1 st2) = Inr ([], Some ErrOutOfGas, ?st3)"
    using m z' f by (simp add: executeMessage_def Let_def message_fields)
  have "gasRemaining ?st3 \<le> initialGas ?st3" "unat (st_gp ?st3) + unat (initialGas ?st3) < 2 ^ 64"
    using f by simp_all
  then obtain st4 where r: "refundGas RefundQuotientEIP3529 ?st3 = Inr st4" "st_msg st4 = ?m"
    by (rule refundGas_result) (use f in simp)
  have "finishTransition n sample_env st2 = andThen (payTip sample_env st4) (\<lambda>st.
      Inr (Inr \<lparr>UsedGas = gasUsed st, res_Err = Some ErrOutOfGas, ReturnData = []\<rparr>, st))"
    using p e r(1) f by (simp add: finishTransition_def message_fields)
  then show ?thesis
    using x(1) r(2) rich_env by (simp add: ApplyMessage_def st_def st2_def payTip_def message_fields Let_def)
qed

theorem failed_call_costs_gas_witness:
  "\<exists>result st'. ApplyMessage 1 sample_env rich_zvm (copy_message 21010) 30000 = Inr (Inr result, st') \<and>
     res_Err result = Some ErrOutOfGas \<and> nonce_of (view (StateDB (st_zvm st'))) 1 = 1 \<and>
     balance (view (StateDB (st_zvm st'))) 4 = 1000000"
proof -
  obtain result st' where r: "ApplyMessage 1 sample_env rich_zvm (copy_message 21010) 30000 = Inr (Inr result, st')"
    "res_Err result = Some ErrOutOfGas"
    using copy_fails by blast
  have cb: "Coinbase (Context sample_env) = 9"
    by (simp add: sample_env_def)
  note k = failed_call_costs_gas [OF rich_machine(1) rich_env(1) rich_machine(2,3) rich_env(2,3) message_fields(10,6) r(1)
      message_fields(11) r(2)]
  show ?thesis
    using r k [of 1] k [of 4] rich_account cb by (simp add: message_fields rich_machine(4))
qed

section \<open>Intrinsic gas\<close>

lemma chargeUnits_exact:
  assumes "unat gas + unat units * unat price < 2 ^ 64" "price \<noteq> 0"
  shows "chargeUnits gas price units = Inr (gas + units * price)"
    "unat (gas + units * price) = unat gas + unat units * unat price"
proof -
  have m: "unat (units * price) = unat units * unat price"
    using assms(1) by (intro unat_u64_mult) simp
  then show "unat (gas + units * price) = unat gas + unat units * unat price"
    using assms(1) by (simp add: unat_u64_add)
  have "unat units * unat price \<le> unat (MaxUint64 - gas)"
    using assms(1) by (simp add: unat_sub_if_size unat_MaxUint64)
  then have "unat units \<le> unat (MaxUint64 - gas) div unat price"
    using assms(2) by (simp add: less_eq_div_iff_mult_less_eq unat_gt_0)
  then show "chargeUnits gas price units = Inr (gas + units * price)"
    by (simp add: chargeUnits_def word_less_nat_alt unat_div)
qed

lemma unat_nonZeroBytes: "length data < 2 ^ 64 \<Longrightarrow> unat (nonZeroBytes data) = length (filter (\<lambda>b. b \<noteq> 0) data)"
proof (induction data)
  case (Cons b data)
  then have "unat (nonZeroBytes data) = length (filter (\<lambda>b. b \<noteq> 0) data)"
    by simp
  moreover have "length (filter (\<lambda>b. b \<noteq> 0) data) < 2 ^ 64 - 1"
    using Cons.prems length_filter_le [of "\<lambda>b. b \<noteq> 0" data] by (simp del: length_filter_le)
  ultimately show ?case
    using unat_u64_add [of 1 "nonZeroBytes data"] by simp
qed simp

text \<open>The gas for the data of a message, in natural numbers.\<close>

definition data_cost :: "bytes \<Rightarrow> bool \<Rightarrow> nat" where
  "data_cost data isContractCreation =
     16 * length (filter (\<lambda>b. b \<noteq> 0) data) + 4 * length (filter (\<lambda>b. b = 0) data)
     + (if isContractCreation then 2 * ((length data + 31) div 32) else 0)"

lemma dataGas_exact:
  assumes "length data < 2 ^ 32" "unat gas < 2 ^ 32"
  shows "\<exists>g. dataGas data cr gas = Inr g \<and> unat g = unat gas + data_cost data cr"
proof -
  define len nz where "len = (of_nat (length data) :: uint64)" and "nz = nonZeroBytes data"
  let ?p = "length (filter (\<lambda>b. b \<noteq> 0) data)" and ?z = "length (filter (\<lambda>b. b = 0) data)"
  have pz: "?p + ?z = length data"
    using sum_length_filter_compl [of "\<lambda>b. b \<noteq> 0" data] by simp
  have u: "unat len = length data" "unat nz = ?p"
    using assms(1) unat_nonZeroBytes [of data] by (simp_all add: len_def nz_def unat_of_nat)
  have z: "unat (len - nz) = ?z"
    using u pz by (simp add: unat_sub_if_size)
  have w: "unat (toWordSize len) = (length data + 31) div 32"
    using u assms(1) by (simp add: unat_toWordSize)
  define g1 where "g1 = gas + nz * 16"
  have c1: "chargeUnits gas 16 nz = Inr g1" "unat g1 = unat gas + ?p * 16"
    using chargeUnits_exact [of gas nz 16] u pz assms by (simp_all add: g1_def)
  define g2 where "g2 = g1 + (len - nz) * 4"
  have c2: "chargeUnits g1 4 (len - nz) = Inr g2" "unat g2 = unat gas + ?p * 16 + ?z * 4"
    using chargeUnits_exact [of g1 "len - nz" 4] c1(2) z pz assms by (simp_all add: g2_def)
  have c3: "chargeUnits g2 2 (toWordSize len) = Inr (g2 + toWordSize len * 2)"
    "unat (g2 + toWordSize len * 2) = unat gas + ?p * 16 + ?z * 4 + (length data + 31) div 32 * 2"
    using chargeUnits_exact [of g2 "toWordSize len" 2] c2(2) w pz assms by simp_all
  show ?thesis
    using c1 c2 c3 pz u(1) unfolding dataGas_def len_def [symmetric] nz_def [symmetric]
    by (cases "data = []") (auto simp: Let_def params data_cost_def word_eq_iff_unsigned len_def)
qed

text \<open>C17: The intrinsic gas is computed without overflow, for every amount of data and every access list that
  fits into memory, and is the cost that the protocol prescribes.\<close>

theorem intrinsic_gas_exact:
  assumes "length data < 2 ^ 32" "length al < 2 ^ 32" "StorageKeys al < 2 ^ 32"
  shows "\<exists>g. IntrinsicGas data al cr = Inr g \<and>
    unat g = (if cr then 53000 else 21000) + data_cost data cr + 2400 * length al + 1900 * StorageKeys al"
proof -
  let ?base = "if cr then TxGasContractCreation else TxGas"
  have base: "unat ?base = (if cr then 53000 else 21000)"
    by (simp add: params)
  then obtain g where g: "dataGas data cr ?base = Inr g" "unat g = (if cr then 53000 else 21000) + data_cost data cr"
    using dataGas_exact [OF assms(1), of ?base cr] by (cases cr) auto
  have dc: "data_cost data cr \<le> 16 * length data + 2 * length data + 2"
    using sum_length_filter_compl [of "\<lambda>b. b \<noteq> 0" data] by (auto simp: data_cost_def)
  have ug: "unat g \<le> 18 * 2 ^ 32 + 53002"
    using g(2) dc assms(1) by (cases cr) simp_all
  have m: "unat (of_nat (length al) * 2400 :: uint64) = length al * 2400"
    "unat (of_nat (StorageKeys al) * 1900 :: uint64) = StorageKeys al * 1900"
    using assms(2,3) by (simp_all add: unat_word_ariths unat_of_nat)
  have "unat (g + of_nat (length al) * 2400) = unat g + length al * 2400"
    using m(1) ug assms(2) by (subst unat_u64_add) simp_all
  then have "unat (g + of_nat (length al) * 2400 + of_nat (StorageKeys al) * 1900) =
      unat g + length al * 2400 + StorageKeys al * 1900"
    using m(2) ug assms(2,3) by (subst unat_u64_add) simp_all
  then show ?thesis
    using g by (cases "al = []") (auto simp: IntrinsicGas_def params)
qed

theorem intrinsic_gas_exact_witness:
  "\<exists>g. IntrinsicGas [1, 0, 7] [(4, [1, 2])] True = Inr g \<and> unat g = 53000 + (16 * 2 + 4 * 1 + 2) + 2400 + 1900 * 2"
  using intrinsic_gas_exact [of "[1, 0, 7]" "[(4, [1, 2])]" True] by (simp add: data_cost_def)

end
