(* ===== verification/ZVM_Table.thy ===== *)
theory ZVM_Table
  imports ZVM_Fuel
begin

text \<open>
  Facts about the jump table and the opcode names that the rest of the client takes for granted: the
  stack never outgrows its limit, the table passes its own validation, and the names of opcodes can be
  read back.
\<close>

section \<open>Stack effects\<close>

lemma pop_Inr: "pop st = Inr (x, st') \<longleftrightarrow> st = x # st'"
  by (cases st) (auto simp: pop_def)

lemma peek_Inr: "peek st = Inr x \<longleftrightarrow> st \<noteq> [] \<and> x = st ! 0"
  by (auto simp: peek_def Back_def)

lemma dup_Inr: "dup n st = Inr st' \<Longrightarrow> length st' = Suc (length st)"
  by (auto simp: dup_def split: if_splits)

lemma swap_Inr: "swap n st = Inr st' \<Longrightarrow> length st' = length st"
  by (auto simp: swap_def split: if_splits)

lemma popN_Inr: "popN n st = Inr (xs, st') \<Longrightarrow> length st = n + length st'"
  by (induction n arbitrary: st xs) (auto simp: pop_Inr)

text \<open>How much an instruction takes from the stack, net, when the loop goes on after it.\<close>

definition effect :: "int \<Rightarrow> executionFunc \<Rightarrow> bool" where
  "effect k ex \<longleftrightarrow> (\<forall>E run f z res f' z'. ex E run f z = Inr ((res, None), f', z') \<longrightarrow>
     int (length (f_stk f')) + k = int (length (f_stk f)))"

lemma effect_binary:
  "effect 1 opAdd" "effect 1 opSub" "effect 1 opMul" "effect 1 opDiv" "effect 1 opSdiv" "effect 1 opMod"
  "effect 1 opSmod" "effect 1 opExp" "effect 1 opSignExtend" "effect 1 opLt" "effect 1 opGt" "effect 1 opSlt"
  "effect 1 opSgt" "effect 1 opEq" "effect 1 opAnd" "effect 1 opOr" "effect 1 opXor" "effect 1 opByte"
  "effect 1 opSHL" "effect 1 opSHR" "effect 1 opSAR" "effect 2 opAddmod" "effect 2 opMulmod" "effect 0 opNot"
  "effect 0 opIszero"
  by (auto simp: effect_def opAdd_def opSub_def opMul_def opDiv_def opSdiv_def opMod_def opSmod_def opExp_def
      opSignExtend_def opLt_def opGt_def opSlt_def opSgt_def opEq_def opAnd_def opOr_def opXor_def opByte_def
      opSHL_def opSHR_def opSAR_def opAddmod_def opMulmod_def opNot_def opIszero_def unop_def binop_def ternop_def
      cont_def pop_Inr)

lemma effect_push:
  "effect (- 1) opAddress" "effect (- 1) opOrigin" "effect (- 1) opCaller" "effect (- 1) opCallValue"
  "effect (- 1) opCallDataSize" "effect (- 1) opReturnDataSize" "effect (- 1) opCodeSize" "effect (- 1) opGasprice"
  "effect (- 1) opCoinbase" "effect (- 1) opTimestamp" "effect (- 1) opNumber" "effect (- 1) opRandom"
  "effect (- 1) opGasLimit" "effect (- 1) opChainID" "effect (- 1) opSelfBalance" "effect (- 1) opBaseFee"
  "effect (- 1) opPc" "effect (- 1) opMsize" "effect (- 1) opGas" "effect (- 1) opPush0" "effect (- 1) opPush1"
  "effect (- 1) (makePush k n)" "effect (- 1) (makeDup n)" "effect 0 (makeSwap n)" "effect 0 opJumpdest"
  by (auto simp: effect_def opAddress_def opOrigin_def opCaller_def opCallValue_def opCallDataSize_def
      opReturnDataSize_def opCodeSize_def opGasprice_def opCoinbase_def opTimestamp_def opNumber_def opRandom_def
      opGasLimit_def opChainID_def opSelfBalance_def opBaseFee_def opPc_def opMsize_def opGas_def opPush0_def
      opPush1_def makePush_def makeDup_def makeSwap_def opJumpdest_def pushop_def cont_def Let_def
      dest!: dup_Inr swap_Inr split: option.splits if_splits prod.splits)

lemma effect_memory:
  "effect 0 opMload" "effect 2 opMstore" "effect 2 opMstore8" "effect 0 opCallDataLoad" "effect 3 opCallDataCopy"
  "effect 3 opReturnDataCopy" "effect 3 opCodeCopy" "effect 1 opKeccak256" "effect 1 opPop"
  by (auto simp: effect_def opMload_def opMstore_def opMstore8_def opCallDataLoad_def opCallDataCopy_def
      opReturnDataCopy_def opCodeCopy_def opKeccak256_def opPop_def cont_def opErr_def Let_def
      pop_Inr peek_Inr split: if_splits prod.splits)

lemma effect_ExtCodeCopy: "effect 4 opExtCodeCopy"
  by (auto simp: effect_def opExtCodeCopy_def cont_def pop_Inr split_beta)

lemma effect_state:
  "effect 0 opBalance" "effect 0 opExtCodeSize" "effect 0 opExtCodeHash" "effect 0 opBlockhash" "effect 0 opSload"
  "effect 2 opSstore" "effect (2 + int n) (makeLog n)" "effect 1 opJump" "effect 2 opJumpi"
  by (auto simp: effect_def opBalance_def opExtCodeSize_def opExtCodeHash_def opBlockhash_def opSload_def
      opSstore_def makeLog_def opJump_def opJumpi_def jumpTo_def unop_def cont_def opErr_def Let_def pop_Inr peek_Inr
      dest!: popN_Inr split: if_splits prod.splits)

lemma effect_stop: "effect k opStop" "effect k opReturn" "effect k opRevert" "effect k opUndefined"
  by (auto simp: effect_def opStop_def opReturn_def opRevert_def opUndefined_def opErr_def)

lemma after_length:
  "afterCall a b st f r = Inr ((res, err), f', z') \<Longrightarrow> length (f_stk f') = Suc (length st)"
  "afterCreate st f c = Inr ((res, err), f', z') \<Longrightarrow> length (f_stk f') = Suc (length st)"
  by (auto simp: afterCall_def afterCreate_def cont_def Let_def split: prod.splits if_splits)

lemma effect_call:
  "effect 6 opCall" "effect 5 opDelegateCall" "effect 5 opStaticCall" "effect 2 opCreate" "effect 3 opCreate2"
  by (auto simp: effect_def opCall_def opDelegateCall_def opStaticCall_def opCreate_def opCreate2_def
      opErr_def Let_def pop_Inr split: if_splits dest!: after_length)

lemmas effects = effect_binary effect_push effect_memory effect_ExtCodeCopy effect_state effect_stop effect_call

text \<open>The stack limits of the table are the ones that keep the stack below its bound.\<close>

definition stack_bounded :: "operation \<Rightarrow> bool" where
  "stack_bounded oper \<longleftrightarrow> (\<exists>k. effect k (execute oper) \<and> op_maxStack oper \<le> 1024 + k)"

lemma stack_boundedI: "effect k (execute oper) \<Longrightarrow> op_maxStack oper \<le> 1024 + k \<Longrightarrow> stack_bounded oper"
  by (auto simp: stack_bounded_def)

lemma table_bounded:
  "\<forall>x \<in> set shanghai_1. stack_bounded (snd x)" "\<forall>x \<in> set shanghai_2. stack_bounded (snd x)"
  "\<forall>x \<in> set shanghai_3. stack_bounded (snd x)" "\<forall>x \<in> set shanghai_4. stack_bounded (snd x)"
  "\<forall>x \<in> set shanghai_5. stack_bounded (snd x)" "\<forall>x \<in> set shanghai_6. stack_bounded (snd x)"
  "\<forall>x \<in> set shanghai_7. stack_bounded (snd x)"
  unfolding shanghai_1_def shanghai_2_def shanghai_3_def shanghai_4_def shanghai_5_def shanghai_6_def shanghai_7_def
  by (auto intro!: stack_boundedI effects simp: stack_table_defs params)

text \<open>Gas functions do not touch the stack.\<close>

definition stack_kept :: "frame \<Rightarrow> ((vmerror + uint64) \<times> frame \<times> zvm) go \<Rightarrow> bool" where
  "stack_kept f m \<longleftrightarrow> (\<forall>r f' z'. m = Inr (r, f', z') \<longrightarrow> f_stk f' = f_stk f)"

lemma kept_end [simp]: "stack_kept f (gasErr e f' z) = (f_stk f' = f_stk f)" "stack_kept f (gasIs g f' z) = (f_stk f' = f_stk f)"
  by (auto simp: stack_kept_def gasErr_def gasIs_def)

lemma kept_andThen: "(\<And>a. m = Inr a \<Longrightarrow> stack_kept f (k a)) \<Longrightarrow> stack_kept f (andThen m k)"
  by (auto simp: stack_kept_def)

lemma kept_gas:
  "f_stk f' = f_stk f \<Longrightarrow> (\<And>g. stack_kept f (k g)) \<Longrightarrow> stack_kept f (addGas a b f' z k)"
  "f_stk f' = f_stk f \<Longrightarrow> (\<And>g. stack_kept f (k g)) \<Longrightarrow> stack_kept f (mulGas a b f' z k)"
  "f_stk f' = f_stk f \<Longrightarrow> (\<And>g f''. f_stk f'' = f_stk f \<Longrightarrow> stack_kept f (h g f'')) \<Longrightarrow>
     stack_kept f (withMemoryGas f' ms z h)"
  by (auto simp: addGas_def mulGas_def withMemoryGas_def split: prod.split sum.split)

lemma kept_if: "(c \<Longrightarrow> stack_kept f m) \<Longrightarrow> (\<not> c \<Longrightarrow> stack_kept f m') \<Longrightarrow> stack_kept f (if c then m else m')"
  by simp

lemmas kept = kept_andThen kept_gas kept_if

lemma kept_memory:
  "stack_kept f (memoryCopierGas n E f ms z)" "stack_kept f (makeGasLog l E f ms z)" "stack_kept f (gasKeccak256 E f ms z)"
  "stack_kept f (pureMemoryGascost E f ms z)" "stack_kept f (gasCreateEip3860 E f ms z)"
  "stack_kept f (gasCreate2Eip3860 E f ms z)" "stack_kept f (gasExpEIP158 E f ms z)"
  by (auto simp: memoryCopierGas_def makeGasLog_def gasKeccak256_def pureMemoryGascost_def gasCreateEip3860_def
      gasCreate2Eip3860_def gasExpEIP158_def Let_def intro!: kept split: prod.split)

lemma kept_calls:
  "stack_kept f (gasCall E f ms z)" "stack_kept f (gasDelegateCall E f ms z)" "stack_kept f (gasStaticCall E f ms z)"
  by (auto simp: gasCall_def gasDelegateCall_def gasStaticCall_def chargeCallGas_def Let_def intro!: kept split: prod.split)

lemma kept_access:
  "stack_kept f (makeGasSStoreFunc c E f ms z)" "stack_kept f (gasSLoadEIP2929 E f ms z)"
  "stack_kept f (gasEip2929AccountCheck E f ms z)"
  by (auto simp: makeGasSStoreFunc_def gasSLoadEIP2929_def gasEip2929AccountCheck_def Let_def intro!: kept split: prod.split)

lemma kept_ExtCodeCopy: "stack_kept f (gasExtCodeCopyEIP2929 E f ms z)"
  using kept_memory(1) [of f 3 E ms z]
  by (auto simp: gasExtCodeCopyEIP2929_def gasExtCodeCopy_def Let_def stack_kept_def [of f "memoryCopierGas 3 E f ms z"]
      intro!: kept split: prod.split sum.split)

lemma kept_variant:
  assumes "\<And>f z. stack_kept f (old E f ms z)"
  shows "stack_kept f (makeCallVariantGasCallEIP2929 old E f ms z)"
  using assms
  by (fastforce simp: makeCallVariantGasCallEIP2929_def Let_def stack_kept_def [of _ "old E _ ms _"]
      intro!: kept split: prod.split sum.split)

definition gas_keeps_stack :: "operation \<Rightarrow> bool" where
  "gas_keeps_stack oper \<longleftrightarrow> (\<forall>g E f ms z. dynamicGas oper = Some g \<longrightarrow> stack_kept f (g E f ms z))"

lemma table_keeps_stack:
  "\<forall>x \<in> set shanghai_1. gas_keeps_stack (snd x)" "\<forall>x \<in> set shanghai_2. gas_keeps_stack (snd x)"
  "\<forall>x \<in> set shanghai_3. gas_keeps_stack (snd x)" "\<forall>x \<in> set shanghai_4. gas_keeps_stack (snd x)"
  "\<forall>x \<in> set shanghai_5. gas_keeps_stack (snd x)" "\<forall>x \<in> set shanghai_6. gas_keeps_stack (snd x)"
  "\<forall>x \<in> set shanghai_7. gas_keeps_stack (snd x)"
  unfolding shanghai_1_def shanghai_2_def shanghai_3_def shanghai_4_def shanghai_5_def shanghai_6_def shanghai_7_def
  by (simp_all add: gas_keeps_stack_def kept_memory kept_calls kept_access kept_ExtCodeCopy kept_variant
      gasCallDataCopy_def gasCodeCopy_def gasReturnDataCopy_def gasReturn_def gasRevert_def gasMLoad_def
      gasMStore_def gasMStore8_def gasCallEIP2929_def gasDelegateCallEIP2929_def gasStaticCallEIP2929_def
      gasSStoreEIP3529_def)

lemma instruction_cases:
  obtains "newShanghaiInstructionSet b = undefined_operation"
  | oper where "newShanghaiInstructionSet b = oper" "(b, oper) \<in> set shanghai_entries"
  by (cases "map_of shanghai_entries b") (auto simp: newShanghaiInstructionSet_def dest: map_of_SomeD)

lemma instruction_stack:
  "stack_bounded (newShanghaiInstructionSet b)" "gas_keeps_stack (newShanghaiInstructionSet b)"
proof -
  have "stack_bounded (newShanghaiInstructionSet b) \<and> gas_keeps_stack (newShanghaiInstructionSet b)"
  proof (cases rule: instruction_cases [of b])
    case 1
    have "op_maxStack undefined_operation \<le> 1024 + 0"
      by (simp add: undefined_operation_def stack_table_defs params)
    then show ?thesis
      using effect_stop(4) [of 0] 1 by (auto simp: stack_bounded_def gas_keeps_stack_def undefined_operation_def)
  next
    case (2 oper)
    then have "stack_bounded (snd (b, oper))" "gas_keeps_stack (snd (b, oper))"
      using table_bounded table_keeps_stack unfolding shanghai_entries_def set_append by blast+
    then show ?thesis
      using 2 by simp
  qed
  then show "stack_bounded (newShanghaiInstructionSet b)" "gas_keeps_stack (newShanghaiInstructionSet b)"
    by simp_all
qed

lemma payDynamic_stack: "f_stk (fst (snd (payDynamic ms r))) = f_stk (fst (snd r))"
  by (auto simp: payDynamic_def split: sum.splits prod.splits)

lemma chargeDynamic_stack:
  assumes "gas_keeps_stack oper" "chargeDynamic E oper f z = Inr (err, f', z')"
  shows "f_stk f' = f_stk f"
proof (cases "dynamicGas oper")
  case (Some g)
  have k: "g E f ms z = Inr (r, f1, z1) \<Longrightarrow> f_stk f1 = f_stk f" for ms r f1 z1
    using assms(1) Some unfolding gas_keeps_stack_def stack_kept_def by blast
  consider "f' = f" | ms r where "g E f ms z = Inr r" "payDynamic ms r = (err, f', z')"
    using assms(2) Some by (auto simp: chargeDynamic_def andThen_def split: sum.splits)
  then show ?thesis
  proof cases
    case (2 ms r)
    then show ?thesis
      using k [of ms "fst r" "fst (snd r)" "snd (snd r)"] payDynamic_stack [of ms r] by simp
  qed simp
qed (use assms(2) in \<open>simp add: chargeDynamic_def\<close>)

section \<open>The names of the opcodes\<close>

lemma names_read_back: "list_all (\<lambda>(b, s). map_of stringToOp s = Some b) opCodeToString"
  by code_simp

lemma no_name_like_undefined: "list_all (\<lambda>(s, b). take 2 s \<noteq> ''op'') stringToOp"
  by code_simp

definition table_opcodes :: "byte list" where
  "table_opcodes = map fst shanghai_entries"

lemmas table_opcodes_eval = table_opcodes_def
  [unfolded shanghai_entries_def shanghai_1_def shanghai_2_def shanghai_3_def shanghai_4_def shanghai_5_def
    shanghai_6_def shanghai_7_def append.simps list.map fst_conv]

lemma table_has_names: "list_all (\<lambda>b. b \<in> set (map fst opCodeToString)) (0xfe # table_opcodes)"
  unfolding table_opcodes_eval by code_simp

lemma names_have_table: "list_all (\<lambda>b. b \<in> set (0xfe # table_opcodes)) (map fst opCodeToString)"
  unfolding table_opcodes_eval by code_simp

lemma named_opcodes:
  "map_of opCodeToString b = None \<longleftrightarrow> map_of shanghai_entries b = None \<and> b \<noteq> 0xfe"
proof -
  have "set (map fst opCodeToString) = set (0xfe # table_opcodes)"
    using table_has_names names_have_table unfolding list_all_iff by blast
  then show ?thesis
    unfolding map_of_eq_None_iff by (auto simp: table_opcodes_def)
qed

lemma undefined_not_a_name: "map_of stringToOp (''opcode 0x'' @ s) = None"
proof -
  have "(''opcode 0x'' @ s, b) \<notin> set stringToOp" for b
    using no_name_like_undefined by (auto simp: list_all_iff)
  then show ?thesis
    by (auto simp: map_of_eq_None_iff)
qed

section \<open>Properties\<close>

text \<open>C14: The operand stack never holds more than 1024 values: an iteration of the interpreter loop that
  starts within the limit and goes on ends within it, for every instruction.\<close>

theorem stack_within_limit:
  assumes "length (f_stk f) \<le> 1024" "loopBody E run f z = Inr ((res, None), f', z')"
  shows "length (f_stk f') \<le> 1024"
proof -
  define oper where "oper = newShanghaiInstructionSet (GetOp (f_con f) (f_pc f))"
  note st = instruction_stack [of "GetOp (f_con f) (f_pc f)", folded oper_def]
  have le: "int (length (f_stk f)) \<le> op_maxStack oper"
    using assms(2) by (auto simp: loopBody_def oper_def [symmetric] Let_def opErr_def split: if_splits prod.splits)
  obtain con f1 z1 where c: "chargeDynamic E oper (f\<lparr>f_con := con\<rparr>) z = Inr (None, f1, z1)"
    "execute oper E run f1 z1 = Inr ((res, None), f', z')"
    using assms(2)
    by (auto simp: loopBody_def oper_def [symmetric] Let_def opErr_def split: if_splits prod.splits option.splits)
  obtain k where k: "effect k (execute oper)" "op_maxStack oper \<le> 1024 + k"
    using st(1) by (auto simp: stack_bounded_def)
  have "f_stk f1 = f_stk f"
    using chargeDynamic_stack [OF st(2) c(1)] by simp
  then have "int (length (f_stk f')) + k = int (length (f_stk f))"
    using k(1) c(2) unfolding effect_def by metis
  then show ?thesis
    using le k(2) by simp
qed

text \<open>The instruction \<open>PUSH0\<close> on an empty stack.\<close>

definition push0_frame :: frame where
  "push0_frame = \<lparr>f_pc = 0, f_mem = NewMemory, f_stk = [],
     f_con = (NewContract (AccountRef 1) 2 0 10)\<lparr>Code := [0x5f]\<rparr>\<rparr>"

lemma push0_step:
  "loopBody E run push0_frame z =
     Inr (([], None), push0_frame\<lparr>f_stk := [0], f_con := (f_con push0_frame)\<lparr>Gas := 8\<rparr>\<rparr>, z)"
proof -
  have "GetOp (f_con push0_frame) (f_pc push0_frame) = 0x5f"
    by (simp add: push0_frame_def GetOp_def)
  moreover have "newShanghaiInstructionSet 0x5f = \<lparr>execute = opPush0, constantGas = GasQuickStep, dynamicGas = None,
      op_minStack = minStack 0 1, op_maxStack = maxStack 0 1, memorySize = None\<rparr>"
    by (simp add: newShanghaiInstructionSet_def shanghai_entries_def shanghai_1_def shanghai_2_def shanghai_3_def
        shanghai_4_def shanghai_5_def shanghai_6_def shanghai_7_def)
  ultimately show ?thesis
    by (simp add: loopBody_def chargeDynamic_def opPush0_def pushop_def cont_def push_def stack_table_defs params
        push0_frame_def UseGas_def NewContract_def)
qed

theorem stack_within_limit_witness:
  "\<forall>E run z. \<exists>f' z'. loopBody E run push0_frame z = Inr (([], None), f', z') \<and> length (f_stk f') \<le> 1024"
  using push0_step stack_within_limit [OF _ push0_step] by (auto simp: push0_frame_def)


text \<open>C31: The name of an opcode can be read back: \<open>StringToOp\<close> inverts \<open>String\<close> on every opcode
  that has a name, and these are the opcodes of the jump table and \<open>INVALID\<close>. The text that stands for
  an opcode without a name is no name.\<close>

theorem opcode_names_roundtrip:
  "StringToOp (OpCode_String b) = (if map_of opCodeToString b = None then 0 else b) \<and>
   (map_of opCodeToString b = None \<longleftrightarrow> map_of shanghai_entries b = None \<and> b \<noteq> 0xfe)"
proof (cases "map_of opCodeToString b")
  case None
  then have "StringToOp (OpCode_String b) = 0"
    using undefined_not_a_name by (simp add: StringToOp_def OpCode_String_def)
  then show ?thesis
    using None named_opcodes [of b] by simp
next
  case (Some s)
  have "map_of stringToOp s = Some b"
    using names_read_back map_of_SomeD [OF Some] by (auto simp: list_all_iff)
  then show ?thesis
    using Some named_opcodes [of b] by (simp add: StringToOp_def OpCode_String_def)
qed

end
