(* ===== verification/Bloom_Filter.thy ===== *)
theory Bloom_Filter
  imports State_DB
begin

text \<open>
  Receipts and the bloom filter over their logs: \<open>core/types/receipt.go\<close> and
  \<open>core/types/bloom9.go\<close>. The filter of a block lets a client skip the block when it looks for an
  address or a topic, so it must never miss one. The lemmas say exactly which bits a filter has, from
  which it follows that there are no false negatives.
\<close>

type_synonym Bloom = bytes

definition BloomByteLength :: nat where
  "BloomByteLength = 256"

record Receipt =
  rcpt_Type :: byte
  PostState :: bytes
  Status :: uint64
  CumulativeGasUsed :: uint64
  rcpt_Bloom :: Bloom
  Logs :: "zlog list"
  rcpt_TxHash :: hash
  rcpt_ContractAddress :: address
  rcpt_GasUsed :: uint64
  rcpt_BlockHash :: hash
  rcpt_BlockNumber :: int
  rcpt_TransactionIndex :: int

definition ReceiptStatusFailed :: uint64 where
  "ReceiptStatusFailed = 0"

definition ReceiptStatusSuccessful :: uint64 where
  "ReceiptStatusSuccessful = 1"

section \<open>The filter\<close>

definition zero_bloom :: Bloom where
  "zero_bloom = replicate BloomByteLength 0"

definition Bloom_SetBytes :: "Bloom \<Rightarrow> bytes \<Rightarrow> Bloom go" where
  "Bloom_SetBytes b d =
     (if length b < length d then Inl (PanicMsg ''bloom bytes too big'')
      else Inr (copy_at b (BloomByteLength - length d) d))"

definition BytesToBloom :: "bytes \<Rightarrow> Bloom go" where
  "BytesToBloom b = Bloom_SetBytes zero_bloom b"

definition BigEndian_Uint16 :: "bytes \<Rightarrow> 16 word" where
  "BigEndian_Uint16 b = ucast (b ! 1) OR push_bit 8 (ucast (b ! 0))"

text \<open>\<open>hashbuf\<close> gets the first six bytes of the hash. A pair of indices and values for each of its three
  pairs of bytes.\<close>

definition bloomValue :: "bytes \<Rightarrow> uint64 \<times> byte" where
  "bloomValue hashbuf =
     (of_nat BloomByteLength - ucast (drop_bit 3 (BigEndian_Uint16 hashbuf AND 0x7FF)) - 1,
      push_bit (unat (hashbuf ! 1 AND 7)) 1)"

definition bloomValues :: "database \<Rightarrow> bytes \<Rightarrow> (uint64 \<times> byte) list" where
  "bloomValues D data =
     (let hashbuf = take 6 (HashBytes (Keccak256Hash D data)) in
      [bloomValue hashbuf, bloomValue (drop 2 hashbuf), bloomValue (drop 4 hashbuf)])"

definition orByte :: "uint64 \<times> byte \<Rightarrow> Bloom \<Rightarrow> Bloom go" where
  "orByte iv b =
     (case iv of (i, v) \<Rightarrow>
        andThen (go_index b (uint i)) (\<lambda>x. Inr (b[unat i := x OR v])))"

primrec orBytes :: "(uint64 \<times> byte) list \<Rightarrow> Bloom \<Rightarrow> Bloom go" where
  "orBytes [] b = Inr b"
| "orBytes (iv # ivs) b = andThen (orByte iv b) (orBytes ivs)"

definition Bloom_add :: "database \<Rightarrow> bytes \<Rightarrow> Bloom \<Rightarrow> Bloom go" where
  "Bloom_add D d b = orBytes (bloomValues D d) b"

definition testByte :: "Bloom \<Rightarrow> uint64 \<times> byte \<Rightarrow> bool go" where
  "testByte b iv = (case iv of (i, v) \<Rightarrow> andThen (go_index b (uint i)) (\<lambda>x. Inr (v = v AND x)))"

text \<open>\<open>&&\<close> looks at a byte only when those before it match.\<close>

primrec testBytes :: "Bloom \<Rightarrow> (uint64 \<times> byte) list \<Rightarrow> bool go" where
  "testBytes b [] = Inr True"
| "testBytes b (iv # ivs) = andThen (testByte b iv) (\<lambda>t. if t then testBytes b ivs else Inr False)"

definition BloomLookup :: "database \<Rightarrow> Bloom \<Rightarrow> bytes \<Rightarrow> bool go" where
  "BloomLookup D bin topic = testBytes bin (bloomValues D topic)"

primrec addTopics :: "database \<Rightarrow> hash list \<Rightarrow> Bloom \<Rightarrow> Bloom go" where
  "addTopics D [] bin = Inr bin"
| "addTopics D (t # ts) bin = andThen (Bloom_add D (HashBytes t) bin) (addTopics D ts)"

primrec addLogs :: "database \<Rightarrow> zlog list \<Rightarrow> Bloom \<Rightarrow> Bloom go" where
  "addLogs D [] bin = Inr bin"
| "addLogs D (l # ls) bin =
     andThen (Bloom_add D (AddressBytes (log_Address l)) bin) (\<lambda>bin.
     andThen (addTopics D (log_Topics l) bin) (addLogs D ls))"

primrec addReceipts :: "database \<Rightarrow> Receipt list \<Rightarrow> Bloom \<Rightarrow> Bloom go" where
  "addReceipts D [] bin = Inr bin"
| "addReceipts D (r # rs) bin = andThen (addLogs D (Logs r) bin) (addReceipts D rs)"

definition CreateBloom :: "database \<Rightarrow> Receipt list \<Rightarrow> Bloom go" where
  "CreateBloom D receipts = addReceipts D receipts zero_bloom"

definition LogsBloom :: "database \<Rightarrow> zlog list \<Rightarrow> bytes go" where
  "LogsBloom D ls = addLogs D ls zero_bloom"

section \<open>The bits of a filter\<close>

text \<open>The words that are looked up for a log, and the bits that a list of words sets.\<close>

definition log_words :: "zlog \<Rightarrow> bytes list" where
  "log_words l = AddressBytes (log_Address l) # map HashBytes (log_Topics l)"

definition receipt_words :: "Receipt list \<Rightarrow> bytes list" where
  "receipt_words rs = concat (map log_words (concat (map Logs rs)))"

definition has_values :: "Bloom \<Rightarrow> (uint64 \<times> byte) set \<Rightarrow> bool" where
  "has_values b ivs \<longleftrightarrow> length b = BloomByteLength \<and>
     (\<forall>i<BloomByteLength. \<forall>j. bit (b ! i) j \<longleftrightarrow> (\<exists>(i', v)\<in>ivs. unat i' = i \<and> bit v j))"

definition word_values :: "database \<Rightarrow> bytes list \<Rightarrow> (uint64 \<times> byte) set" where
  "word_values D ws = (\<Union>w\<in>set ws. set (bloomValues D w))"

lemma bloomValue_index: "unat (fst (bloomValue h)) < BloomByteLength"
proof -
  let ?w = "BigEndian_Uint16 h AND 0x7FF"
  have w: "?w = take_bit 11 (BigEndian_Uint16 h)"
    by (simp add: take_bit_eq_mask mask_eq_exp_minus_1)
  have "unat ?w < 2 ^ 11"
    unfolding w unsigned_take_bit_eq by (simp add: take_bit_eq_mod)
  moreover have "unat (drop_bit 3 ?w) = unat ?w div 8"
    by (simp add: drop_bit_eq_div unat_div_distrib)
  ultimately have "unat (drop_bit 3 ?w) \<le> 255"
    by simp
  then have "unat (ucast (drop_bit 3 ?w) :: uint64) \<le> 255"
    by (simp add: unsigned_ucast_eq take_bit_nat_eq_self)
  then have "unat (256 - ucast (drop_bit 3 ?w) - 1 :: uint64) < 256"
    by (simp add: unat_sub word_le_nat_alt)
  then show ?thesis
    by (simp add: bloomValue_def BloomByteLength_def)
qed

lemma bloomValues_index: "iv \<in> set (bloomValues D w) \<Longrightarrow> unat (fst iv) < BloomByteLength"
  using bloomValue_index by (auto simp: bloomValues_def Let_def)

lemma orByte_values:
  assumes "has_values b S" "unat (fst iv) < BloomByteLength"
  shows "\<exists>b'. orByte iv b = Inr b' \<and> has_values b' (insert iv S)"
proof -
  obtain i v where iv: "iv = (i, v)"
    by fastforce
  have "uint i < int (length b)" "unat i < length b"
    using assms uint_less_of_unat [of i] by (simp_all add: iv has_values_def)
  then show ?thesis
    using assms(1) by (auto simp: iv orByte_def go_index_def has_values_def nth_list_update bit_or_iff)
qed

lemma orBytes_values:
  assumes "has_values b S" "\<forall>iv\<in>set ivs. unat (fst iv) < BloomByteLength"
  shows "\<exists>b'. orBytes ivs b = Inr b' \<and> has_values b' (S \<union> set ivs)"
  using assms
proof (induction ivs arbitrary: b S)
  case (Cons iv ivs)
  obtain b' where b': "orByte iv b = Inr b'" "has_values b' (insert iv S)"
    using orByte_values [OF Cons.prems(1), of iv] Cons.prems(2) by auto
  show ?case
    using Cons.IH [OF b'(2)] Cons.prems(2) b'(1) by simp
qed simp

lemma word_values_simps [simp]:
  "word_values D [] = {}" "word_values D (w # ws) = set (bloomValues D w) \<union> word_values D ws"
  "word_values D (ws @ ws') = word_values D ws \<union> word_values D ws'"
  by (auto simp: word_values_def)

lemma Bloom_add_values:
  "has_values b S \<Longrightarrow> \<exists>b'. Bloom_add D w b = Inr b' \<and> has_values b' (S \<union> word_values D [w])"
  using orBytes_values bloomValues_index by (simp add: Bloom_add_def)

lemma addTopics_values:
  "has_values b S \<Longrightarrow> \<exists>b'. addTopics D ts b = Inr b' \<and> has_values b' (S \<union> word_values D (map HashBytes ts))"
proof (induction ts arbitrary: b S)
  case (Cons t ts)
  then show ?case
    using Bloom_add_values [OF Cons.prems, of D "HashBytes t"] by (fastforce simp: Un_assoc)
qed simp

lemma addLogs_values:
  "has_values b S \<Longrightarrow> \<exists>b'. addLogs D ls b = Inr b' \<and> has_values b' (S \<union> word_values D (concat (map log_words ls)))"
proof (induction ls arbitrary: b S)
  case (Cons l ls)
  obtain b1 where b1: "Bloom_add D (AddressBytes (log_Address l)) b = Inr b1"
    "has_values b1 (S \<union> word_values D [AddressBytes (log_Address l)])"
    using Bloom_add_values [OF Cons.prems] by blast
  obtain b2 where "addTopics D (log_Topics l) b1 = Inr b2" "has_values b2 (S \<union> word_values D (log_words l))"
    using addTopics_values [OF b1(2)] by (fastforce simp: log_words_def Un_assoc)
  with Cons.IH b1(1) show ?case
    by (fastforce simp: Un_assoc)
qed simp

lemma addReceipts_values:
  "has_values b S \<Longrightarrow> \<exists>b'. addReceipts D rs b = Inr b' \<and> has_values b' (S \<union> word_values D (receipt_words rs))"
proof (induction rs arbitrary: b S)
  case (Cons r rs)
  then show ?case
    using addLogs_values [OF Cons.prems, of D "Logs r"] by (fastforce simp: receipt_words_def Un_assoc)
qed (simp add: receipt_words_def)

lemma zero_bloom_values: "has_values zero_bloom {}"
  by (simp add: has_values_def zero_bloom_def)

lemma CreateBloom_values: "\<exists>b. CreateBloom D rs = Inr b \<and> has_values b (word_values D (receipt_words rs))"
  using addReceipts_values [OF zero_bloom_values] by (simp add: CreateBloom_def)

lemma has_values_unique:
  assumes "has_values b S" "has_values b' S"
  shows "b = b'"
proof (rule nth_equalityI)
  show "length b = length b'"
    using assms by (simp add: has_values_def)
  show "b ! i = b' ! i" if "i < length b" for i
    using assms that by (intro bit_eqI) (simp add: has_values_def)
qed

lemma testBytes_values:
  assumes "length b = BloomByteLength" "\<forall>iv\<in>set ivs. unat (fst iv) < BloomByteLength"
  shows "testBytes b ivs = Inr (\<forall>(i, v)\<in>set ivs. \<forall>j. bit v j \<longrightarrow> bit (b ! unat i) j)"
  using assms(2)
proof (induction ivs)
  case (Cons iv ivs)
  obtain i v where iv: "iv = (i, v)"
    by fastforce
  have "uint i < int (length b)"
    using Cons.prems assms(1) uint_less_of_unat [of i] by (simp add: iv)
  moreover have "v = v AND x \<longleftrightarrow> (\<forall>j. bit v j \<longrightarrow> bit x j)" for x
  proof
    show "v = v AND x \<Longrightarrow> \<forall>j. bit v j \<longrightarrow> bit x j"
      using bit_and_iff [of v x] by auto
    show "\<forall>j. bit v j \<longrightarrow> bit x j \<Longrightarrow> v = v AND x"
      by (rule bit_eqI) (auto simp: bit_and_iff)
  qed
  ultimately show ?case
    using Cons by (simp add: iv testByte_def go_index_def)
qed simp

lemma lookup_values:
  assumes "has_values b S"
  shows "BloomLookup D b w = Inr (\<forall>(i, v)\<in>set (bloomValues D w). \<forall>j. bit v j \<longrightarrow> bit (b ! unat i) j)"
  unfolding BloomLookup_def using assms bloomValues_index
  by (intro testBytes_values) (auto simp: has_values_def)

lemma lookup_member:
  assumes "has_values b (word_values D ws)" "w \<in> set ws"
  shows "BloomLookup D b w = Inr True"
proof -
  have "bit (b ! unat i) j" if "(i, v) \<in> set (bloomValues D w)" "bit v j" for i v j
    using assms that bloomValues_index [OF that(1)] by (fastforce simp: has_values_def word_values_def)
  then show ?thesis
    by (auto simp: lookup_values [OF assms(1)])
qed

section \<open>Properties\<close>

text \<open>C21: The bloom filter of a list of receipts never misses: building it and looking a word up never
  panic, the lookup finds the address and every topic of every log, and the filter depends on the set of the
  logs only, not on how they are spread over the receipts or in which order they come.\<close>

theorem bloom_no_false_negatives:
  "\<exists>bin. CreateBloom D receipts = Inr bin \<and> (\<forall>w. \<exists>t. BloomLookup D bin w = Inr t) \<and>
     (\<forall>r\<in>set receipts. \<forall>l\<in>set (Logs r). BloomLookup D bin (AddressBytes (log_Address l)) = Inr True \<and>
        (\<forall>t\<in>set (log_Topics l). BloomLookup D bin (HashBytes t) = Inr True)) \<and>
     (\<forall>rs. \<Union>(set ` Logs ` set rs) = \<Union>(set ` Logs ` set receipts) \<longrightarrow> CreateBloom D rs = Inr bin)"
proof -
  obtain bin where bin: "CreateBloom D receipts = Inr bin" "has_values bin (word_values D (receipt_words receipts))"
    using CreateBloom_values by blast
  have "CreateBloom D rs = Inr bin" if "\<Union>(set ` Logs ` set rs) = \<Union>(set ` Logs ` set receipts)" for rs
  proof -
    have "set (receipt_words rs) = set (receipt_words receipts)"
      using that by (simp add: receipt_words_def image_image)
    then show ?thesis
      using bin CreateBloom_values [of D rs] has_values_unique by (fastforce simp: word_values_def)
  qed
  moreover have "w \<in> set (receipt_words receipts)" if "r \<in> set receipts" "l \<in> set (Logs r)" "w \<in> set (log_words l)" for r l w
    using that by (auto simp: receipt_words_def)
  then have "BloomLookup D bin w = Inr True" if "r \<in> set receipts" "l \<in> set (Logs r)" "w \<in> set (log_words l)" for r l w
    using lookup_member [OF bin(2)] that by blast
  moreover have "\<exists>t. BloomLookup D bin w = Inr t" for w
    using lookup_values [OF bin(2)] by blast
  ultimately show ?thesis
    using bin(1) by (intro exI [of _ bin]) (simp add: log_words_def)
qed

text \<open>A block with one receipt of one log, whose only topic is 7.\<close>

definition sample_receipt :: Receipt where
  "sample_receipt = \<lparr>rcpt_Type = 2, PostState = [], Status = 1, CumulativeGasUsed = 21000, rcpt_Bloom = [],
     Logs = [\<lparr>log_Address = 5, log_Topics = [7], log_Data = [], log_BlockNumber = 1, log_TxHash = 0, log_TxIndex = 0,
       log_BlockHash = 0, log_Index = 0\<rparr>],
     rcpt_TxHash = 0, rcpt_ContractAddress = 0, rcpt_GasUsed = 21000, rcpt_BlockHash = 0, rcpt_BlockNumber = 1,
     rcpt_TransactionIndex = 0\<rparr>"

theorem bloom_no_false_negatives_witness:
  "\<exists>bin. CreateBloom \<lparr>Keccak256Hash = BytesToHash, OpenStorageTrie = (\<lambda>_ _ _. Inl []), ContractCode = (\<lambda>_ _. Inl [])\<rparr>
       [sample_receipt] = Inr bin \<and>
     BloomLookup \<lparr>Keccak256Hash = BytesToHash, OpenStorageTrie = (\<lambda>_ _ _. Inl []), ContractCode = (\<lambda>_ _. Inl [])\<rparr>
       bin (HashBytes 7) = Inr True"
  using bloom_no_false_negatives [of "\<lparr>Keccak256Hash = BytesToHash, OpenStorageTrie = (\<lambda>_ _ _. Inl []),
    ContractCode = (\<lambda>_ _. Inl [])\<rparr>" "[sample_receipt]"]
  by (clarsimp simp: sample_receipt_def)

end
