(* ===== verification/Rlp_Stream.thy ===== *)
theory Rlp_Stream
  imports Rlp_Codec
begin

text \<open>
  The streaming decoder of \<open>rlp/decode.go\<close> on an input slice, and the integer writer of
  \<open>rlp/encbuffer.go\<close> that has no counterpart in the splitting functions. A stream knows how many bytes
  are left of each open list and of the input, and checks every size it reads against them before it
  allocates or reads anything. The lemmas show that each operation reads the canonical encoding of its
  value, nothing else, and never panics.
\<close>

section \<open>Big integers\<close>

text \<open>\<open>Bits\<close> of a \<open>big.Int\<close>: the 64-bit words of its absolute value, least significant first.\<close>

fun big_Bits :: "nat \<Rightarrow> uint64 list" where
  "big_Bits n = (if n = 0 then [] else of_nat n # big_Bits (n div 2 ^ 64))"

declare big_Bits.simps [simp del]

definition big_Uint64 :: "int \<Rightarrow> uint64" where
  "big_Uint64 i = of_nat (nat \<bar>i\<bar>)"

text \<open>The loops of \<open>writeBigInt\<close>: \<open>index\<close> bytes of the buffer are still to be filled, from the end.\<close>

primrec putWord :: "nat \<Rightarrow> uint64 \<Rightarrow> nat \<times> bytes \<Rightarrow> nat \<times> bytes" where
  "putWord 0 d b = b"
| "putWord (Suc j) d b =
     (case b of (index, buf) \<Rightarrow>
        if 0 < index then putWord j (drop_bit 8 d) (index - 1, buf[index - 1 := ucast d]) else b)"

definition writeBigInt :: "int \<Rightarrow> encBuffer \<Rightarrow> encBuffer" where
  "writeBigInt i buf =
     (let bitlen = BitLen i in
      if bitlen \<le> 64 then writeUint64 (big_Uint64 i) buf
      else let len = nat ((bitlen + 7) div 8);
               buf = encodeStringHeader len buf
           in buf\<lparr>str := str buf @ snd (fold (putWord 8) (big_Bits (nat \<bar>i\<bar>)) (len, replicate len 0))\<rparr>)"

section \<open>The stream\<close>

text \<open>\<open>s_r\<close> is the input that is left, \<open>s_stack\<close> the bytes left of the open lists, innermost first. The
  scratch buffer \<open>uintbuf\<close> is overwritten before it is read, and left out.\<close>

record Stream =
  s_r :: bytes
  s_remaining :: uint64
  s_size :: uint64
  s_kinderr :: "rlperror option"
  s_stack :: "uint64 list"
  s_kind :: "kind option"
  s_byteval :: byte
  s_limited :: bool

type_synonym 'a sres = "((rlperror + 'a) \<times> Stream) go"

definition thenS :: "'a sres \<Rightarrow> ('a \<Rightarrow> Stream \<Rightarrow> 'b sres) \<Rightarrow> 'b sres" where
  "thenS m f = andThen m (\<lambda>(r, s). case r of Inl e \<Rightarrow> Inr (Inl e, s) | Inr a \<Rightarrow> f a s)"

definition Stream_Reset :: "bytes \<Rightarrow> uint64 \<Rightarrow> Stream" where
  "Stream_Reset r inputLimit =
     \<lparr>s_r = r, s_remaining = inputLimit, s_size = 0, s_kinderr = None, s_stack = [], s_kind = None, s_byteval = 0,
      s_limited = 0 < inputLimit\<rparr>"

definition listLimit :: "Stream \<Rightarrow> bool \<times> uint64" where
  "listLimit s = (case s_stack s of [] \<Rightarrow> (False, 0) | limit # _ \<Rightarrow> (True, limit))"

definition willRead :: "uint64 \<Rightarrow> Stream \<Rightarrow> rlperror option \<times> Stream" where
  "willRead n s =
     (let s = s\<lparr>s_kind := None\<rparr>; (inList, limit) = listLimit s in
      if inList \<and> limit < n then (Some ErrElemTooLarge, s)
      else let s = (if inList then s\<lparr>s_stack := (limit - n) # tl (s_stack s)\<rparr> else s) in
        if \<not> s_limited s then (None, s)
        else if s_remaining s < n then (Some ErrValueTooLarge, s)
        else (None, s\<lparr>s_remaining := s_remaining s - n\<rparr>))"

definition readByte :: "Stream \<Rightarrow> (rlperror + byte) \<times> Stream" where
  "readByte s =
     (case willRead 1 s of
        (Some e, s) \<Rightarrow> (Inl e, s)
      | (None, s) \<Rightarrow> (case s_r s of [] \<Rightarrow> (Inl ErrUnexpectedEOF, s) | b # bs \<Rightarrow> (Inr b, s\<lparr>s_r := bs\<rparr>)))"

text \<open>\<open>readFull\<close> fills a buffer of \<open>n\<close> bytes. The reader gives all it has before it reports the end.\<close>

definition readFull :: "nat \<Rightarrow> Stream \<Rightarrow> (rlperror + bytes) \<times> Stream" where
  "readFull n s =
     (case willRead (of_nat n) s of
        (Some e, s) \<Rightarrow> (Inl e, s)
      | (None, s) \<Rightarrow>
          if length (s_r s) < n then (Inl ErrUnexpectedEOF, s\<lparr>s_r := []\<rparr>)
          else (Inr (take n (s_r s)), s\<lparr>s_r := drop n (s_r s)\<rparr>))"

definition readUint :: "byte \<Rightarrow> Stream \<Rightarrow> uint64 sres" where
  "readUint sz s =
     (if sz = 0 then Inr (Inr 0, s\<lparr>s_kind := None\<rparr>)
      else if sz = 1 then Inr (case readByte s of (Inl e, s) \<Rightarrow> (Inl e, s) | (Inr b, s) \<Rightarrow> (Inr (ucast b), s))
      else if 8 < sz then Inl IndexOutOfRange
      else Inr (case readFull (unat sz) s of
          (Inl e, s) \<Rightarrow> (Inl e, s)
        | (Inr buffer, s) \<Rightarrow>
            if buffer ! 0 = 0 then (Inl ErrCanonSize, s) else (Inr (of_nat (be_nat buffer)), s)))"

text \<open>The size of a value longer than 55 bytes.\<close>

definition readLongSize :: "kind \<Rightarrow> byte \<Rightarrow> Stream \<Rightarrow> ((kind \<times> uint64 \<times> rlperror option) \<times> Stream) go" where
  "readLongSize k sz s =
     andThen (readUint sz s) (\<lambda>(r, s).
     Inr (case r of
        Inl e \<Rightarrow> ((k, 0, Some e), s)
      | Inr n \<Rightarrow> ((k, n, if n < 56 then Some ErrCanonSize else None), s)))"

definition s_readKind :: "Stream \<Rightarrow> ((kind \<times> uint64 \<times> rlperror option) \<times> Stream) go" where
  "s_readKind s =
     (case readByte s of
        (Inl e, s) \<Rightarrow>
          Inr ((Byte, 0, Some (if s_stack s = [] \<and> e \<in> {ErrUnexpectedEOF, ErrValueTooLarge} then EOF else e)), s)
      | (Inr b, s) \<Rightarrow>
          let s = s\<lparr>s_byteval := 0\<rparr> in
          if b < 0x80 then Inr ((Byte, 0, None), s\<lparr>s_byteval := b\<rparr>)
          else if b < 0xB8 then Inr ((String, ucast (b - 0x80), None), s)
          else if b < 0xC0 then readLongSize String (b - 0xB7) s
          else if b < 0xF8 then Inr ((List, ucast (b - 0xC0), None), s)
          else readLongSize List (b - 0xF7) s)"

definition cachedKind :: "Stream \<Rightarrow> rlperror + (kind \<times> uint64)" where
  "cachedKind s =
     (case s_kinderr s of Some e \<Rightarrow> Inl e | None \<Rightarrow> Inr (case s_kind s of Some k \<Rightarrow> k | None \<Rightarrow> Byte, s_size s))"

text \<open>The size of the value ahead is checked against the list and the input.\<close>

definition limitKind :: "bool \<times> uint64 \<Rightarrow> (kind \<times> uint64 \<times> rlperror option) \<times> Stream \<Rightarrow> (rlperror + (kind \<times> uint64)) \<times> Stream" where
  "limitKind lim r =
     (case r of ((k, sz, err), s) \<Rightarrow>
      let err = (if err \<noteq> None then err
                 else if fst lim \<and> snd lim < sz then Some ErrElemTooLarge
                 else if s_limited s \<and> s_remaining s < sz then Some ErrValueTooLarge
                 else None);
          s = s\<lparr>s_kind := Some k, s_size := sz, s_kinderr := err\<rparr>
      in (cachedKind s, s))"

definition Kind :: "Stream \<Rightarrow> (kind \<times> uint64) sres" where
  "Kind s =
     (if s_kind s \<noteq> None then Inr (cachedKind s, s)
      else if listLimit s = (True, 0) then Inr (Inl EOL, s)
      else andThen (s_readKind s) (\<lambda>r. Inr (limitKind (listLimit s) r)))"

text \<open>\<open>make([]byte, size)\<close>.\<close>

definition makeBuffer :: "uint64 \<Rightarrow> nat go" where
  "makeBuffer sz = (if 2 ^ 63 \<le> unat sz then Inl (PanicMsg ''makeslice: len out of range'') else Inr (unat sz))"

definition Bytes :: "Stream \<Rightarrow> bytes sres" where
  "Bytes s =
     thenS (Kind s) (\<lambda>(k, sz) s.
       case k of
         Byte \<Rightarrow> Inr (Inr [s_byteval s], s\<lparr>s_kind := None\<rparr>)
       | String \<Rightarrow>
           andThen (makeBuffer sz) (\<lambda>n.
           Inr (case readFull n s of
               (Inl e, s) \<Rightarrow> (Inl e, s)
             | (Inr b, s) \<Rightarrow> if sz = 1 \<and> b ! 0 < 128 then (Inl ErrCanonSize, s) else (Inr b, s)))
       | List \<Rightarrow> Inr (Inl ErrExpectedString, s))"

text \<open>\<open>ReadBytes\<close> and the decoder of byte arrays read into a buffer of a given length.\<close>

definition ReadBytes :: "nat \<Rightarrow> Stream \<Rightarrow> bytes sres" where
  "ReadBytes len s =
     thenS (Kind s) (\<lambda>(k, sz) s. Inr (
       case k of
         Byte \<Rightarrow>
           if len \<noteq> 1 then (Inl (decodeError ''input value has wrong size''), s)
           else (Inr [s_byteval s], s\<lparr>s_kind := None\<rparr>)
       | String \<Rightarrow>
           if of_nat len \<noteq> sz then (Inl (decodeError ''input value has wrong size''), s)
           else (case readFull len s of
               (Inl e, s) \<Rightarrow> (Inl e, s)
             | (Inr b, s) \<Rightarrow> if sz = 1 \<and> b ! 0 < 128 then (Inl ErrCanonSize, s) else (Inr b, s))
       | List \<Rightarrow> (Inl ErrExpectedString, s)))"

definition s_uint :: "nat \<Rightarrow> Stream \<Rightarrow> uint64 sres" where
  "s_uint maxbits s =
     thenS (Kind s) (\<lambda>(k, sz) s.
       case k of
         Byte \<Rightarrow>
           Inr (if s_byteval s = 0 then (Inl ErrCanonInt, s) else (Inr (ucast (s_byteval s)), s\<lparr>s_kind := None\<rparr>))
       | String \<Rightarrow>
           if of_nat (maxbits div 8) < sz then Inr (Inl errUintOverflow, s)
           else andThen (readUint (ucast sz) s) (\<lambda>(r, s). Inr (
             case r of
               Inl e \<Rightarrow> (Inl (if e = ErrCanonSize then ErrCanonInt else e), s)
             | Inr v \<Rightarrow> if 0 < sz \<and> v < 128 then (Inl ErrCanonSize, s) else (Inr v, s)))
       | List \<Rightarrow> Inr (Inl ErrExpectedString, s))"

definition s_Bool :: "Stream \<Rightarrow> bool sres" where
  "s_Bool s =
     thenS (s_uint 8 s) (\<lambda>num s. Inr (
       if num = 0 then (Inr False, s) else if num = 1 then (Inr True, s)
       else (Inl (decodeError ''invalid boolean value''), s)))"

definition s_List :: "Stream \<Rightarrow> uint64 sres" where
  "s_List s =
     thenS (Kind s) (\<lambda>(k, sz) s. Inr (
       if k \<noteq> List then (Inl ErrExpectedList, s)
       else let (inList, limit) = listLimit s;
                s = (if inList then s\<lparr>s_stack := (limit - sz) # tl (s_stack s)\<rparr> else s)
            in (Inr sz, s\<lparr>s_stack := sz # s_stack s, s_kind := None, s_size := 0\<rparr>)))"

definition ListEnd :: "Stream \<Rightarrow> unit sres" where
  "ListEnd s =
     (let (inList, limit) = listLimit s in
      Inr (if \<not> inList then (Inl errNotInList, s)
           else if 0 < limit then (Inl errNotAtEOL, s)
           else (Inr (), s\<lparr>s_stack := tl (s_stack s), s_kind := None, s_size := 0\<rparr>)))"

definition decodeBigInt :: "Stream \<Rightarrow> int sres" where
  "decodeBigInt s =
     thenS (Kind s) (\<lambda>(k, sz) s.
     thenS
       (case k of
          List \<Rightarrow> Inr (Inl ErrExpectedString, s)
        | Byte \<Rightarrow> Inr (Inr [s_byteval s], s\<lparr>s_kind := None\<rparr>)
        | String \<Rightarrow>
            if sz = 0 then Inr (Inr [], s\<lparr>s_kind := None\<rparr>)
            else if sz \<le> 32 then
              Inr (case readFull (unat sz) s of
                  (Inl e, s) \<Rightarrow> (Inl e, s)
                | (Inr b, s) \<Rightarrow> if sz = 1 \<and> b ! 0 < 128 then (Inl ErrCanonSize, s) else (Inr b, s))
            else andThen (makeBuffer sz) (\<lambda>n. Inr (readFull n s)))
       (\<lambda>buffer s. Inr (
          if 0 < length buffer \<and> buffer ! 0 = 0 then (Inl ErrCanonInt, s) else (Inr (int (be_nat buffer)), s))))"

section \<open>Reading\<close>

text \<open>The invariant of a stream over a slice, and the effect of reading \<open>n\<close> bytes.\<close>

definition stream_ok :: "Stream \<Rightarrow> bool" where
  "stream_ok s \<longleftrightarrow> s_limited s \<and> unat (s_remaining s) = length (s_r s) \<and> length (s_r s) < 2 ^ 63"

definition room :: "nat \<Rightarrow> Stream \<Rightarrow> bool" where
  "room n s \<longleftrightarrow> (case s_stack s of [] \<Rightarrow> True | l # _ \<Rightarrow> n \<le> unat l)"

definition adv :: "nat \<Rightarrow> uint64 list \<Rightarrow> uint64 list" where
  "adv n st = (case st of [] \<Rightarrow> [] | l # ls \<Rightarrow> (l - of_nat n) # ls)"

definition reads :: "nat \<Rightarrow> Stream \<Rightarrow> Stream \<Rightarrow> bool" where
  "reads n s s' \<longleftrightarrow> n \<le> length (s_r s) \<and> room n s \<and> s_r s' = drop n (s_r s) \<and> s_stack s' = adv n (s_stack s) \<and>
     stream_ok s'"

lemma stream_ok_fields [simp]:
  "stream_ok (s\<lparr>s_kind := k\<rparr>) = stream_ok s" "stream_ok (s\<lparr>s_size := n\<rparr>) = stream_ok s"
  "stream_ok (s\<lparr>s_kinderr := e\<rparr>) = stream_ok s" "stream_ok (s\<lparr>s_byteval := b\<rparr>) = stream_ok s"
  "stream_ok (s\<lparr>s_stack := st\<rparr>) = stream_ok s"
  by (simp_all add: stream_ok_def)

lemma reads_fields [simp]:
  "reads n s (s'\<lparr>s_kind := k\<rparr>) = reads n s s'" "reads n s (s'\<lparr>s_size := m\<rparr>) = reads n s s'"
  "reads n s (s'\<lparr>s_kinderr := e\<rparr>) = reads n s s'" "reads n s (s'\<lparr>s_byteval := b\<rparr>) = reads n s s'"
  by (simp_all add: reads_def)

lemma reads_ok: "reads n s s' \<Longrightarrow> stream_ok s'"
  by (simp add: reads_def)

lemma reads_0: "stream_ok s \<Longrightarrow> reads 0 s s"
  by (simp add: reads_def room_def adv_def split: list.split)

lemma reads_trans:
  assumes "reads m s t" "reads n t u"
  shows "reads (m + n) s u"
proof -
  have "room (m + n) s \<and> adv (m + n) (s_stack s) = adv n (s_stack t)"
  proof (cases "s_stack s")
    case (Cons l ls)
    then have m: "m \<le> unat l" and n: "n \<le> unat (l - of_nat m)"
      using assms by (simp_all add: reads_def room_def adv_def)
    have "unat (of_nat m :: uint64) = m"
      using m unat_u64_less [of l] by (simp add: unat_of_nat)
    then have "unat (l - of_nat m) = unat l - m"
      using m by (simp add: u64_simps)
    then show ?thesis
      using assms m n Cons by (simp add: reads_def room_def adv_def algebra_simps)
  qed (use assms in \<open>simp add: reads_def room_def adv_def\<close>)
  then show ?thesis
    using assms by (auto simp: reads_def add.commute)
qed

lemma willRead_result:
  assumes "stream_ok s" "n < 2 ^ 64"
  shows "if n \<le> length (s_r s) \<and> room n s
    then \<exists>s'. willRead (of_nat n) s = (None, s') \<and> s_kind s' = None \<and> s_r s' = s_r s \<and> s_byteval s' = s_byteval s \<and>
      reads n s (s'\<lparr>s_r := drop n (s_r s)\<rparr>)
    else \<exists>e s'. willRead (of_nat n) s = (Some e, s') \<and> e \<in> {ErrElemTooLarge, ErrValueTooLarge}"
proof -
  have u: "unat (of_nat n :: uint64) = n"
    using assms(2) by (simp add: unat_of_nat)
  have "n \<le> length (s_r s) \<Longrightarrow> unat (s_remaining s - of_nat n) = length (s_r s) - n"
    using assms(1) u by (simp add: stream_ok_def u64_simps)
  then show ?thesis
    using assms u
    by (cases "s_stack s")
      (auto simp: willRead_def listLimit_def room_def adv_def reads_def stream_ok_def word_less_nat_alt Let_def)
qed

lemma readByte_result:
  assumes "stream_ok s"
  shows "if s_r s \<noteq> [] \<and> room 1 s
    then \<exists>s'. readByte s = (Inr (s_r s ! 0), s') \<and> s_kind s' = None \<and> reads 1 s s'
    else \<exists>e s'. readByte s = (Inl e, s') \<and> e \<noteq> EOL"
  using willRead_result [OF assms, of 1]
  by (cases "s_r s") (auto simp: readByte_def Suc_le_eq split: if_splits)

lemma readFull_result:
  assumes "stream_ok s" "n < 2 ^ 64"
  shows "if n \<le> length (s_r s) \<and> room n s
    then \<exists>s'. readFull n s = (Inr (take n (s_r s)), s') \<and> s_kind s' = None \<and> reads n s s'
    else \<exists>e s'. readFull n s = (Inl e, s') \<and> e \<noteq> EOL"
  using willRead_result [OF assms] by (auto simp: readFull_def split: if_splits)

section \<open>Headers\<close>

lemma be_min_props: "be_nat (be_min x) = x" "be_min x \<noteq> []" "x \<noteq> 0 \<Longrightarrow> be_min x ! 0 \<noteq> 0"
proof (induction x rule: be_min.induct)
  case (1 x)
  {
    case 1
    then show ?case
      using "1.IH"(1) by (cases "x < 256") (simp_all add: be_min.simps [of x] be_nat_append)
  next
    case 2
    then show ?case
      by (simp add: be_min.simps [of x])
  next
    case 3
    show ?case
    proof (cases "x < 256")
      case True
      then show ?thesis
        using 3 by (simp add: be_min.simps [of x] word_unat_eq_iff)
    next
      case False
      then have "x div 256 \<noteq> 0"
        by (simp add: div_eq_0_iff)
      then show ?thesis
        using "1.IH"(2,3) False by (simp add: be_min.simps [of x] nth_append)
    qed
  }
qed

lemma be_min_be_nat:
  assumes "bs \<noteq> []" "bs ! 0 \<noteq> 0 \<or> length bs = 1"
  shows "be_min (be_nat bs) = bs"
proof -
  obtain b bs' where bs: "bs = b # bs'"
    using assms(1) by (cases bs) auto
  have "256 ^ length bs' \<le> be_nat bs" if "b \<noteq> 0"
    using that by (simp add: bs trans_le_add1 word_unat_eq_iff Suc_le_eq)
  then have "sig_bytes (length bs) (be_nat bs)"
    using be_nat_less [of bs] assms(2) by (auto simp: sig_bytes_def bs)
  from be_min_sig [OF this] show ?thesis
    by (simp add: be_bytes_be_nat)
qed

lemma readUint_result:
  assumes ok: "stream_ok s" and m: "1 \<le> m" "m \<le> 8"
  shows "if m \<le> length (s_r s) \<and> room m s \<and> (m = 1 \<or> s_r s ! 0 \<noteq> 0)
    then \<exists>s'. readUint (of_nat m) s = Inr (Inr (of_nat (be_nat (take m (s_r s)))), s') \<and> s_kind s' = None \<and> reads m s s'
    else \<exists>e s'. readUint (of_nat m) s = Inr (Inl e, s') \<and> e \<noteq> EOL"
proof (cases "m = 1")
  case True
  have "s_r s \<noteq> [] \<Longrightarrow> take 1 (s_r s) = [s_r s ! 0]"
    by (cases "s_r s") auto
  then show ?thesis
    using readByte_result [OF ok] True by (auto simp: readUint_def Suc_le_eq split: if_splits)
next
  case False
  have u: "unat (of_nat m :: byte) = m"
    using m by simp
  have "(of_nat m :: byte) \<noteq> 0" "(of_nat m :: byte) \<noteq> 1" "\<not> 8 < (of_nat m :: byte)"
    using m False u by (auto simp: byte_less word_unat_eq_iff)
  then show ?thesis
    using readFull_result [OF ok, of m] m False unfolding readUint_def u by (auto split: if_splits)
qed

lemma be_word_size: "length bs \<le> 8 \<Longrightarrow> unat (of_nat (be_nat bs) :: uint64) = be_nat bs"
proof -
  assume "length bs \<le> 8"
  then have "(256 :: nat) ^ length bs \<le> 256 ^ 8"
    by (intro power_increasing) auto
  then show ?thesis
    using be_nat_less [of bs] by (simp add: unat_of_nat)
qed

lemma readLongSize_result:
  assumes ok: "stream_ok s" and m: "1 \<le> m" "m \<le> 8"
  shows "\<exists>n err s'. readLongSize k (of_nat m) s = Inr ((k, n, err), s') \<and> err \<noteq> Some EOL \<and>
    (err = None \<longrightarrow> 56 \<le> unat n \<and> reads m s s' \<and> take m (s_r s) = be_min (unat n))"
proof (cases "m \<le> length (s_r s) \<and> room m s \<and> (m = 1 \<or> s_r s ! 0 \<noteq> 0)")
  case True
  let ?b = "take m (s_r s)"
  have "?b \<noteq> []" "?b ! 0 \<noteq> 0 \<or> length ?b = 1"
    using True m by (auto simp: min_def)
  then have "be_min (be_nat ?b) = ?b"
    using be_min_be_nat by blast
  then show ?thesis
    using readUint_result [OF ok m] True be_word_size [of ?b] m
    by (auto simp: readLongSize_def word_less_nat_alt)
next
  case False
  then show ?thesis
    using readUint_result [OF ok m] by (fastforce simp: readLongSize_def)
qed

lemma readLongSize_header:
  assumes ok: "stream_ok s" and r: "s_r s = be_min n @ bs" and n: "56 \<le> n" "n < 2 ^ 64" and room: "room (length (be_min n)) s"
  shows "\<exists>s'. readLongSize k (of_nat (length (be_min n))) s = Inr ((k, of_nat n, None), s') \<and> reads (length (be_min n)) s s'"
proof -
  have l: "1 \<le> length (be_min n)" "length (be_min n) \<le> 8"
    using be_min_props(2) [of n] sig_bytes_be_min(3) [OF n(2)] by (auto simp: Suc_le_eq)
  have "s_r s ! 0 \<noteq> 0"
    using be_min_props(2,3) [of n] n by (simp add: r nth_append)
  then show ?thesis
    using readUint_result [OF ok l] room n by (auto simp: readLongSize_def r be_min_props(1) word_less_nat_alt unat_of_nat)
qed

definition header_of :: "kind \<Rightarrow> uint64 \<Rightarrow> byte \<Rightarrow> bytes" where
  "header_of k n b =
     (case k of Byte \<Rightarrow> [b] | String \<Rightarrow> head 0x80 0xB7 (unat n) | List \<Rightarrow> head 0xC0 0xF7 (unat n))"

text \<open>What a successful \<open>readKind\<close> has read.\<close>

definition read_header :: "kind \<Rightarrow> uint64 \<Rightarrow> Stream \<Rightarrow> Stream \<Rightarrow> bool" where
  "read_header k n s s' \<longleftrightarrow>
     (let h = header_of k n (s_byteval s') in
      reads (length h) s s' \<and> take (length h) (s_r s) = h \<and> (k = Byte \<longrightarrow> unat (s_byteval s') < 128 \<and> n = 0))"

lemma long_header:
  assumes ok: "stream_ok s" and b: "readByte s = (Inr b, s1)" "reads 1 s s1" "s_r s ! 0 = b" "s_r s \<noteq> []"
    and m: "1 \<le> m" "m \<le> 8" "b = large + of_nat m"
    and k: "(k, small, large) = (String, 0x80, 0xB7) \<or> (k, small, large) = (List, 0xC0, 0xF7)"
  shows "\<exists>n err s'. readLongSize k (of_nat m) (s1\<lparr>s_byteval := 0\<rparr>) = Inr ((k, n, err), s') \<and> err \<noteq> Some EOL \<and>
    (err = None \<longrightarrow> read_header k n s s')"
proof -
  have "stream_ok (s1\<lparr>s_byteval := 0\<rparr>)"
    using reads_ok [OF b(2)] by simp
  from readLongSize_result [OF this m(1,2), of k] obtain n err s' where
    r: "readLongSize k (of_nat m) (s1\<lparr>s_byteval := 0\<rparr>) = Inr ((k, n, err), s')" "err \<noteq> Some EOL"
    "err = None \<Longrightarrow> 56 \<le> unat n \<and> reads m (s1\<lparr>s_byteval := 0\<rparr>) s' \<and> take m (s_r s1) = be_min (unat n)"
    by auto
  have "read_header k n s s'" if "err = None"
  proof -
    note g = r(3) [OF that]
    have "m \<le> length (s_r s1)"
      using g by (simp add: reads_def)
    then have l: "length (be_min (unat n)) = m"
      using g by (metis length_take min.absorb2)
    have r1: "s_r s1 = tl (s_r s)"
      using b(2) by (simp add: reads_def drop_Suc)
    have h: "header_of k n x = b # be_min (unat n)" for x
      using k g l m(3) by (auto simp: header_of_def head_def Let_def)
    have "reads m s1 s'"
      using g by (simp add: reads_def room_def)
    then have "reads (Suc m) s s'"
      using reads_trans [OF b(2)] by simp
    moreover have "take (Suc m) (s_r s) = b # be_min (unat n)"
      using g b(3,4) r1 by (cases "s_r s") auto
    ultimately show ?thesis
      using l k by (auto simp: read_header_def h)
  qed
  then show ?thesis
    using r by blast
qed

lemma byte_tag: "unat (b :: byte) = t + n \<Longrightarrow> b = of_nat t + of_nat n"
  using unat_byte_less [of b] by (simp add: word_unat_eq_iff flip: of_nat_add)

lemma s_readKind_result:
  assumes ok: "stream_ok s"
  shows "\<exists>k n err s'. s_readKind s = Inr ((k, n, err), s') \<and> err \<noteq> Some EOL \<and> (err = None \<longrightarrow> read_header k n s s')"
proof (cases "s_r s \<noteq> [] \<and> room 1 s")
  case False
  then show ?thesis
    using readByte_result [OF ok] by (auto simp: s_readKind_def split: if_splits)
next
  case True
  then obtain s1 where s1: "readByte s = (Inr (s_r s ! 0), s1)" "reads 1 s s1"
    using readByte_result [OF ok] by auto
  define b where "b = s_r s ! 0"
  have r: "take 1 (s_r s) = [b]"
    using True by (cases "s_r s") (auto simp: b_def)
  note long = long_header [OF ok s1(1)[folded b_def] s1(2) b_def [symmetric]]
  show ?thesis
  proof (cases b rule: byte_ranges)
    case 1
    then show ?thesis
      using s1 r by (auto simp: s_readKind_def b_def byte_less read_header_def header_of_def)
  next
    case (2 n)
    have "ucast (b - 0x80) = (of_nat n :: uint64)" "b = 0x80 + of_nat n"
      using byte_tag [of b 128 n] 2 by (simp_all add: ucast_u64_byte unat_of_nat)
    moreover have "unat (of_nat n :: uint64) = n"
      using 2 by (simp add: unat_of_nat)
    ultimately show ?thesis
      using s1 r 2 by (auto simp: s_readKind_def b_def byte_less read_header_def header_of_def head_def)
  next
    case (3 m)
    have "b = 0xB7 + of_nat m"
      using byte_tag [of b 183 m] 3 by simp
    then show ?thesis
      using long [of m "0xB7" String "0x80"] s1 True 3
      by (simp add: s_readKind_def b_def byte_less) blast
  next
    case (4 n)
    have "ucast (b - 0xC0) = (of_nat n :: uint64)" "b = 0xC0 + of_nat n"
      using byte_tag [of b 192 n] 4 by (simp_all add: ucast_u64_byte unat_of_nat)
    moreover have "unat (of_nat n :: uint64) = n"
      using 4 by (simp add: unat_of_nat)
    ultimately show ?thesis
      using s1 r 4 by (auto simp: s_readKind_def b_def byte_less read_header_def header_of_def head_def)
  next
    case (5 m)
    have "b = 0xF7 + of_nat m"
      using byte_tag [of b 247 m] 5 by simp
    then show ?thesis
      using long [of m "0xF7" List "0xC0"] s1 True 5
      by (simp add: s_readKind_def b_def byte_less) blast
  qed
qed

lemma header_nonempty: "0 < length (header_of k n b)"
  using length_head(2) by (simp add: header_of_def split: kind.split)

lemma tagged_header:
  assumes ok: "stream_ok s" and k: "(k, small, large) = (String, 0x80, 0xB7) \<or> (k, small, large) = (List, 0xC0, 0xF7)"
    and r: "s_r s = head small large (unat n) @ bs" and room: "room (length (head small large (unat n))) s"
    and s1: "readByte s = (Inr (head small large (unat n) ! 0), s1)" "reads 1 s s1"
  shows "\<exists>s'. s_readKind s = Inr ((k, n, None), s')"
proof (cases "unat n < 56")
  case True
  then have "unat (small + of_nat (unat n) :: byte) = unat small + unat n" "head small large (unat n) ! 0 = small + of_nat (unat n)"
    using unat_tag(1) [of "unat n" small] k by (auto simp: head_def)
  moreover have "ucast (small + of_nat (unat n) - small :: byte) = n"
    using True by (simp add: u64_eq_iff ucast_u64_byte unat_of_nat del: of_nat_unat)
  ultimately show ?thesis
    using s1(1) True k by (auto simp: s_readKind_def byte_less simp del: of_nat_unat)
next
  case False
  let ?m = "length (be_min (unat n))"
  have n: "56 \<le> unat n" "unat n < 2 ^ 64"
    using False unat_u64_less [of n] by simp_all
  have h: "head small large (unat n) = (large + of_nat ?m) # be_min (unat n)"
    using False by (simp add: head_def Let_def)
  have m: "1 \<le> ?m" "?m \<le> 8"
    using be_min_props(2) [of "unat n"] sig_bytes_be_min(3) [OF n(2)] by (auto simp: Suc_le_eq)
  have u: "unat (large + of_nat ?m :: byte) = unat large + ?m"
    using m k by (auto intro!: unat_tag)
  have "stream_ok (s1\<lparr>s_byteval := 0\<rparr>)" "s_r (s1\<lparr>s_byteval := 0\<rparr>) = be_min (unat n) @ bs"
    using s1(2) by (auto simp: reads_def r h)
  moreover have "room ?m (s1\<lparr>s_byteval := 0\<rparr>)"
  proof (cases "s_stack s")
    case (Cons l ls)
    then have "Suc ?m \<le> unat l"
      using room by (simp add: room_def h)
    then show ?thesis
      using s1(2) Cons by (simp add: reads_def room_def adv_def u64_simps)
  qed (use s1(2) in \<open>simp add: reads_def room_def adv_def\<close>)
  ultimately obtain s' where "readLongSize k (of_nat ?m) (s1\<lparr>s_byteval := 0\<rparr>) = Inr ((k, of_nat (unat n), None), s')"
    using readLongSize_header [of _ "unat n" bs k] n by blast
  then show ?thesis
    using s1(1) k u m be_min_props(2) [of "unat n"] by (auto simp: s_readKind_def h byte_less)
qed

lemma s_readKind_header:
  assumes ok: "stream_ok s" and r: "s_r s = header_of k n b @ bs" and room: "room (length (header_of k n b)) s"
    and byte: "k = Byte \<Longrightarrow> unat b < 128 \<and> n = 0"
  shows "\<exists>s'. s_readKind s = Inr ((k, n, None), s') \<and> read_header k n s s' \<and> (k = Byte \<longrightarrow> s_byteval s' = b)"
proof -
  let ?h = "header_of k n b"
  have "s_r s \<noteq> [] \<and> room 1 s"
    using header_nonempty [of k n b] room
    by (auto simp: r room_def simp del: length_greater_0_conv split: list.splits)
  then obtain s1 where s1: "readByte s = (Inr (?h ! 0), s1)" "reads 1 s s1"
    using readByte_result [OF ok] header_nonempty [of k n b] by (auto simp: r nth_append)
  have "\<exists>s'. s_readKind s = Inr ((k, n, None), s') \<and> (k = Byte \<longrightarrow> s_byteval s' = b)"
  proof (cases k)
    case Byte
    then show ?thesis
      using s1 byte by (simp add: s_readKind_def header_of_def byte_less)
  next
    case String
    then show ?thesis
      using tagged_header [OF ok, of String "0x80" "0xB7" n bs s1] s1 r room by (simp add: header_of_def)
  next
    case List
    then show ?thesis
      using tagged_header [OF ok, of List "0xC0" "0xF7" n bs s1] s1 r room by (simp add: header_of_def)
  qed
  then show ?thesis
    using s_readKind_result [OF ok] by auto
qed

section \<open>The kind of the next value\<close>

definition fresh :: "Stream \<Rightarrow> bool" where
  "fresh s \<longleftrightarrow> stream_ok s \<and> s_kind s = None"

definition at_end :: "Stream \<Rightarrow> bool" where
  "at_end s \<longleftrightarrow> (case s_stack s of [] \<Rightarrow> False | l # _ \<Rightarrow> l = 0)"

definition ahead :: "kind \<Rightarrow> uint64 \<Rightarrow> Stream \<Rightarrow> Stream \<Rightarrow> bool" where
  "ahead k n s s' \<longleftrightarrow> read_header k n s s' \<and> s_kind s' = Some k \<and> s_size s' = n \<and> s_kinderr s' = None \<and>
     unat n \<le> length (s_r s')"

lemma read_header_fields [simp]:
  "read_header k n s (s'\<lparr>s_kind := x\<rparr>) = read_header k n s s'" "read_header k n s (s'\<lparr>s_size := m\<rparr>) = read_header k n s s'"
  "read_header k n s (s'\<lparr>s_kinderr := e\<rparr>) = read_header k n s s'"
  by (simp_all add: read_header_def)

lemma Kind_EOL: "s_kind s = None \<Longrightarrow> at_end s \<Longrightarrow> Kind s = Inr (Inl EOL, s)"
  by (auto simp: Kind_def at_end_def listLimit_def split: list.splits)

lemma Kind_result:
  assumes "fresh s" "\<not> at_end s"
  shows "\<exists>r s'. Kind s = Inr (r, s') \<and> r \<noteq> Inl EOL \<and> (\<forall>k n. r = Inr (k, n) \<longrightarrow> ahead k n s s')"
proof -
  have ok: "stream_ok s" "s_kind s = None"
    using assms(1) by (simp_all add: fresh_def)
  obtain k n err s' where r: "s_readKind s = Inr ((k, n, err), s')" "err \<noteq> Some EOL" "err = None \<Longrightarrow> read_header k n s s'"
    using s_readKind_result [OF ok(1)] by blast
  have "err = None \<Longrightarrow> stream_ok s'"
    using r(3) reads_ok by (auto simp: read_header_def Let_def)
  moreover have "Kind s = Inr (limitKind (listLimit s) ((k, n, err), s'))"
    using assms(2) ok(2) r(1) by (auto simp: Kind_def listLimit_def at_end_def split: list.splits)
  ultimately show ?thesis
    using r(2,3)
    by (cases err) (auto simp: limitKind_def cachedKind_def ahead_def stream_ok_def word_less_nat_alt Let_def)
qed

lemma Kind_header:
  assumes f: "fresh s" and r: "s_r s = header_of k n b @ bs" "unat n \<le> length bs"
    and room: "room (length (header_of k n b) + unat n) s" and byte: "k = Byte \<Longrightarrow> unat b < 128 \<and> n = 0"
  shows "\<exists>s'. Kind s = Inr (Inr (k, n), s') \<and> ahead k n s s' \<and> (k = Byte \<longrightarrow> s_byteval s' = b)"
proof -
  have ok: "stream_ok s" "s_kind s = None"
    using f by (simp_all add: fresh_def)
  have "room (length (header_of k n b)) s"
    using room by (auto simp: room_def split: list.splits)
  then obtain s' where s': "s_readKind s = Inr ((k, n, None), s')" "read_header k n s s'" "k = Byte \<longrightarrow> s_byteval s' = b"
    using s_readKind_header [OF ok(1) r(1)] byte by blast
  have h: "header_of k n (s_byteval s') = header_of k n b"
    using s'(3) by (auto simp: header_of_def split: kind.split)
  then have "unat (s_remaining s') = length bs" "s_r s' = bs"
    using s'(2) r(1) by (simp_all add: read_header_def Let_def reads_def stream_ok_def)
  moreover have lim: "s_stack s = l # ls \<Longrightarrow> l \<noteq> 0 \<and> unat n \<le> unat l" for l ls
    using room header_nonempty [of k n b] by (auto simp: room_def)
  moreover have "Kind s = Inr (limitKind (listLimit s) ((k, n, None), s'))"
    using lim ok(2) s'(1) by (auto simp: Kind_def listLimit_def split: list.splits)
  ultimately show ?thesis
    using s'(2,3) r(2)
    by (cases "s_stack s") (auto simp: limitKind_def listLimit_def cachedKind_def ahead_def word_less_nat_alt Let_def)
qed

lemma Kind_again: "Kind s = Inr (r, s') \<Longrightarrow> Kind s' = Inr (r, s')"
  by (auto simp: Kind_def limitKind_def Let_def split: if_splits prod.splits)

section \<open>Operations\<close>

text \<open>The operation has read exactly the bytes \<open>w\<close>.\<close>

definition reads_enc :: "bytes \<Rightarrow> Stream \<Rightarrow> Stream \<Rightarrow> bool" where
  "reads_enc w s s' \<longleftrightarrow> reads (length w) s s' \<and> take (length w) (s_r s) = w \<and> s_kind s' = None"

text \<open>The sizes of the open lists fit into the input that is left. \<open>List\<close> does not check that the list it
  opens fits into the enclosing one together with its header, so the subtraction may wrap around; then the
  lists never fit again.\<close>

definition fits :: "Stream \<Rightarrow> bool" where
  "fits s \<longleftrightarrow> sum_list (map unat (s_stack s)) \<le> length (s_r s)"

text \<open>The two directions in which an operation is correct: whatever it accepts is canonical, and what is
  canonical is accepted. \<open>R\<close> relates values and encodings.\<close>

definition good :: "('a \<Rightarrow> bytes \<Rightarrow> bool) \<Rightarrow> Stream \<Rightarrow> 'a \<Rightarrow> Stream \<Rightarrow> bool" where
  "good R s v s' \<longleftrightarrow> fresh s' \<and> length (s_stack s') = length (s_stack s) \<and> length (s_r s') \<le> length (s_r s) \<and>
     (fits s' \<longrightarrow> fits s \<and> (\<exists>w. R v w \<and> reads_enc w s s'))"

definition outcome :: "('a \<Rightarrow> bytes \<Rightarrow> bool) \<Rightarrow> Stream \<Rightarrow> 'a sres \<Rightarrow> bool" where
  "outcome R s res \<longleftrightarrow> (\<exists>r s'. res = Inr (r, s') \<and> r \<noteq> Inl EOL \<and>
     (\<forall>v. r = Inr v \<longrightarrow> good R s v s' \<and> length (s_r s') < length (s_r s)))"

definition accepts_only :: "(Stream \<Rightarrow> 'a sres) \<Rightarrow> ('a \<Rightarrow> bytes \<Rightarrow> bool) \<Rightarrow> Stream \<Rightarrow> bool" where
  "accepts_only op R s \<longleftrightarrow> (if at_end s then op s = Inr (Inl EOL, s) else outcome R s (op s))"

definition accepts :: "(Stream \<Rightarrow> 'a sres) \<Rightarrow> 'a \<Rightarrow> bytes \<Rightarrow> Stream \<Rightarrow> bool" where
  "accepts op v w s \<longleftrightarrow>
     (\<forall>rest. s_r s = w @ rest \<longrightarrow> room (length w) s \<longrightarrow> (\<exists>s'. op s = Inr (Inr v, s') \<and> reads_enc w s s'))"

lemma reads_enc_fresh: "reads_enc w s s' \<Longrightarrow> fresh s'"
  by (simp add: reads_enc_def fresh_def reads_def)

lemma reads_enc_append:
  assumes "reads_enc v s t" "reads_enc w t u"
  shows "reads_enc (v @ w) s u"
proof -
  have "take (length v + length w) (s_r s) = v @ w"
    using assms by (auto simp: reads_enc_def reads_def take_add)
  then show ?thesis
    using assms reads_trans by (auto simp: reads_enc_def)
qed

lemma reads_encI:
  "reads (length w) s s' \<Longrightarrow> s_r s = w @ rest \<Longrightarrow> s_kind s' = None \<Longrightarrow> reads_enc w s s'"
  by (simp add: reads_enc_def)

lemma enc_str_cases:
  "enc_str b = (if length b = 1 \<and> unat (b ! 0) < 128 then b else head 0x80 0xB7 (length b) @ b)"
  by (auto simp: enc_str_def word_le_nat_alt)

text \<open>The content of a string whose header has been read.\<close>

lemma string_content:
  assumes a: "ahead String n s s1"
  shows "if room (unat n) s1
    then \<exists>s'. readFull (unat n) s1 = (Inr (take (unat n) (s_r s1)), s') \<and>
      reads_enc (head 0x80 0xB7 (unat n) @ take (unat n) (s_r s1)) s s'
    else \<exists>e s'. readFull (unat n) s1 = (Inl e, s') \<and> e \<noteq> EOL"
proof -
  let ?h = "head 0x80 0xB7 (unat n)"
  have h: "reads (length ?h) s s1" "take (length ?h) (s_r s) = ?h" and n: "unat n \<le> length (s_r s1)"
    using a by (simp_all add: ahead_def read_header_def header_of_def Let_def)
  show ?thesis
  proof (cases "room (unat n) s1")
    case True
    then obtain s' where s': "readFull (unat n) s1 = (Inr (take (unat n) (s_r s1)), s')" "s_kind s' = None"
      "reads (unat n) s1 s'"
      using readFull_result [OF reads_ok [OF h(1)], of "unat n"] n unat_u64_less [of n] by auto
    moreover have "s_r s1 = drop (length ?h) (s_r s)"
      using h(1) by (simp add: reads_def)
    ultimately have "reads_enc (?h @ take (unat n) (s_r s1)) s s'"
      using reads_trans [OF h(1) s'(3)] h(2) n by (auto simp: reads_enc_def take_add)
    then show ?thesis
      using True s'(1) by auto
  next
    case False
    then show ?thesis
      using readFull_result [OF reads_ok [OF h(1)], of "unat n"] unat_u64_less [of n] by auto
  qed
qed

lemma byte_content:
  assumes "ahead Byte n s s1"
  shows "reads_enc (enc_str [s_byteval s1]) s (s1\<lparr>s_kind := None\<rparr>)" "unat (s_byteval s1) < 128" "n = 0"
  using assms by (auto simp: ahead_def read_header_def header_of_def reads_enc_def enc_str_cases)

lemma unat_sub_nat:
  fixes l :: uint64
  assumes "n \<le> unat l"
  shows "unat (l - of_nat n) = unat l - n"
proof -
  have "unat (of_nat n :: uint64) = n"
    using assms unat_u64_less [of l] by (simp add: unat_of_nat)
  then show ?thesis
    using assms by (simp add: u64_simps)
qed

lemma reads_fits:
  assumes "reads n s s'"
  shows "fits s' = fits s"
proof (cases "s_stack s")
  case (Cons l ls)
  then have n: "n \<le> unat l"
    using assms by (simp add: reads_def room_def)
  then have "unat (l - of_nat n) = unat l - n"
    using unat_sub_nat [of n l] by simp
  then show ?thesis
    using assms n Cons by (auto simp: fits_def reads_def adv_def)
qed (use assms in \<open>simp add: fits_def reads_def adv_def\<close>)

lemma reads_enc_shorter: "reads_enc w s s' \<Longrightarrow> w \<noteq> [] \<Longrightarrow> length (s_r s') < length (s_r s)"
  by (cases w) (auto simp: reads_enc_def reads_def)

lemma reads_enc_fits: "reads_enc w s s' \<Longrightarrow> fits s' = fits s"
  by (auto simp: reads_enc_def dest: reads_fits)

lemma reads_enc_good: "reads_enc w s s' \<Longrightarrow> R v w \<Longrightarrow> good R s v s'"
  using reads_enc_fits [of w s s'] reads_enc_fresh [of w s s']
  by (auto simp: good_def reads_enc_def reads_def adv_def split: list.split)

lemma reads_enc_outcome:
  "reads_enc w s s' \<Longrightarrow> w \<noteq> [] \<Longrightarrow> R v w \<Longrightarrow> outcome R s (Inr (Inr v, s'))"
  using reads_enc_good [of w s s' R v] reads_enc_shorter [of w s s'] by (auto simp: outcome_def)

lemma outcome_Inl: "e \<noteq> EOL \<Longrightarrow> outcome R s (Inr (Inl e, s'))"
  by (simp add: outcome_def)

lemma head_nonempty [simp]: "head sm la n \<noteq> []"
  using length_head(2) [of sm la n] by auto

lemma enc_str_nonempty [simp]: "enc_str b \<noteq> []"
  by (auto simp: enc_str_def)

lemma thenS_Kind:
  assumes "fresh s" "\<And>k n s'. \<not> at_end s \<Longrightarrow> ahead k n s s' \<Longrightarrow> outcome R s (g (k, n) s')"
  shows "accepts_only (\<lambda>s. thenS (Kind s) g) R s"
proof (cases "at_end s")
  case True
  then show ?thesis
    using assms(1) by (simp add: accepts_only_def thenS_def Kind_EOL fresh_def)
next
  case False
  obtain r s' where r: "Kind s = Inr (r, s')" "r \<noteq> Inl EOL" "\<And>k n. r = Inr (k, n) \<Longrightarrow> ahead k n s s'"
    using Kind_result [OF assms(1) False] by blast
  show ?thesis
  proof (cases r)
    case (Inl e)
    then show ?thesis
      using r False by (simp add: thenS_def accepts_only_def outcome_def)
  next
    case (Inr kn)
    then show ?thesis
      using r assms(2) [of "fst kn" "snd kn" s'] False by (simp add: thenS_def accepts_only_def)
  qed
qed

lemma ahead_size: "ahead k n s s' \<Longrightarrow> unat n < 2 ^ 63"
  by (auto simp: ahead_def read_header_def Let_def reads_def stream_ok_def)

lemma enc_str_long:
  "\<not> (n = 1 \<and> b ! 0 < 128) \<Longrightarrow> length b = unat n \<Longrightarrow> enc_str b = head 0x80 0xB7 (unat n) @ b" for n :: uint64
  by (auto simp: enc_str_cases byte_less u64_eq_iff)

lemma length_content: "ahead k n s s1 \<Longrightarrow> length (take (unat n) (s_r s1)) = unat n"
  by (simp add: ahead_def)

text \<open>An outcome that depends on the content of a string.\<close>

lemma string_outcome:
  assumes a: "ahead String n s s1"
    and g: "\<And>b s'. length b = unat n \<Longrightarrow> (\<not> (n = 1 \<and> b ! 0 < 128) \<Longrightarrow> reads_enc (enc_str b) s s') \<Longrightarrow>
      outcome R s (Inr (g b s'))"
  shows "outcome R s (Inr (case readFull (unat n) s1 of (Inl e, s) \<Rightarrow> (Inl e, s) | (Inr b, s) \<Rightarrow> g b s))"
proof (cases "room (unat n) s1")
  case True
  then obtain s' where "readFull (unat n) s1 = (Inr (take (unat n) (s_r s1)), s')"
    "reads_enc (head 0x80 0xB7 (unat n) @ take (unat n) (s_r s1)) s s'"
    using string_content [OF a] by auto
  then show ?thesis
    using g [OF length_content [OF a]] enc_str_long [OF _ length_content [OF a]] by simp
next
  case False
  then show ?thesis
    using string_content [OF a] by (auto simp: outcome_Inl)
qed

lemma makeBuffer_ahead: "ahead k n s s1 \<Longrightarrow> makeBuffer n = Inr (unat n)"
  using ahead_size by (fastforce simp: makeBuffer_def)

lemma Bytes_only: "fresh s \<Longrightarrow> accepts_only Bytes (\<lambda>b w. w = enc_str b) s"
  unfolding Bytes_def
proof (rule thenS_Kind, goal_cases)
  case (2 k n s1)
  note a = \<open>ahead k n s s1\<close>
  show ?case
  proof (cases k)
    case Byte
    then show ?thesis
      using byte_content [of n s s1] a by (auto intro!: reads_enc_outcome)
  next
    case String
    then show ?thesis
      using makeBuffer_ahead [OF a] a
      by (auto intro!: string_outcome reads_enc_outcome outcome_Inl)
  qed (simp add: outcome_Inl)
qed

text \<open>Integers.\<close>

definition enc_uint :: "nat \<Rightarrow> bytes" where
  "enc_uint n = enc_str (uint_bytes n)"

lemma uint_bytes_nat: "b = [] \<or> b ! 0 \<noteq> 0 \<Longrightarrow> uint_bytes (be_nat b) = b"
proof (cases b)
  case (Cons x xs)
  assume "b = [] \<or> b ! 0 \<noteq> 0"
  then have "be_min (be_nat b) = b" "be_nat b \<noteq> 0"
    using be_min_be_nat [of b] by (auto simp: Cons word_unat_eq_iff)
  then show ?thesis
    by (simp add: uint_bytes_def)
qed (simp add: uint_bytes_def)

lemma be_nat_single: "length b = 1 \<Longrightarrow> be_nat b = unat (b ! 0)"
  by (cases b) auto

lemma be_nat_uint_bytes [simp]: "be_nat (uint_bytes n) = n"
  by (simp add: uint_bytes_def be_min_props)

lemma uint_bytes_first: "uint_bytes n \<noteq> [] \<Longrightarrow> uint_bytes n ! 0 \<noteq> 0"
  using be_min_props(3) by (auto simp: uint_bytes_def split: if_splits)

lemma enc_uint_nonempty [simp]: "enc_uint n \<noteq> []"
  by (simp add: enc_uint_def)

lemma decodeBigInt_only: "fresh s \<Longrightarrow> accepts_only decodeBigInt (\<lambda>i w. 0 \<le> i \<and> w = enc_uint (nat i)) s"
  unfolding decodeBigInt_def
proof (rule thenS_Kind, goal_cases)
  case (2 k n s1)
  note a = \<open>ahead k n s s1\<close>
  let ?R = "\<lambda>i w. 0 \<le> i \<and> w = enc_uint (nat i)"
  define F where "F b s' = (if 0 < length b \<and> b ! 0 = 0 then (Inl ErrCanonInt, s') else (Inr (int (be_nat b)), s'))"
    for b and s' :: Stream
  have fin: "outcome ?R s (Inr (F b s'))" if "reads_enc (enc_str b) s s'" for b s'
    using that uint_bytes_nat [of b] by (auto simp: enc_uint_def F_def intro!: outcome_Inl reads_enc_outcome)
  define G where "G = (\<lambda>b s'. if n = 1 \<and> b ! 0 < 128 then (Inl ErrCanonSize, s') else F b s')"
  have string: "outcome ?R s (Inr (case readFull (unat n) s1 of (Inl e, s) \<Rightarrow> (Inl e, s) | (Inr b, s) \<Rightarrow> G b s))"
    if "k = String"
    using a fin that by (intro string_outcome) (auto simp: G_def intro: outcome_Inl)
  obtain r s' where rf: "readFull (unat n) s1 = (r, s')"
    by fastforce
  show ?case
  proof (cases k)
    case Byte
    then show ?thesis
      using fin [of "[s_byteval s1]" "s1\<lparr>s_kind := None\<rparr>"] byte_content [of n s s1] a by (simp add: thenS_def F_def)
  next
    case String
    consider "n = 0" | "n \<noteq> 0" "n \<le> 32" | "\<not> n \<le> 32" "n \<noteq> 0" "n \<noteq> 1"
      by fastforce
    then show ?thesis
    proof cases
      case 1
      have "reads_enc (enc_str []) s (s1\<lparr>s_kind := None\<rparr>)"
        using a String 1
        by (auto simp: ahead_def read_header_def header_of_def reads_enc_def enc_str_def head_def)
      from fin [OF this] show ?thesis
        using String 1 by (simp add: thenS_def F_def)
    next
      case 2
      then show ?thesis
        using string [OF String] String rf by (cases r) (auto simp: thenS_def G_def F_def split: if_splits)
    next
      case 3
      then show ?thesis
        using string [OF String] String rf makeBuffer_ahead [OF a]
        by (cases r) (auto simp: thenS_def G_def F_def split: if_splits)
    qed
  qed (simp add: thenS_def outcome_Inl)
qed

lemma s_uint_only:
  assumes f: "fresh s" and m: "1 \<le> m" "m \<le> 8"
  shows "accepts_only (s_uint (8 * m)) (\<lambda>v w. unat v < 2 ^ (8 * m) \<and> w = enc_uint (unat v)) s"
  unfolding s_uint_def using f
proof (rule thenS_Kind, goal_cases)
  case (1 k n s1)
  note a = \<open>ahead k n s s1\<close>
  let ?R = "\<lambda>v w. unat v < 2 ^ (8 * m) \<and> w = enc_uint (unat v)"
  have pow: "(256 :: nat) ^ j \<le> 2 ^ (8 * m)" if "j \<le> m" for j
    using that by (simp add: power_mult power_increasing)
  show ?case
  proof (cases k)
    case Byte
    have "uint_bytes (unat b) = [b]" if "b \<noteq> 0" for b :: byte
      using that uint_bytes_nat [of "[b]"] by simp
    moreover have "unat b < 2 ^ (8 * m)" for b :: byte
      using unat_byte_less [of b] pow [of 1] m by simp
    ultimately show ?thesis
      using byte_content [of n s s1] a Byte
      by (auto simp: enc_uint_def unsigned_ucast_eq take_bit_nat_eq_self intro!: outcome_Inl reads_enc_outcome)
  next
    case String
    have sz: "of_nat (8 * m div 8) < n \<longleftrightarrow> m < unat n"
      using m by (simp add: word_less_nat_alt unat_of_nat)
    show ?thesis
    proof (cases "unat n \<le> m \<and> n \<noteq> 0")
      case False
      have "reads_enc (enc_uint 0) s (s1\<lparr>s_kind := None\<rparr>)" if "n = 0"
        using a String that
        by (auto simp: ahead_def read_header_def header_of_def reads_enc_def enc_str_def head_def enc_uint_def uint_bytes_def)
      then show ?thesis
        using False String sz by (auto simp: readUint_def intro!: outcome_Inl reads_enc_outcome)
    next
      case True
      let ?b = "take (unat n) (s_r s1)"
      have n: "1 \<le> unat n" "unat n \<le> 8"
        using True m by (auto simp: Suc_le_eq u64_eq_iff)
      note u = readUint_result [of s1 "unat n", folded ucast_byte_eq]
      have ok: "stream_ok s1" "reads (length (head 0x80 0xB7 (unat n))) s s1"
        "take (length (head 0x80 0xB7 (unat n))) (s_r s) = head 0x80 0xB7 (unat n)" "unat n \<le> length (s_r s1)"
        using a String reads_ok by (auto simp: ahead_def read_header_def header_of_def Let_def)
      have rb: "enc_uint (unat (of_nat (be_nat ?b) :: uint64)) = head 0x80 0xB7 (unat n) @ ?b \<and>
          unat (of_nat (be_nat ?b) :: uint64) < 2 ^ (8 * m)"
        if c: "unat n = 1 \<or> s_r s1 ! 0 \<noteq> 0" "\<not> (of_nat (be_nat ?b) :: uint64) < 128"
      proof -
        have l: "length ?b = unat n" and v: "unat (of_nat (be_nat ?b) :: uint64) = be_nat ?b"
          using ok(4) n be_word_size [of ?b] by simp_all
        then have "?b \<noteq> []" "128 \<le> be_nat ?b"
          using n c(2) by (auto simp: word_less_nat_alt)
        moreover have "?b ! 0 = s_r s1 ! 0"
          using n by simp
        ultimately have "?b ! 0 \<noteq> 0" "128 \<le> be_nat ?b"
          using c(1) l by (cases ?b; auto)+
        then have "uint_bytes (be_nat ?b) = ?b" "\<not> (length ?b = 1 \<and> unat (?b ! 0) < 128)"
          using uint_bytes_nat [of ?b] be_nat_single [of ?b] by auto
        moreover have "be_nat ?b < 2 ^ (8 * m)"
          using be_nat_less [of ?b] pow [of "unat n"] True l by simp
        ultimately show ?thesis
          using l v by (simp add: enc_uint_def enc_str_cases)
      qed
      have rd: "reads_enc (head 0x80 0xB7 (unat n) @ ?b) s s'" if "s_kind s' = None" "reads (unat n) s1 s'" for s'
        using that ok reads_trans [OF ok(2) that(2)] by (auto simp: reads_enc_def take_add reads_def)
      let ?v = "of_nat (be_nat ?b) :: uint64"
      have eq: "\<not> of_nat (8 * m div 8) < n" "0 < n"
        using sz True by (auto simp: word_gt_0)
      show ?thesis
      proof (cases "room (unat n) s1 \<and> (unat n = 1 \<or> s_r s1 ! 0 \<noteq> 0)")
        case c: True
        then obtain s' where s': "readUint (ucast n) s1 = Inr (Inr ?v, s')" "s_kind s' = None" "reads (unat n) s1 s'"
          using u [OF ok(1) n] ok(4) by auto
        have "outcome ?R s (Inr (if 0 < n \<and> ?v < 128 then (Inl ErrCanonSize, s') else (Inr ?v, s')))"
        proof (cases "?v < 128")
          case False
          then show ?thesis
            using reads_enc_outcome [OF rd [OF s'(2,3)], of ?R ?v] rb c by auto
        qed (use eq(2) in \<open>simp add: outcome_Inl\<close>)
        then show ?thesis
          using String eq(1) s'(1) by simp
      next
        case False
        then obtain e s' where "readUint (ucast n) s1 = Inr (Inl e, s')" "e \<noteq> EOL"
          using u [OF ok(1) n] by auto
        then show ?thesis
          using String eq(1) by (simp add: outcome_Inl)
      qed
    qed
  qed (simp add: outcome_Inl)
qed

text \<open>Lists.\<close>

definition opened :: "uint64 \<Rightarrow> Stream \<Rightarrow> Stream" where
  "opened n s1 = s1\<lparr>s_stack := n # (case s_stack s1 of [] \<Rightarrow> [] | l # ls \<Rightarrow> (l - n) # ls), s_kind := None, s_size := 0\<rparr>"

definition closed :: "Stream \<Rightarrow> Stream" where
  "closed s = s\<lparr>s_stack := tl (s_stack s), s_kind := None, s_size := 0\<rparr>"

lemma s_List_result:
  assumes "fresh s"
  shows "if at_end s then s_List s = Inr (Inl EOL, s)
    else \<exists>r s'. s_List s = Inr (r, s') \<and> r \<noteq> Inl EOL \<and> (\<forall>n. r = Inr n \<longrightarrow> (\<exists>s1. ahead List n s s1 \<and> s' = opened n s1))"
proof (cases "at_end s")
  case True
  then show ?thesis
    using assms by (simp add: s_List_def thenS_def Kind_EOL fresh_def)
next
  case False
  obtain r s1 where r: "Kind s = Inr (r, s1)" "r \<noteq> Inl EOL" "\<And>k n. r = Inr (k, n) \<Longrightarrow> ahead k n s s1"
    using Kind_result [OF assms False] by blast
  have "s_List s = Inr (Inr n, opened n s1)" if "r = Inr (List, n)" for n
    using r(1) that by (cases "s_stack s1") (simp_all add: s_List_def thenS_def opened_def listLimit_def)
  moreover have "s_List s = Inr (Inl ErrExpectedList, s1)" if "r = Inr (k, n)" "k \<noteq> List" for k n
    using r(1) that by (simp add: s_List_def thenS_def)
  ultimately show ?thesis
    using False r by (cases r) (auto simp: s_List_def thenS_def)
qed

lemma ListEnd_result:
  "ListEnd s = Inr (if at_end s then (Inr (), closed s) else (Inl (if s_stack s = [] then errNotInList else errNotAtEOL), s))"
  by (cases "s_stack s") (auto simp: ListEnd_def at_end_def closed_def listLimit_def word_gt_0)

lemma opened_fits:
  assumes "fits (opened n s1)" "stream_ok s1"
  shows "fits s1" "s_stack s1 = l # ls \<Longrightarrow> unat n \<le> unat l"
proof -
  have len: "length (s_r s1) < 2 ^ 63"
    using assms(2) by (simp add: stream_ok_def)
  show le: "unat n \<le> unat l" if "s_stack s1 = l # ls" for l ls
  proof (rule ccontr)
    assume "\<not> unat n \<le> unat l"
    then have "unat n + unat (l - n) \<ge> 2 ^ 64"
      by (simp add: unat_sub_if' )
    then show False
      using assms(1) len that by (simp add: fits_def opened_def)
  qed
  show "fits s1"
  proof (cases "s_stack s1")
    case (Cons l ls)
    then have "unat (l - n) = unat l - unat n" "unat n \<le> unat l"
      using le by (simp_all add: u64_simps)
    then show ?thesis
      using assms(1) Cons by (simp add: fits_def opened_def)
  qed (simp add: fits_def)
qed

lemma opened_fresh: "stream_ok s1 \<Longrightarrow> fresh (opened n s1)"
  by (simp add: fresh_def opened_def)

lemma closed_fresh: "stream_ok s1 \<Longrightarrow> fresh (closed s1)"
  by (simp add: fresh_def closed_def)

lemma closed_fits: "at_end s \<Longrightarrow> fits (closed s) = fits s"
  by (cases "s_stack s") (auto simp: fits_def closed_def at_end_def)

text \<open>A list whose elements are \<open>c\<close>.\<close>

lemma list_read:
  assumes a: "ahead List n s s1" and c: "reads_enc c (opened n s1) s3" "at_end s3"
    and le: "\<And>l ls. s_stack s1 = l # ls \<Longrightarrow> unat n \<le> unat l"
  shows "unat n = length c" "reads_enc (enc_list c) s (closed s3)"
proof -
  have st: "s_stack (opened n s1) = n # (case s_stack s1 of [] \<Rightarrow> [] | l # ls \<Rightarrow> (l - n) # ls)" "s_r (opened n s1) = s_r s1"
    by (simp_all add: opened_def)
  have l: "length c \<le> unat n" and r: "length c \<le> length (s_r s1)"
    and s3: "s_stack s3 = (n - of_nat (length c)) # (case s_stack s1 of [] \<Rightarrow> [] | l # ls \<Rightarrow> (l - n) # ls)"
    using c(1) st by (simp_all add: reads_enc_def reads_def room_def adv_def)
  have "unat (of_nat (length c) :: uint64) = length c"
    using l unat_u64_less [of n] by (simp add: unat_of_nat)
  moreover have "n - of_nat (length c) = 0"
    using c(2) s3 by (simp add: at_end_def)
  ultimately show n: "unat n = length c"
    by simp
  then have n': "of_nat (length c) = n"
    by (metis of_nat_unat ucast_id)
  have h: "reads (length (head 0xC0 0xF7 (length c))) s s1" "take (length (head 0xC0 0xF7 (length c))) (s_r s) = head 0xC0 0xF7 (length c)"
    using a n by (auto simp: ahead_def read_header_def header_of_def Let_def)
  have "reads (length c) s1 (closed s3)"
    using c(1) r le s3 n n' by (auto simp: reads_def reads_enc_def closed_def st room_def adv_def split: list.splits)
  then have "reads (length (enc_list c)) s (closed s3)"
    using reads_trans [OF h(1)] by (simp add: enc_list_def)
  moreover have "take (length (enc_list c)) (s_r s) = enc_list c"
    using h c(1) st by (auto simp: enc_list_def take_add reads_enc_def reads_def)
  ultimately show "reads_enc (enc_list c) s (closed s3)"
    by (simp add: reads_enc_def closed_def)
qed

section \<open>Canonical encodings are accepted\<close>

lemma room_reads:
  assumes "reads n s s1" "room (n + m) s"
  shows "room m s1"
proof (cases "s_stack s")
  case (Cons l ls)
  then have n: "n + m \<le> unat l"
    using assms(2) by (simp add: room_def)
  then have "unat (l - of_nat n) = unat l - n"
    using unat_sub_nat [of n l] by simp
  then show ?thesis
    using assms(1) n Cons by (simp add: room_def reads_def adv_def)
qed (use assms in \<open>simp add: room_def reads_def adv_def\<close>)

lemma empty_content:
  assumes "ahead String 0 s s1"
  shows "reads_enc (enc_str []) s (s1\<lparr>s_kind := None\<rparr>)"
  using assms by (auto simp: ahead_def read_header_def header_of_def reads_enc_def enc_str_def head_def)

lemma Kind_string:
  assumes f: "fresh s" and r: "s_r s = enc_str b @ rest" and room: "room (length (enc_str b)) s"
  shows "if length b = 1 \<and> unat (b ! 0) < 128
    then \<exists>s1. Kind s = Inr (Inr (Byte, 0), s1) \<and> ahead Byte 0 s s1 \<and> b = [s_byteval s1]
    else \<exists>s1 s'. Kind s = Inr (Inr (String, of_nat (length b)), s1) \<and> ahead String (of_nat (length b)) s s1 \<and>
      readFull (length b) s1 = (Inr b, s') \<and> reads_enc (enc_str b) s s'"
proof (cases "length b = 1 \<and> unat (b ! 0) < 128")
  case True
  then have "b = [b ! 0]" "enc_str b = header_of Byte 0 (b ! 0)"
    by (cases b; simp add: enc_str_cases header_of_def)+
  then show ?thesis
    using Kind_header [OF f, of Byte 0 "b ! 0" rest] r room True by auto
next
  case False
  let ?n = "of_nat (length b) :: uint64"
  have e: "enc_str b = head 0x80 0xB7 (length b) @ b"
    using False by (auto simp: enc_str_cases)
  have "length b < 2 ^ 63"
    using f r by (simp add: fresh_def stream_ok_def e)
  then have n: "unat ?n = length b"
    by (simp add: unat_of_nat)
  then obtain s1 where s1: "Kind s = Inr (Inr (String, ?n), s1)" "ahead String ?n s s1"
    using Kind_header [OF f, of String ?n 0 "b @ rest"] r room by (auto simp: header_of_def e)
  have h: "reads (length (head 0x80 0xB7 (length b))) s s1"
    using s1(2) n by (auto simp: ahead_def read_header_def header_of_def Let_def)
  then have "room (unat ?n) s1" "take (unat ?n) (s_r s1) = b"
    using room_reads [OF h] room r n by (auto simp: e reads_def)
  then show ?thesis
    using string_content [OF s1(2)] s1 n False by (auto simp: e)
qed

lemma Bytes_accepts: "fresh s \<Longrightarrow> accepts Bytes b (enc_str b) s"
  unfolding accepts_def
proof (intro allI impI)
  fix rest
  assume f: "fresh s" and r: "s_r s = enc_str b @ rest" "room (length (enc_str b)) s"
  note k = Kind_string [OF f r]
  show "\<exists>s'. Bytes s = Inr (Inr b, s') \<and> reads_enc (enc_str b) s s'"
  proof (cases "length b = 1 \<and> unat (b ! 0) < 128")
    case True
    then show ?thesis
      using k byte_content(1) by (fastforce simp: Bytes_def thenS_def)
  next
    case False
    then obtain s1 s' where s: "Kind s = Inr (Inr (String, of_nat (length b)), s1)" "ahead String (of_nat (length b)) s s1"
      "readFull (length b) s1 = (Inr b, s')" "reads_enc (enc_str b) s s'"
      using k by auto
    have n: "unat (of_nat (length b) :: uint64) = length b"
      using f r(1) length_enc_str [of b] by (simp add: fresh_def stream_ok_def unat_of_nat)
    have "\<not> (of_nat (length b) = (1 :: uint64) \<and> b ! 0 < 128)"
      using False n by (auto simp: byte_less u64_eq_iff)
    then show ?thesis
      using s makeBuffer_ahead [OF s(2)] n by (simp add: Bytes_def thenS_def)
  qed
qed

lemma decodeBigInt_accepts: "fresh s \<Longrightarrow> accepts decodeBigInt (int n) (enc_uint n) s"
  unfolding accepts_def enc_uint_def
proof (intro allI impI)
  fix rest
  let ?b = "uint_bytes n"
  assume f: "fresh s" and r: "s_r s = enc_str ?b @ rest" "room (length (enc_str ?b)) s"
  note k = Kind_string [OF f r]
  have z: "\<not> (0 < length ?b \<and> ?b ! 0 = 0)"
    using uint_bytes_first [of n] by auto
  show "\<exists>s'. decodeBigInt s = Inr (Inr (int n), s') \<and> reads_enc (enc_str ?b) s s'"
  proof (cases "length ?b = 1 \<and> unat (?b ! 0) < 128")
    case True
    then obtain s1 where s1: "Kind s = Inr (Inr (Byte, 0), s1)" "ahead Byte 0 s s1" "?b = [s_byteval s1]"
      using k by auto
    have "int n = int (be_nat [s_byteval s1])"
      using s1(3) be_nat_uint_bytes [of n] by simp
    then show ?thesis
      using s1 z byte_content(1) [OF s1(2)] by (auto simp: decodeBigInt_def thenS_def)
  next
    case False
    then obtain s1 s' where s: "Kind s = Inr (Inr (String, of_nat (length ?b)), s1)" "ahead String (of_nat (length ?b)) s s1"
      "readFull (length ?b) s1 = (Inr ?b, s')" "reads_enc (enc_str ?b) s s'"
      using k by auto
    have u: "unat (of_nat (length ?b) :: uint64) = length ?b"
      using f r(1) length_enc_str [of ?b] by (simp add: fresh_def stream_ok_def unat_of_nat)
    have one: "\<not> (of_nat (length ?b) = (1 :: uint64) \<and> ?b ! 0 < 128)"
      using False u by (auto simp: byte_less u64_eq_iff)
    show ?thesis
    proof (cases "n = 0")
      case True
      then show ?thesis
        using s empty_content [of s s1] by (simp add: decodeBigInt_def thenS_def uint_bytes_def)
    next
      case nz: False
      then have "(of_nat (length ?b) :: uint64) \<noteq> 0"
        using be_min_props(2) [of n] u by (auto simp: uint_bytes_def u64_eq_iff)
      then show ?thesis
        using s z u one makeBuffer_ahead [OF s(2)] by (simp add: decodeBigInt_def thenS_def)
    qed
  qed
qed

lemma length_uint_bytes:
  assumes "n < 256 ^ m"
  shows "length (uint_bytes n) \<le> m"
proof (rule ccontr)
  let ?b = "uint_bytes n"
  assume l: "\<not> length ?b \<le> m"
  then obtain x xs where b: "?b = x # xs"
    by (cases ?b) auto
  then have "x \<noteq> 0"
    using uint_bytes_first [of n] by simp
  then have "256 ^ length xs \<le> be_nat ?b"
    unfolding b by (simp add: word_unat_eq_iff trans_le_add1 Suc_le_eq)
  moreover have "(256 :: nat) ^ m \<le> 256 ^ length xs"
    using l b by (intro power_increasing) auto
  ultimately show False
    using assms by simp
qed

lemma uint_bytes_small: "n < 128 \<Longrightarrow> uint_bytes n = [] \<or> length (uint_bytes n) = 1 \<and> unat (uint_bytes n ! 0) < 128"
  by (auto simp: uint_bytes_def be_min_byte)

lemma s_uint_accepts:
  assumes f: "fresh s" and m: "m \<le> 8" "unat v < 2 ^ (8 * m)"
  shows "accepts (s_uint (8 * m)) v (enc_uint (unat v)) s"
  unfolding accepts_def enc_uint_def
proof (intro allI impI)
  fix rest
  let ?b = "uint_bytes (unat v)"
  assume r: "s_r s = enc_str ?b @ rest" "room (length (enc_str ?b)) s"
  note k = Kind_string [OF f r]
  have l: "length ?b \<le> m"
    using length_uint_bytes [of "unat v" m] m(2) by (simp add: power_mult)
  show "\<exists>s'. s_uint (8 * m) s = Inr (Inr v, s') \<and> reads_enc (enc_str ?b) s s'"
  proof (cases "length ?b = 1 \<and> unat (?b ! 0) < 128")
    case True
    then obtain s1 where s1: "Kind s = Inr (Inr (Byte, 0), s1)" "ahead Byte 0 s s1" "?b = [s_byteval s1]"
      using k by auto
    have "unat v = unat (s_byteval s1)" "s_byteval s1 \<noteq> 0"
      using s1(3) be_nat_uint_bytes [of "unat v"] uint_bytes_first [of "unat v"] by simp_all
    moreover have "v = ucast (s_byteval s1)"
      using calculation unat_byte_less [of "s_byteval s1"]
      by (simp add: u64_eq_iff unsigned_ucast_eq take_bit_nat_eq_self)
    ultimately show ?thesis
      using s1 byte_content(1) [OF s1(2)] by (simp add: s_uint_def thenS_def)
  next
    case False
    then obtain s1 where s: "Kind s = Inr (Inr (String, of_nat (length ?b)), s1)" "ahead String (of_nat (length ?b)) s s1"
      using k by auto
    have u: "unat (of_nat (length ?b) :: uint64) = length ?b"
      using l m by (simp add: unat_of_nat)
    then have sz: "\<not> of_nat (8 * m div 8) < (of_nat (length ?b) :: uint64)"
      using l m by (simp add: word_less_nat_alt unat_of_nat)
    show ?thesis
    proof (cases "v = 0")
      case True
      then show ?thesis
        using s empty_content [of s s1] by (simp add: s_uint_def thenS_def uint_bytes_def readUint_def)
    next
      case nz: False
      have e: "enc_str ?b = head 0x80 0xB7 (length ?b) @ ?b"
        using False by (auto simp: enc_str_cases)
      have h: "reads (length (head 0x80 0xB7 (length ?b))) s s1"
        using s(2) u by (auto simp: ahead_def read_header_def header_of_def Let_def)
      have ne: "1 \<le> length ?b" "?b ! 0 \<noteq> 0"
        using nz be_min_props(2) [of "unat v"] uint_bytes_first [of "unat v"]
        by (auto simp: uint_bytes_def u64_eq_iff Suc_le_eq)
      have s1: "room (length ?b) s1" "s_r s1 = ?b @ rest"
        using room_reads [OF h] r h by (auto simp: e reads_def)
      moreover have "s_r s1 ! 0 \<noteq> 0"
        using ne s1(2) by (auto simp: nth_append)
      ultimately obtain s' where s': "readUint (of_nat (length ?b)) s1 = Inr (Inr v, s')" "s_kind s' = None" "reads (length ?b) s1 s'"
        using readUint_result [OF reads_ok [OF h] ne(1)] l m(1) by (auto simp: s1(2))
      have "\<not> v < 128"
        using uint_bytes_small [of "unat v"] False ne(1) by (auto simp: word_less_nat_alt)
      moreover have "ucast (of_nat (length ?b) :: uint64) = (of_nat (length ?b) :: byte)"
        using u by (simp add: ucast_byte_eq del: of_nat_unat)
      moreover have "reads_enc (enc_str ?b) s s'"
        using reads_trans [OF h s'(3)] r(1) s'(2) by (simp add: reads_enc_def e)
      ultimately show ?thesis
        using s s'(1) sz by (simp add: s_uint_def thenS_def)
    qed
  qed
qed

lemma s_List_accepts:
  assumes f: "fresh s" and r: "s_r s = enc_list c @ rest" "room (length (enc_list c)) s"
  shows "\<exists>s1. s_List s = Inr (Inr (of_nat (length c)), opened (of_nat (length c)) s1) \<and> ahead List (of_nat (length c)) s s1 \<and>
    s_r s1 = c @ rest \<and> (\<forall>l ls. s_stack s1 = l # ls \<longrightarrow> length c \<le> unat l) \<and> unat (of_nat (length c) :: uint64) = length c"
proof -
  let ?n = "of_nat (length c) :: uint64" and ?h = "head 0xC0 0xF7 (length c)"
  have n: "unat ?n = length c"
    using f r(1) by (simp add: fresh_def stream_ok_def enc_list_def unat_of_nat)
  obtain s1 where s1: "Kind s = Inr (Inr (List, ?n), s1)" "ahead List ?n s s1"
    using Kind_header [OF f, of List ?n 0 "c @ rest"] r n by (auto simp: header_of_def enc_list_def)
  have h: "reads (length ?h) s s1"
    using s1(2) n by (auto simp: ahead_def read_header_def header_of_def Let_def)
  have "s_List s = Inr (Inr ?n, opened ?n s1)"
    using s1(1) by (cases "s_stack s1") (simp_all add: s_List_def thenS_def opened_def listLimit_def)
  moreover have "room (length c) s1"
    using room_reads [OF h] r(2) by (simp add: enc_list_def)
  moreover have "s_r s1 = c @ rest"
    using h r(1) by (simp add: reads_def enc_list_def)
  ultimately show ?thesis
    using s1(2) n by (intro exI [of _ s1]) (simp add: room_def split: list.splits)
qed

section \<open>Writing integers\<close>

lemma writeUint64_adds: "adds buf (writeUint64 i buf) (enc_uint (unat i))"
proof -
  have "writeUint64 i buf = buf\<lparr>str := str buf @ enc_uint (unat i)\<rparr>"
    unfolding enc_uint_def enc_str_uint by (simp add: writeUint64_def Let_def)
  then show ?thesis
    by (simp add: adds_str)
qed

lemma be_bytes_split: "be_bytes (a + b) x = be_bytes a (x div 256 ^ b) @ be_bytes b x"
  by (induction a) (simp_all add: power_add mult.commute flip: div_mult2_eq)

lemma be_bytes_mod:
  assumes "b \<le> c"
  shows "be_bytes b (x mod 256 ^ c) = be_bytes b x"
proof -
  have r: "be_bytes b (y mod 256 ^ b) = be_bytes b y" for y
    using be_bytes_be_nat [of "be_bytes b y"] by (simp add: be_nat_be_bytes)
  have "x mod 256 ^ c mod 256 ^ b = x mod 256 ^ b"
    using assms by (simp add: mod_mod_cancel le_imp_power_dvd)
  then show ?thesis
    using r [of "x mod 256 ^ c"] r [of x] by simp
qed

lemma putWord_eq:
  "index \<le> length buf \<Longrightarrow>
   putWord j d (index, buf) = (index - j, take (index - j) buf @ be_bytes (min j index) (unat d) @ drop index buf)"
proof (induction j arbitrary: d index buf)
  case (Suc j)
  show ?case
  proof (cases index)
    case (Suc i)
    have "drop i (buf[i := ucast d]) = ucast d # drop (Suc i) buf"
      using Suc.prems Suc by (metis Cons_nth_drop_Suc Suc_le_eq drop_update_cancel length_list_update lessI nth_list_update_eq)
    then have "be_bytes (min j i) (unat d div 256) @ drop i (buf[i := ucast d]) =
        be_bytes (Suc (min j i)) (unat d) @ drop (Suc i) buf"
      unfolding be_bytes_snoc by (simp add: ucast_byte_eq del: of_nat_unat)
    then show ?thesis
      using Suc.IH [of i "buf[i := ucast d]" "drop_bit 8 d"] Suc.prems Suc by (simp add: unat_drop_bit del: be_bytes.simps)
  qed simp
qed simp

lemma putWords_eq:
  "index \<le> length buf \<Longrightarrow>
   fold (putWord 8) (big_Bits n) (index, buf) =
     (let k = 8 * length (big_Bits n) in (index - k, take (index - k) buf @ be_bytes (min k index) n @ drop index buf))"
proof (induction n arbitrary: index buf rule: big_Bits.induct)
  case (1 n)
  show ?case
  proof (cases "n = 0")
    case True
    then show ?thesis
      by (simp add: big_Bits.simps)
  next
    case False
    let ?d = "of_nat n :: uint64" and ?k = "8 * length (big_Bits (n div 2 ^ 64))" and ?m = "min 8 index"
    let ?buf = "take (index - 8) buf @ be_bytes ?m (unat ?d) @ drop index buf"
    have bits: "big_Bits n = ?d # big_Bits (n div 2 ^ 64)"
      using False by (subst big_Bits.simps) simp
    have d: "be_bytes ?m (unat ?d) = be_bytes ?m n"
      using be_bytes_mod [of ?m 8 n] by (simp add: unat_of_nat)
    have "fold (putWord 8) (big_Bits n) (index, buf) = fold (putWord 8) (big_Bits (n div 2 ^ 64)) (index - 8, ?buf)"
      using "1.prems" by (simp add: bits putWord_eq del: be_bytes.simps)
    also have "\<dots> = (index - 8 - ?k, take (index - 8 - ?k) ?buf @ be_bytes (min ?k (index - 8)) (n div 2 ^ 64) @ drop (index - 8) ?buf)"
      using 1 False by (simp add: Let_def del: be_bytes.simps)
    also have "drop (index - 8) ?buf = be_bytes ?m n @ drop index buf"
      using "1.prems" by (simp add: d del: be_bytes.simps)
    also have "take (index - 8 - ?k) ?buf = take (index - (8 + ?k)) buf"
      using "1.prems" by (simp add: min_def del: be_bytes.simps)
    also have "be_bytes (min ?k (index - 8)) (n div 2 ^ 64) @ be_bytes ?m n @ drop index buf = be_bytes (min (8 + ?k) index) n @ drop index buf"
    proof (cases "8 \<le> index")
      case True
      then have "min (8 + ?k) index = min ?k (index - 8) + 8"
        by auto
      then show ?thesis
        using True be_bytes_split [of "min ?k (index - 8)" 8 n] by (simp add: min_def del: be_bytes.simps)
    qed (simp add: min_def)
    finally show ?thesis
      by (simp add: bits Let_def del: be_bytes.simps)
  qed
qed

lemma big_Bits_length: "n < 2 ^ (64 * length (big_Bits n))"
proof (induction n rule: big_Bits.induct)
  case (1 n)
  show ?case
  proof (cases "n = 0")
    case False
    have bits: "big_Bits n = of_nat n # big_Bits (n div 2 ^ 64)"
      using False by (subst big_Bits.simps) simp
    have "n < 2 ^ 64 * 2 ^ (64 * length (big_Bits (n div 2 ^ 64)))"
      using 1 [OF False] by (simp add: div_less_iff_less_mult mult.commute)
    then show ?thesis
      by (simp add: bits power_add)
  qed simp
qed

lemma writeBigInt_adds:
  assumes "0 \<le> i" "length (uint_bytes (nat i)) < 2 ^ 63"
  shows "adds buf (writeBigInt i buf) (enc_uint (nat i))"
proof (cases "BitLen i \<le> 64")
  case True
  then have "nat i < 2 ^ 64"
    using assms(1) bit_len_le [of "nat i" 64] by (simp add: BitLen_def)
  then have "unat (big_Uint64 i) = nat i"
    using assms(1) by (simp add: big_Uint64_def unat_of_nat del: of_nat_nat)
  then show ?thesis
    using True writeUint64_adds [of buf "big_Uint64 i"] by (simp add: writeBigInt_def)
next
  case False
  define n where "n = nat i"
  define len where "len = nat ((BitLen i + 7) div 8)"
  have bl: "BitLen i = int (bit_len n)"
    using assms(1) by (simp add: BitLen_def n_def)
  have len: "8 < len" "bit_len n \<le> 8 * len" "8 * (len - 1) < bit_len n" "nat \<bar>i\<bar> = n"
    using False assms(1) by (auto simp: len_def bl n_def)
  then have "n < 256 ^ len" "256 ^ (len - 1) \<le> n"
    using bit_len_le [of n "8 * len"] bit_len_le [of n "8 * (len - 1)"] by (simp_all add: power_mult)
  then have "sig_bytes len n" "n \<noteq> 0"
    using len(1) by (simp add: sig_bytes_def, intro notI, simp)
  then have b: "uint_bytes n = be_bytes len n" "length (uint_bytes n) = len"
    using be_min_sig [of len n] by (simp_all add: uint_bytes_def)
  have "bit_len n \<le> 64 * length (big_Bits n)"
    using big_Bits_length by (simp add: bit_len_le)
  then have "len \<le> 8 * length (big_Bits n)"
    using len(3) by linarith
  then have "snd (fold (putWord 8) (big_Bits n) (len, replicate len 0)) = uint_bytes n"
    using putWords_eq [of len "replicate len 0" n] b by (simp add: Let_def min_def)
  moreover have "encodeStringHeader len buf = buf\<lparr>str := str buf @ head 0x80 0xB7 len\<rparr>"
    using assms(2) b(2) by (simp add: n_def encodeStringHeader_def head_def putint_be_min unat_of_nat Let_def)
  ultimately have "writeBigInt i buf = buf\<lparr>str := str buf @ enc_uint n\<rparr>"
    using False len(1,4) b(2)
    by (simp add: writeBigInt_def Let_def len_def [symmetric] enc_uint_def enc_str_cases)
  then show ?thesis
    by (simp add: adds_str n_def)
qed

end
