(* ===== verification/Rlp_Typed.thy ===== *)
theory Rlp_Typed
  imports Rlp_Stream
begin

text \<open>
  The typed codec of \<open>rlp/encode.go\<close>, \<open>rlp/decode.go\<close> and \<open>rlp/typecache.go\<close>. The Go code builds
  a writer and a decoder for a type by reflection; here a type is a value of \<open>rtype\<close>, which has the cases
  that the program uses, and a Go value is a value of \<open>rval\<close>. The theorems hold for every type: encoding
  and decoding are inverse to each other, decoding accepts canonical encodings only, and it never panics.
\<close>

section \<open>Types and values\<close>

text \<open>\<open>TUint m\<close> is an unsigned integer of \<open>m\<close> bytes, \<open>TByteArray n\<close> an array of \<open>n\<close> bytes. A field of
  a struct carries its tag \<open>optional\<close>, and a pointer the kind of the empty value that stands for nil and
  its tag \<open>nil\<close>. A pointer to \<open>big.Int\<close> is a case of its own, as it is in the code.\<close>

datatype rtype =
    TBigInt
  | TUint nat
  | TBool
  | TBytes
  | TByteArray nat
  | TSlice rtype
  | TStruct "(rtype \<times> bool) list"
  | TPtr kind bool rtype

datatype rval =
    VBigInt "int option"
  | VUint uint64
  | VBool bool
  | VBytes bytes
  | VList "rval list"
  | VPtr "rval option"

definition IsZero :: "rval \<Rightarrow> bool" where
  "IsZero v \<longleftrightarrow> v = VBigInt None \<or> v = VPtr None"

section \<open>Writers\<close>

definition buf_append :: "bytes \<Rightarrow> encBuffer \<Rightarrow> encBuffer" where
  "buf_append b buf = buf\<lparr>str := str buf @ b\<rparr>"

definition writeByteArray :: "nat \<Rightarrow> bytes \<Rightarrow> encBuffer \<Rightarrow> encBuffer" where
  "writeByteArray len b buf =
     (if len = 0 then buf_append [0x80] buf
      else if len = 1 then (if b ! 0 \<le> 0x7F then buf_append [b ! 0] buf else buf_append [0x81, b ! 0] buf)
      else buf_append b (encodeStringHeader (length b) buf))"

definition firstOptionalField :: "(rtype \<times> bool) list \<Rightarrow> nat" where
  "firstOptionalField fs = length (takeWhile (\<lambda>f. \<not> snd f) fs)"

text \<open>The number of fields that are written: nil pointers in optional fields at the end are left out.\<close>

primrec writtenFields :: "nat \<Rightarrow> rval list \<Rightarrow> nat \<Rightarrow> nat" where
  "writtenFields firstOptional vs 0 = 0"
| "writtenFields firstOptional vs (Suc lastField) =
     (if firstOptional \<le> lastField \<and> IsZero (vs ! lastField) then writtenFields firstOptional vs lastField
      else Suc lastField)"

definition nilEncoding :: "kind \<Rightarrow> byte" where
  "nilEncoding nilKind = (if nilKind = String then 0x80 else 0xC0)"

type_synonym wres = "(rlperror + encBuffer) go"

definition thenW :: "wres \<Rightarrow> (encBuffer \<Rightarrow> wres) \<Rightarrow> wres" where
  "thenW m f = andThen m (\<lambda>r. case r of Inl e \<Rightarrow> Inr (Inl e) | Inr buf \<Rightarrow> f buf)"

definition inList :: "(encBuffer \<Rightarrow> wres) \<Rightarrow> encBuffer \<Rightarrow> wres" where
  "inList f buf =
     (case buf_list buf of (listOffset, buf) \<Rightarrow>
      thenW (f buf) (\<lambda>buf. andThen (listEnd listOffset buf) (\<lambda>buf. Inr (Inr buf))))"

definition anotherType :: wres where
  "anotherType = Inl (PanicMsg ''reflect: value of another type'')"

fun writer :: "rtype \<Rightarrow> rval \<Rightarrow> encBuffer \<Rightarrow> wres"
  and writeElems :: "rtype \<Rightarrow> rval list \<Rightarrow> encBuffer \<Rightarrow> wres"
  and writeFields :: "nat \<Rightarrow> (rtype \<times> bool) list \<Rightarrow> rval list \<Rightarrow> encBuffer \<Rightarrow> wres" where
  "writer t (VBigInt i) buf =
     (if t = TBigInt then
        Inr (case i of
            None \<Rightarrow> Inr (buf_append [0x80] buf)
          | Some i \<Rightarrow> if i < 0 then Inl ErrNegativeBigInt else Inr (writeBigInt i buf))
      else anotherType)"
| "writer t (VUint n) buf = (case t of TUint m \<Rightarrow> Inr (Inr (writeUint64 n buf)) | _ \<Rightarrow> anotherType)"
| "writer t (VBool b) buf = (if t = TBool then Inr (Inr (writeBool b buf)) else anotherType)"
| "writer t (VBytes b) buf =
     (case t of
        TBytes \<Rightarrow> Inr (Inr (writeBytes b buf))
      | TByteArray len \<Rightarrow> Inr (Inr (writeByteArray len b buf))
      | _ \<Rightarrow> anotherType)"
| "writer t (VList vs) buf =
     (case t of
        TSlice t \<Rightarrow> if vs = [] then Inr (Inr (buf_append [0xC0] buf)) else inList (writeElems t vs) buf
      | TStruct fs \<Rightarrow> inList (writeFields (writtenFields (firstOptionalField fs) vs (length fs)) fs vs) buf
      | _ \<Rightarrow> anotherType)"
| "writer t (VPtr None) buf =
     (case t of TPtr nilKind nilOK t \<Rightarrow> Inr (Inr (buf_append [nilEncoding nilKind] buf)) | _ \<Rightarrow> anotherType)"
| "writer t (VPtr (Some v)) buf = (case t of TPtr nilKind nilOK t \<Rightarrow> writer t v buf | _ \<Rightarrow> anotherType)"
| "writeElems t [] buf = Inr (Inr buf)"
| "writeElems t (v # vs) buf = thenW (writer t v buf) (writeElems t vs)"
| "writeFields n fs [] buf = Inr (Inr buf)"
| "writeFields n fs (v # vs) buf =
     (case fs of
        [] \<Rightarrow> Inr (Inr buf)
      | f # fs \<Rightarrow> if n = 0 then Inr (Inr buf) else thenW (writer (fst f) v buf) (writeFields (n - 1) fs vs))"

definition EncodeToBytes :: "rtype \<Rightarrow> rval \<Rightarrow> (rlperror + bytes) go" where
  "EncodeToBytes t v =
     andThen (writer t v getEncBuffer) (\<lambda>r.
     case r of Inl e \<Rightarrow> Inr (Inl e) | Inr buf \<Rightarrow> andThen (makeBytes buf) (\<lambda>b. Inr (Inr b)))"

section \<open>Decoders\<close>

definition wrapStreamError :: "rlperror \<Rightarrow> rlperror" where
  "wrapStreamError err =
     (case err of
        ErrCanonInt \<Rightarrow> decodeError ''non-canonical integer (leading zero bytes)''
      | ErrCanonSize \<Rightarrow> decodeError ''non-canonical size information''
      | ErrExpectedList \<Rightarrow> decodeError ''expected input list''
      | ErrExpectedString \<Rightarrow> decodeError ''expected input string or byte''
      | errUintOverflow \<Rightarrow> decodeError ''input string too long''
      | errNotAtEOL \<Rightarrow> decodeError ''input list has too many elements''
      | _ \<Rightarrow> err)"

definition wrapS :: "'a sres \<Rightarrow> 'a sres" where
  "wrapS m = andThen m (\<lambda>(r, s). Inr (case r of Inl e \<Rightarrow> Inl (wrapStreamError e) | Inr a \<Rightarrow> Inr a, s))"

definition resultS :: "('a \<Rightarrow> 'b) \<Rightarrow> 'a sres \<Rightarrow> 'b sres" where
  "resultS f m = thenS m (\<lambda>a s. Inr (Inr (f a), s))"

definition decodeByteArray :: "nat \<Rightarrow> Stream \<Rightarrow> bytes sres" where
  "decodeByteArray len s =
     thenS (Kind s) (\<lambda>(k, sz) s. Inr (
       case k of
         Byte \<Rightarrow>
           if len = 0 then (Inl (decodeError ''input string too long''), s)
           else if 1 < len then (Inl (decodeError ''input string too short''), s)
           else (Inr [s_byteval s], s\<lparr>s_kind := None\<rparr>)
       | String \<Rightarrow>
           if of_nat len < sz then (Inl (decodeError ''input string too long''), s)
           else if sz < of_nat len then (Inl (decodeError ''input string too short''), s)
           else (case readFull len s of
               (Inl e, s) \<Rightarrow> (Inl e, s)
             | (Inr b, s) \<Rightarrow>
                 if sz = 1 \<and> b ! 0 < 128 then (Inl (wrapStreamError ErrCanonSize), s) else (Inr b, s))
       | List \<Rightarrow> (Inl (wrapStreamError ErrExpectedString), s)))"

text \<open>The loop over the elements of a slice, which the end of the list ends. Every element takes a byte at
  least, so a bound above the length of the input is enough.\<close>

primrec decodeSliceElems :: "(Stream \<Rightarrow> 'a sres) \<Rightarrow> nat \<Rightarrow> Stream \<Rightarrow> 'a list sres" where
  "decodeSliceElems elemdec 0 s = Inl OutOfFuel"
| "decodeSliceElems elemdec (Suc n) s =
     andThen (elemdec s) (\<lambda>(r, s).
     case r of
       Inl e \<Rightarrow> Inr (if e = EOL then Inr [] else Inl e, s)
     | Inr v \<Rightarrow> resultS (\<lambda>vs. v # vs) (decodeSliceElems elemdec n s))"

definition decodeListSlice :: "(Stream \<Rightarrow> 'a sres) \<Rightarrow> Stream \<Rightarrow> 'a list sres" where
  "decodeListSlice elemdec s =
     thenS (wrapS (s_List s)) (\<lambda>sz s.
       if sz = 0 then resultS (\<lambda>_. []) (ListEnd s)
       else thenS (decodeSliceElems elemdec (length (s_r s) + 1) s) (\<lambda>vs s. resultS (\<lambda>_. vs) (ListEnd s)))"

text \<open>The value of a field that is not there.\<close>

fun zeroField :: "rtype \<Rightarrow> rval" where
  "zeroField TBigInt = VBigInt None"
| "zeroField (TUint m) = VUint 0"
| "zeroField TBool = VBool False"
| "zeroField TBytes = VBytes []"
| "zeroField (TByteArray len) = VBytes (replicate len 0)"
| "zeroField (TSlice t) = VList []"
| "zeroField (TStruct fs) = VList (map (\<lambda>f. zeroField (fst f)) fs)"
| "zeroField (TPtr nilKind nilOK t) = VPtr None"

text \<open>The decoder of a pointer that may be nil: the empty value of the right kind is nil.\<close>

definition nilPtrDecoder :: "kind \<Rightarrow> (Stream \<Rightarrow> rval sres) \<Rightarrow> Stream \<Rightarrow> rval sres" where
  "nilPtrDecoder nilKind dec s =
     thenS (wrapS (Kind s)) (\<lambda>(k, sz) s.
       if k \<noteq> Byte \<and> sz = 0 then
         Inr (if k \<noteq> nilKind then (Inl (decodeError ''wrong kind of empty value''), s)
              else (Inr (VPtr None), s\<lparr>s_kind := None\<rparr>))
       else resultS (\<lambda>v. VPtr (Some v)) (dec s))"

fun decoder :: "rtype \<Rightarrow> Stream \<Rightarrow> rval sres"
  and decodeFields :: "(rtype \<times> bool) list \<Rightarrow> Stream \<Rightarrow> rval list sres" where
  "decoder TBigInt s = resultS (\<lambda>i. VBigInt (Some i)) (wrapS (decodeBigInt s))"
| "decoder (TUint m) s = resultS VUint (wrapS (s_uint (8 * m) s))"
| "decoder TBool s = resultS VBool (wrapS (s_Bool s))"
| "decoder TBytes s = resultS VBytes (wrapS (Bytes s))"
| "decoder (TByteArray len) s = resultS VBytes (decodeByteArray len s)"
| "decoder (TSlice t) s = resultS VList (decodeListSlice (decoder t) s)"
| "decoder (TStruct fs) s =
     thenS (wrapS (s_List s)) (\<lambda>_ s.
     thenS (decodeFields fs s) (\<lambda>vs s. resultS (\<lambda>_. VList vs) (wrapS (ListEnd s))))"
| "decoder (TPtr nilKind nilOK t) s =
     (if nilOK then nilPtrDecoder nilKind (decoder t) s else resultS (\<lambda>v. VPtr (Some v)) (decoder t s))"
| "decodeFields [] s = Inr (Inr [], s)"
| "decodeFields (f # fs) s =
     andThen (decoder (fst f) s) (\<lambda>(r, s).
     case r of
       Inl e \<Rightarrow>
         if e = EOL \<and> snd f then Inr (Inr (map (\<lambda>f. zeroField (fst f)) (f # fs)), s)
         else Inr (Inl (if e = EOL then decodeError ''too few elements'' else e), s)
     | Inr v \<Rightarrow> resultS (\<lambda>vs. v # vs) (decodeFields fs s))"

definition DecodeBytes :: "rtype \<Rightarrow> bytes \<Rightarrow> (rlperror + rval) go" where
  "DecodeBytes t b =
     andThen (decoder t (Stream_Reset b (of_nat (length b)))) (\<lambda>(r, s).
     Inr (case r of Inl e \<Rightarrow> Inl e | Inr v \<Rightarrow> if 0 < length (s_r s) then Inl ErrMoreThanOneValue else Inr v))"

section \<open>The encoding of a value\<close>

text \<open>The reference encoding, the values that have one and no other value shares, and the types for which the
  codec is used: integers have up to eight bytes, optional fields are pointers and come last, and a pointer
  that may be nil points to a type without empty values.\<close>

fun encoding :: "rtype \<Rightarrow> rval \<Rightarrow> bytes" and encFields :: "(rtype \<times> bool) list \<Rightarrow> rval list \<Rightarrow> bytes" where
  "encoding t (VBigInt i) = (case i of None \<Rightarrow> enc_str [] | Some i \<Rightarrow> enc_uint (nat i))"
| "encoding t (VUint n) = enc_uint (unat n)"
| "encoding t (VBool b) = enc_str (if b then [1] else [])"
| "encoding t (VBytes b) = enc_str b"
| "encoding t (VList vs) =
     (case t of TSlice t \<Rightarrow> enc_list (concat (map (encoding t) vs)) | TStruct fs \<Rightarrow> enc_list (encFields fs vs) | _ \<Rightarrow> [])"
| "encoding t (VPtr None) = (case t of TPtr k ok t \<Rightarrow> [nilEncoding k] | _ \<Rightarrow> [])"
| "encoding t (VPtr (Some v)) = (case t of TPtr k ok t \<Rightarrow> encoding t v | _ \<Rightarrow> [])"
| "encFields fs [] = []"
| "encFields fs (v # vs) =
     (case fs of
        [] \<Rightarrow> []
      | f # fs \<Rightarrow> if snd f \<and> list_all IsZero (v # vs) then [] else encoding (fst f) v @ encFields fs vs)"

fun has_type :: "rtype \<Rightarrow> rval \<Rightarrow> bool" and has_fields :: "(rtype \<times> bool) list \<Rightarrow> rval list \<Rightarrow> bool" where
  "has_type t (VBigInt i) \<longleftrightarrow> t = TBigInt \<and> (case i of None \<Rightarrow> False | Some i \<Rightarrow> 0 \<le> i)"
| "has_type t (VUint n) \<longleftrightarrow> (case t of TUint m \<Rightarrow> unat n < 2 ^ (8 * m) | _ \<Rightarrow> False)"
| "has_type t (VBool b) \<longleftrightarrow> t = TBool"
| "has_type t (VBytes b) \<longleftrightarrow> (case t of TBytes \<Rightarrow> True | TByteArray len \<Rightarrow> length b = len | _ \<Rightarrow> False)"
| "has_type t (VList vs) \<longleftrightarrow>
     (case t of TSlice t \<Rightarrow> \<forall>v\<in>set vs. has_type t v | TStruct fs \<Rightarrow> has_fields fs vs | _ \<Rightarrow> False)"
| "has_type t (VPtr None) \<longleftrightarrow> (case t of TPtr k ok t \<Rightarrow> ok | _ \<Rightarrow> False)"
| "has_type t (VPtr (Some v)) \<longleftrightarrow> (case t of TPtr k ok t \<Rightarrow> has_type t v | _ \<Rightarrow> False)"
| "has_fields fs [] \<longleftrightarrow> fs = []"
| "has_fields fs (v # vs) \<longleftrightarrow>
     (case fs of
        [] \<Rightarrow> False
      | f # fs' \<Rightarrow> snd f \<and> v # vs = map (\<lambda>f. zeroField (fst f)) fs \<or> has_type (fst f) v \<and> has_fields fs' vs)"

fun never_empty :: "rtype \<Rightarrow> bool" where
  "never_empty (TByteArray len) \<longleftrightarrow> 0 < len"
| "never_empty (TStruct fs) \<longleftrightarrow> fs \<noteq> [] \<and> \<not> snd (hd fs)"
| "never_empty _ \<longleftrightarrow> False"

fun ptr_type :: "rtype \<Rightarrow> bool" where
  "ptr_type TBigInt \<longleftrightarrow> True"
| "ptr_type (TPtr k ok t) \<longleftrightarrow> \<not> ok"
| "ptr_type _ \<longleftrightarrow> False"

fun fields_ok :: "(rtype \<times> bool) list \<Rightarrow> bool" where
  "fields_ok [] \<longleftrightarrow> True"
| "fields_ok (f # fs) \<longleftrightarrow> (snd f \<longrightarrow> ptr_type (fst f) \<and> list_all snd fs) \<and> fields_ok fs"

fun typ_ok :: "rtype \<Rightarrow> bool" where
  "typ_ok (TUint m) \<longleftrightarrow> 1 \<le> m \<and> m \<le> 8"
| "typ_ok (TByteArray len) \<longleftrightarrow> len < 2 ^ 63"
| "typ_ok (TSlice t) \<longleftrightarrow> typ_ok t"
| "typ_ok (TStruct fs) \<longleftrightarrow> (\<forall>f\<in>set fs. typ_ok (fst f)) \<and> fields_ok fs"
| "typ_ok (TPtr k ok t) \<longleftrightarrow> typ_ok t \<and> k \<noteq> Byte \<and> (ok \<longrightarrow> never_empty t)"
| "typ_ok _ \<longleftrightarrow> True"

section \<open>Decoding accepts canonical encodings only\<close>

lemma wrapStreamError_EOL [simp]: "wrapStreamError e = EOL \<longleftrightarrow> e = EOL"
  by (simp add: wrapStreamError_def split: rlperror.split)

lemma wrapS_simps [simp]:
  "wrapS (Inr (Inl e, s)) = Inr (Inl (wrapStreamError e), s)" "wrapS (Inr (Inr a, s)) = Inr (Inr a, s)"
  "resultS f (Inr (Inl e, s)) = Inr (Inl e, s)" "resultS f (Inr (Inr a, s)) = Inr (Inr (f a), s)"
  "thenS (Inr (Inl e, s)) g = Inr (Inl e, s)" "thenS (Inr (Inr a, s)) g = g a s"
  by (simp_all add: wrapS_def resultS_def thenS_def)

lemma good_mono: "good R s v s' \<Longrightarrow> (\<And>w. R v w \<Longrightarrow> R' v' w) \<Longrightarrow> good R' s v' s'"
  by (auto simp: good_def)

lemma outcome_wrap:
  assumes "outcome R s res"
  shows "outcome R s (wrapS res)"
proof -
  obtain r s' where "res = Inr (r, s')" "r \<noteq> Inl EOL" "\<And>v. r = Inr v \<Longrightarrow> good R s v s' \<and> length (s_r s') < length (s_r s)"
    using assms by (auto simp: outcome_def)
  then show ?thesis
    by (cases r) (auto simp: outcome_def)
qed

lemma outcome_result:
  assumes "outcome R s res" "\<And>v w. R v w \<Longrightarrow> R' (f v) w"
  shows "outcome R' s (resultS f res)"
proof -
  obtain r s' where "res = Inr (r, s')" "r \<noteq> Inl EOL" "\<And>v. r = Inr v \<Longrightarrow> good R s v s' \<and> length (s_r s') < length (s_r s)"
    using assms(1) by (auto simp: outcome_def)
  then show ?thesis
    using good_mono [of R s _ s' R'] assms(2) by (cases r) (auto simp: outcome_def)
qed

lemma accepts_only_wrap: "accepts_only op R s \<Longrightarrow> accepts_only (\<lambda>s. wrapS (op s)) R s"
  by (auto simp: accepts_only_def outcome_wrap wrapStreamError_def split: if_splits)

lemma accepts_only_result:
  assumes "accepts_only op R s" "\<And>v w. R v w \<Longrightarrow> R' (f v) w"
  shows "accepts_only (\<lambda>s. resultS f (op s)) R' s"
  using assms by (auto simp: accepts_only_def outcome_result split: if_splits)

text \<open>A body that reads the content of a list.\<close>

definition body_only :: "('a \<Rightarrow> bytes \<Rightarrow> bool) \<Rightarrow> (Stream \<Rightarrow> 'a sres) \<Rightarrow> Stream \<Rightarrow> bool" where
  "body_only R body s \<longleftrightarrow>
     (\<exists>r s'. body s = Inr (r, s') \<and> r \<noteq> Inl EOL \<and> (\<forall>v. r = Inr v \<longrightarrow> good R s v s'))"

lemma list_closed:
  assumes s1: "ahead List n s s1" and e: "at_end s3" and q: "good R (opened n s1) v s3"
  shows "outcome (\<lambda>v w. \<exists>c. R v c \<and> w = enc_list c) s (Inr (Inr v, closed s3))"
proof -
  have h: "reads (length (head 0xC0 0xF7 (unat n))) s s1"
    using s1 by (auto simp: ahead_def read_header_def header_of_def Let_def)
  have "length (s_r s1) < length (s_r s)" "length (s_stack s1) = length (s_stack s)"
    using h length_head(2) [of "0xC0" "0xF7" "unat n"]
    by (auto simp: reads_def adv_def simp del: length_greater_0_conv split: list.split)
  then have "length (s_r (closed s3)) < length (s_r s)" "length (s_stack (closed s3)) = length (s_stack s)"
    using q by (auto simp: good_def closed_def opened_def split: list.splits)
  moreover have "fits s \<and> (\<exists>w. (\<exists>c. R v c \<and> w = enc_list c) \<and> reads_enc w s (closed s3))" if ft: "fits (closed s3)"
  proof -
    obtain c where c: "fits (opened n s1)" "R v c" "reads_enc c (opened n s1) s3"
      using q ft closed_fits [OF e] by (auto simp: good_def)
    have "reads_enc (enc_list c) s (closed s3)"
      using list_read(2) [OF s1 c(3) e opened_fits(2) [OF c(1) reads_ok [OF h]]] .
    then show ?thesis
      using opened_fits(1) [OF c(1) reads_ok [OF h]] c(2) reads_fits [OF h] by auto
  qed
  ultimately show ?thesis
    using q closed_fresh [of s3] by (simp add: outcome_def good_def fresh_def)
qed

lemma list_only:
  assumes f: "fresh s" and body: "\<And>n s. fresh s \<Longrightarrow> body_only R (body n) s"
    and W: "\<And>e s. e \<noteq> EOL \<Longrightarrow> \<exists>e'. W (Inr (Inl e, s)) = Inr (Inl e', s) \<and> e' \<noteq> EOL" "\<And>s. W (Inr (Inr (), s)) = Inr (Inr (), s)"
  shows "accepts_only (\<lambda>s. thenS (wrapS (s_List s)) (\<lambda>sz s. thenS (body sz s) (\<lambda>v s. resultS (\<lambda>_. v) (W (ListEnd s)))))
    (\<lambda>v w. \<exists>c. R v c \<and> w = enc_list c) s"
proof (cases "at_end s")
  case True
  then show ?thesis
    using s_List_result [OF f] by (simp add: accepts_only_def wrapStreamError_def)
next
  case False
  obtain r s2 where r: "s_List s = Inr (r, s2)" "r \<noteq> Inl EOL" "\<And>n. r = Inr n \<Longrightarrow> \<exists>s1. ahead List n s s1 \<and> s2 = opened n s1"
    using s_List_result [OF f] False by auto
  show ?thesis
  proof (cases r)
    case (Inl e)
    then show ?thesis
      using r False by (simp add: accepts_only_def outcome_Inl)
  next
    case (Inr n)
    obtain s1 where s1: "ahead List n s s1" "s2 = opened n s1"
      using r(3) Inr by blast
    have "stream_ok s1"
      using s1(1) reads_ok by (auto simp: ahead_def read_header_def Let_def)
    then have "fresh s2"
      using opened_fresh s1(2) by simp
    then obtain q s3 where q: "body n s2 = Inr (q, s3)" "q \<noteq> Inl EOL" "\<And>v. q = Inr v \<Longrightarrow> good R s2 v s3"
      using body [of s2 n] by (auto simp: body_only_def)
    show ?thesis
    proof (cases q)
      case (Inl e)
      then show ?thesis
        using r Inr q False by (simp add: accepts_only_def outcome_Inl)
    next
      case v: (Inr v)
      have "outcome (\<lambda>v w. \<exists>c. R v c \<and> w = enc_list c) s (resultS (\<lambda>_. v) (W (ListEnd s3)))"
      proof (cases "at_end s3")
        case True
        then show ?thesis
          using list_closed [OF s1(1) True, of R v] q(3) [OF v] s1(2) W(2) by (simp add: ListEnd_result)
      next
        case False
        obtain e where "ListEnd s3 = Inr (Inl e, s3)" "e \<noteq> EOL"
          using False by (simp add: ListEnd_result)
        then show ?thesis
          using W(1) [of e s3] by (auto simp: outcome_Inl)
      qed
      then show ?thesis
        using r(1) Inr q(1) v False by (simp add: accepts_only_def)
    qed
  qed
qed

text \<open>The elements of a slice.\<close>

lemma elems_only:
  assumes dec: "\<And>s. fresh s \<Longrightarrow> accepts_only dec (\<lambda>v w. P v \<and> w = enc' v) s"
  shows "fresh s \<Longrightarrow> length (s_r s) < n \<Longrightarrow>
    body_only (\<lambda>vs c. (\<forall>v\<in>set vs. P v) \<and> c = concat (map enc' vs)) (decodeSliceElems dec n) s"
proof (induction n arbitrary: s)
  case (Suc n)
  note d = dec [OF Suc.prems(1)]
  show ?case
  proof (cases "at_end s")
    case True
    then show ?thesis
      using d Suc.prems(1) reads_0 [of s] by (auto simp: accepts_only_def body_only_def good_def reads_enc_def fresh_def)
  next
    case False
    then obtain r s1 where r: "dec s = Inr (r, s1)" "r \<noteq> Inl EOL" "\<And>v. r = Inr v \<Longrightarrow>
        good (\<lambda>v w. P v \<and> w = enc' v) s v s1 \<and> length (s_r s1) < length (s_r s)"
      using d by (auto simp: accepts_only_def outcome_def)
    show ?thesis
    proof (cases r)
      case (Inl e)
      then show ?thesis
        using r by (auto simp: body_only_def)
    next
      case (Inr v)
      note r3 = r(3) [OF Inr]
      have "fresh s1" "length (s_r s1) < n"
        using r3 Suc.prems(2) by (auto simp: good_def)
      then obtain q s2 where q: "decodeSliceElems dec n s1 = Inr (q, s2)" "q \<noteq> Inl EOL" "\<And>vs. q = Inr vs \<Longrightarrow>
          good (\<lambda>vs c. (\<forall>v\<in>set vs. P v) \<and> c = concat (map enc' vs)) s1 vs s2"
        using Suc.IH [of s1] by (auto simp: body_only_def)
      show ?thesis
      proof (cases q)
        case (Inl e)
        then show ?thesis
          using r Inr q by (simp add: body_only_def)
      next
        case vs: (Inr vs)
        then show ?thesis
          using r3 q(3) [OF vs] r(1) Inr q(1) reads_enc_append [of "enc' v" s s1 "concat (map enc' vs)" s2]
          by (simp add: body_only_def good_def)
      qed
    qed
  qed
qed simp

text \<open>The fields of a struct.\<close>

lemma ptr_IsZero: "ptr_type t \<Longrightarrow> IsZero (zeroField t)" "ptr_type t \<Longrightarrow> has_type t v \<Longrightarrow> \<not> IsZero v"
  by (cases t; auto simp: IsZero_def)+

lemma optional_zero:
  "fields_ok fs \<Longrightarrow> list_all snd fs \<Longrightarrow> list_all IsZero (map (\<lambda>f. zeroField (fst f)) fs)"
  by (induction fs) (auto simp: ptr_IsZero)

lemma has_fields_zero: "list_all snd fs \<Longrightarrow> has_fields fs (map (\<lambda>f. zeroField (fst f)) fs)"
  by (cases fs) auto

lemma fields_only:
  assumes dec: "\<And>f s. f \<in> set fs \<Longrightarrow> fresh s \<Longrightarrow>
    accepts_only (decoder (fst f)) (\<lambda>v w. has_type (fst f) v \<and> w = encoding (fst f) v) s" and ok: "fields_ok fs"
  shows "fresh s \<Longrightarrow> body_only (\<lambda>vs c. has_fields fs vs \<and> c = encFields fs vs) (decodeFields fs) s"
  using assms
proof (induction fs arbitrary: s)
  case Nil
  then show ?case
    using reads_0 [of s] by (auto simp: body_only_def good_def reads_enc_def fresh_def)
next
  case (Cons f fs)
  have ok: "fields_ok fs" "snd f \<Longrightarrow> ptr_type (fst f) \<and> list_all snd fs"
    using Cons.prems(3) by auto
  note d = Cons.prems(2) [of f s, OF _ Cons.prems(1)]
  show ?case
  proof (cases "at_end s")
    case True
    have z: "encFields (f # fs) (map (\<lambda>f. zeroField (fst f)) (f # fs)) = []" if "snd f"
      using optional_zero [OF ok(1)] ok(2) that by (simp add: ptr_IsZero(1))
    have "reads_enc [] s s"
      using reads_0 [of s] Cons.prems(1) by (simp add: reads_enc_def fresh_def)
    then show ?thesis
      using True d Cons.prems(1) z by (auto simp: accepts_only_def body_only_def good_def)
  next
    case False
    then obtain r s1 where r: "decoder (fst f) s = Inr (r, s1)" "r \<noteq> Inl EOL" "\<And>v. r = Inr v \<Longrightarrow>
        good (\<lambda>v w. has_type (fst f) v \<and> w = encoding (fst f) v) s v s1"
      using d by (auto simp: accepts_only_def outcome_def)
    show ?thesis
    proof (cases r)
      case (Inl e)
      then show ?thesis
        using r by (auto simp: body_only_def)
    next
      case (Inr v)
      note r3 = r(3) [OF Inr]
      have "fresh s1"
        using r3 by (simp add: good_def)
      then obtain q s2 where q: "decodeFields fs s1 = Inr (q, s2)" "q \<noteq> Inl EOL" "\<And>vs. q = Inr vs \<Longrightarrow>
          good (\<lambda>vs c. has_fields fs vs \<and> c = encFields fs vs) s1 vs s2"
        using Cons.IH [OF _ Cons.prems(2) ok(1), of s1] by (auto simp: body_only_def)
      show ?thesis
      proof (cases q)
        case (Inl e)
        then show ?thesis
          using r Inr q by (simp add: body_only_def)
      next
        case vs: (Inr vs)
        have "encFields (f # fs) (v # vs) = encoding (fst f) v @ encFields fs vs" if "has_type (fst f) v"
          using ptr_IsZero(2) ok(2) that by auto
        then show ?thesis
          using r3 q(3) [OF vs] r(1) Inr q(1) vs reads_enc_append [of "encoding (fst f) v" s s1 "encFields fs vs" s2]
          by (simp add: body_only_def good_def)
      qed
    qed
  qed
qed

text \<open>Asking for the kind of the next value does not change what a decoder returns.\<close>

lemma ops_Kind:
  assumes "Kind s = Inr (r, s1)"
  shows "decodeBigInt s1 = decodeBigInt s" "s_uint m s1 = s_uint m s" "s_Bool s1 = s_Bool s" "Bytes s1 = Bytes s"
    "decodeByteArray len s1 = decodeByteArray len s" "s_List s1 = s_List s"
  using assms Kind_again [OF assms]
  by (simp_all add: decodeBigInt_def s_uint_def s_Bool_def Bytes_def decodeByteArray_def s_List_def)

lemma decoder_Kind: "Kind s = Inr (r, s1) \<Longrightarrow> decoder t s1 = decoder t s"
proof (induction t arbitrary: r)
  case (TPtr k ok t)
  then show ?case
    using Kind_again [OF TPtr.prems] by (simp add: nilPtrDecoder_def)
qed (simp_all add: ops_Kind [of s _ s1] decodeListSlice_def)

lemma decodeByteArray_only:
  assumes "len < 2 ^ 63"
  shows "fresh s \<Longrightarrow> accepts_only (decodeByteArray len) (\<lambda>b w. length b = len \<and> w = enc_str b) s"
  unfolding decodeByteArray_def
proof (rule thenS_Kind, goal_cases)
  case (2 k n s1)
  note a = \<open>ahead k n s s1\<close>
  show ?case
  proof (cases k)
    case Byte
    then show ?thesis
      using byte_content [of n s s1] a by (auto intro!: reads_enc_outcome outcome_Inl)
  next
    case String
    show ?thesis
    proof (cases rule: linorder_cases [of n "of_nat len"])
      case equal
      then have n: "unat n = len"
        using assms by (simp add: unat_of_nat)
      have "outcome (\<lambda>b w. length b = len \<and> w = enc_str b) s (Inr (case readFull (unat n) s1 of
          (Inl e, s) \<Rightarrow> (Inl e, s)
        | (Inr b, s) \<Rightarrow> if n = 1 \<and> b ! 0 < 128 then (Inl (wrapStreamError ErrCanonSize), s) else (Inr b, s)))"
        using a String n by (intro string_outcome) (auto intro!: reads_enc_outcome outcome_Inl)
      then show ?thesis
        using String n by (simp add: equal [symmetric] split del: if_split)
    qed (use String in \<open>simp_all add: outcome_Inl\<close>)
  qed (simp add: outcome_Inl)
qed

lemma s_Bool_only: "fresh s \<Longrightarrow> accepts_only s_Bool (\<lambda>b w. w = enc_str (if b then [1] else [])) s"
proof -
  assume f: "fresh s"
  note u = s_uint_only [OF f, of 1]
  show ?thesis
  proof (cases "at_end s")
    case True
    then show ?thesis
      using u by (simp add: accepts_only_def s_Bool_def)
  next
    case False
    then obtain r s' where r: "s_uint 8 s = Inr (r, s')" "r \<noteq> Inl EOL" "\<And>v. r = Inr v \<Longrightarrow>
        good (\<lambda>v w. w = enc_uint (unat v)) s v s' \<and> length (s_r s') < length (s_r s)"
      using u by (auto simp: accepts_only_def outcome_def good_def)
    have "enc_uint 0 = enc_str []" "enc_uint 1 = enc_str [1]"
      by (simp_all add: enc_uint_def uint_bytes_def be_min_byte)
    then show ?thesis
      using False r by (cases r) (auto simp: accepts_only_def s_Bool_def outcome_def good_def)
  qed
qed

lemma nilPtr_only:
  assumes f: "fresh s" and k: "nilKind \<noteq> Byte"
    and dec: "accepts_only dec R s" and again: "\<And>r s1. Kind s = Inr (r, s1) \<Longrightarrow> dec s1 = dec s"
  shows "accepts_only (nilPtrDecoder nilKind dec)
    (\<lambda>v w. v = VPtr None \<and> w = [nilEncoding nilKind] \<or> (\<exists>u. v = VPtr (Some u) \<and> R u w)) s"
proof (cases "at_end s")
  case True
  then show ?thesis
    using f by (simp add: accepts_only_def nilPtrDecoder_def Kind_EOL fresh_def wrapStreamError_def)
next
  case False
  let ?R = "\<lambda>v w. v = VPtr None \<and> w = [nilEncoding nilKind] \<or> (\<exists>u. v = VPtr (Some u) \<and> R u w)"
  obtain r s1 where r: "Kind s = Inr (r, s1)" "r \<noteq> Inl EOL" "\<And>k n. r = Inr (k, n) \<Longrightarrow> ahead k n s s1"
    using Kind_result [OF f False] by blast
  show ?thesis
  proof (cases r)
    case (Inl e)
    then show ?thesis
      using r False by (simp add: accepts_only_def nilPtrDecoder_def outcome_Inl)
  next
    case (Inr kn)
    obtain k' n where kn: "kn = (k', n)"
      by fastforce
    note a = r(3) [OF Inr [unfolded kn]]
    have "outcome ?R s (if k' \<noteq> Byte \<and> n = 0
        then Inr (if k' \<noteq> nilKind then (Inl (decodeError ''wrong kind of empty value''), s1) else (Inr (VPtr None), s1\<lparr>s_kind := None\<rparr>))
        else resultS (\<lambda>v. VPtr (Some v)) (dec s1))"
    proof (cases "k' \<noteq> Byte \<and> n = 0")
      case True
      then have "reads_enc [nilEncoding k'] s (s1\<lparr>s_kind := None\<rparr>)"
        using a by (cases k') (auto simp: ahead_def read_header_def header_of_def reads_enc_def head_def nilEncoding_def)
      then show ?thesis
        using True by (auto intro!: reads_enc_outcome outcome_Inl)
    next
      case c: False
      have "outcome R s (dec s)"
        using dec False by (simp add: accepts_only_def)
      then have "outcome ?R s (resultS (\<lambda>v. VPtr (Some v)) (dec s))"
        by (rule outcome_result) simp
      then show ?thesis
        unfolding again [OF r(1)] using c by (simp only: if_False)
    qed
    then show ?thesis
      using r(1) Inr kn False by (simp add: accepts_only_def nilPtrDecoder_def)
  qed
qed

lemma decodeListSlice_list:
  "decodeListSlice dec s = thenS (wrapS (s_List s)) (\<lambda>sz s.
     thenS ((\<lambda>sz s. if sz = 0 then Inr (Inr [], s) else decodeSliceElems dec (length (s_r s) + 1) s) sz s)
       (\<lambda>v s. resultS (\<lambda>_. v) (id (ListEnd s))))"
  unfolding decodeListSlice_def by (intro arg_cong [of _ _ "thenS (wrapS (s_List s))"] ext) simp

definition decodes_only :: "rtype \<Rightarrow> bool" where
  "decodes_only t \<longleftrightarrow> (\<forall>s. fresh s \<longrightarrow> accepts_only (decoder t) (\<lambda>v w. has_type t v \<and> w = encoding t v) s)"

lemma decodes_onlyI:
  assumes "\<And>s. decoder t s = resultS f (op s)" "\<And>s. fresh s \<Longrightarrow> accepts_only op R s"
    and "\<And>v w. R v w \<Longrightarrow> has_type t (f v) \<and> w = encoding t (f v)"
  shows "decodes_only t"
proof -
  have "decoder t = (\<lambda>s. resultS f (op s))"
    using assms(1) by (rule ext)
  then show ?thesis
    using accepts_only_result [OF assms(2), where f = f and R' = "\<lambda>v w. has_type t v \<and> w = encoding t v"] assms(3)
    by (simp add: decodes_only_def)
qed

lemma bigint_only: "decodes_only TBigInt"
  by (rule decodes_onlyI [where f = "\<lambda>i. VBigInt (Some i)", OF _ accepts_only_wrap [OF decodeBigInt_only]]) simp_all

lemma uint_only: "1 \<le> m \<Longrightarrow> m \<le> 8 \<Longrightarrow> decodes_only (TUint m)"
  by (rule decodes_onlyI [where f = VUint, OF _ accepts_only_wrap [OF s_uint_only]]) simp_all

lemma bool_only: "decodes_only TBool"
  by (rule decodes_onlyI [where f = VBool, OF _ accepts_only_wrap [OF s_Bool_only]]) simp_all

lemma bytes_only: "decodes_only TBytes"
  by (rule decodes_onlyI [where f = VBytes, OF _ accepts_only_wrap [OF Bytes_only]]) simp_all

lemma array_only: "len < 2 ^ 63 \<Longrightarrow> decodes_only (TByteArray len)"
  by (rule decodes_onlyI [where f = VBytes, OF _ decodeByteArray_only]) simp_all

lemma slice_only:
  assumes "decodes_only t"
  shows "decodes_only (TSlice t)"
proof (rule decodes_onlyI)
  let ?body = "\<lambda>sz s. if sz = 0 then Inr (Inr [], s) else decodeSliceElems (decoder t) (length (s_r s) + 1) s"
  let ?R = "\<lambda>vs c. (\<forall>v\<in>set vs. has_type t v) \<and> c = concat (map (encoding t) vs)"
  have b: "body_only ?R (?body n) s" if "fresh s" for n :: uint64 and s
  proof (cases "n = 0")
    case True
    then show ?thesis
      using that reads_0 [of s] by (auto simp: body_only_def good_def reads_enc_def fresh_def)
  next
    case False
    have "body_only ?R (decodeSliceElems (decoder t) (length (s_r s) + 1)) s"
      using assms that by (intro elems_only) (auto simp: decodes_only_def)
    then show ?thesis
      using False by (simp add: body_only_def)
  qed
  show "accepts_only (decodeListSlice (decoder t)) (\<lambda>v w. \<exists>c. ?R v c \<and> w = enc_list c) s" if "fresh s" for s
    using list_only [OF that b, of id] unfolding decodeListSlice_list [abs_def] by simp
qed auto

lemma decoder_struct:
  "decoder (TStruct fs) s = resultS VList (thenS (wrapS (s_List s)) (\<lambda>sz s.
     thenS (decodeFields fs s) (\<lambda>v s. resultS (\<lambda>_. v) (wrapS (ListEnd s)))))"
  by (auto simp: resultS_def thenS_def andThen_assoc intro!: arg_cong [where f = "andThen _"] ext split: sum.split)

lemma struct_only:
  assumes "\<And>f. f \<in> set fs \<Longrightarrow> decodes_only (fst f)" "fields_ok fs"
  shows "decodes_only (TStruct fs)"
proof (rule decodes_onlyI)
  let ?op = "\<lambda>s. thenS (wrapS (s_List s)) (\<lambda>sz s. thenS (decodeFields fs s) (\<lambda>v s. resultS (\<lambda>_. v) (wrapS (ListEnd s))))"
  let ?R = "\<lambda>vs c. has_fields fs vs \<and> c = encFields fs vs"
  show "decoder (TStruct fs) s = resultS VList (?op s)" for s
    by (rule decoder_struct)
  have "body_only ?R (decodeFields fs) s" if "fresh s" for s
    using assms that by (intro fields_only) (auto simp: decodes_only_def)
  then show "accepts_only ?op (\<lambda>v w. \<exists>c. ?R v c \<and> w = enc_list c) s" if "fresh s" for s
    using list_only [OF that, of ?R "\<lambda>_. decodeFields fs" wrapS] by simp
qed auto

lemma ptr_only:
  assumes "decodes_only t" "k \<noteq> Byte"
  shows "decodes_only (TPtr k ok t)"
proof (cases ok)
  case False
  then show ?thesis
    using assms(1) by (intro decodes_onlyI [of _ _ "decoder t"]) (auto simp: decodes_only_def)
next
  case True
  have "decoder (TPtr k ok t) = nilPtrDecoder k (decoder t)"
    using True by (intro ext) simp
  moreover have "accepts_only (\<lambda>s. resultS id (nilPtrDecoder k (decoder t) s)) (\<lambda>v w. has_type (TPtr k ok t) v \<and> w = encoding (TPtr k ok t) v) s"
    if f: "fresh s" for s
  proof (rule accepts_only_result)
    show "accepts_only (nilPtrDecoder k (decoder t)) (\<lambda>v w. v = VPtr None \<and> w = [nilEncoding k] \<or>
        (\<exists>u. v = VPtr (Some u) \<and> has_type t u \<and> w = encoding t u)) s"
      using assms f decoder_Kind by (intro nilPtr_only) (auto simp: decodes_only_def)
  qed (use True in auto)
  moreover have "resultS id x = x" for x :: "rval sres"
    by (cases x) (auto simp: resultS_def thenS_def split: sum.split)
  ultimately show ?thesis
    by (simp add: decodes_only_def)
qed

lemma decoder_only: "typ_ok t \<Longrightarrow> decodes_only t"
proof (induction t)
  case (TStruct fs)
  then show ?case
    by (intro struct_only) (auto simp: fsts.simps)
qed (simp_all add: bigint_only uint_only bool_only bytes_only array_only slice_only ptr_only)

section \<open>Decoding accepts every encoding\<close>

definition decodes :: "rtype \<Rightarrow> bool" where
  "decodes t \<longleftrightarrow> (\<forall>s v. fresh s \<longrightarrow> has_type t v \<longrightarrow> accepts (decoder t) v (encoding t v) s)"

lemma typed_cases:
  assumes "has_type t v"
  obtains i where "t = TBigInt" "v = VBigInt (Some i)" "0 \<le> i"
  | m n where "t = TUint m" "v = VUint n" "unat n < 2 ^ (8 * m)"
  | b where "t = TBool" "v = VBool b"
  | b where "t = TBytes" "v = VBytes b"
  | b where "t = TByteArray (length b)" "v = VBytes b"
  | t' vs where "t = TSlice t'" "v = VList vs" "\<forall>v\<in>set vs. has_type t' v"
  | fs vs where "t = TStruct fs" "v = VList vs" "has_fields fs vs"
  | k t' where "t = TPtr k True t'" "v = VPtr None"
  | k ok t' u where "t = TPtr k ok t'" "v = VPtr (Some u)" "has_type t' u"
proof (cases v)
  case (VPtr x)
  then show ?thesis
    using assms that by (cases x) (auto split: rtype.splits)
qed (use assms that in \<open>auto split: rtype.splits option.splits\<close>)

lemma accepts_result: "accepts op v w s \<Longrightarrow> accepts (\<lambda>s. resultS f (op s)) (f v) w s"
  unfolding accepts_def by fastforce

lemma accepts_wrap: "accepts op v w s \<Longrightarrow> accepts (\<lambda>s. wrapS (op s)) v w s"
  unfolding accepts_def by fastforce

lemma decodesI:
  assumes "\<And>s. decoder t s = resultS f (op s)" "\<And>v. has_type t v \<Longrightarrow> \<exists>u. v = f u \<and> R u"
    and "\<And>s u. fresh s \<Longrightarrow> R u \<Longrightarrow> accepts op u (encoding t (f u)) s"
  shows "decodes t"
proof -
  have "decoder t = (\<lambda>s. resultS f (op s))"
    using assms(1) by (rule ext)
  then show ?thesis
    unfolding decodes_def using accepts_result [OF assms(3), where f = f] assms(2) by metis
qed

lemma bigint_decodes: "decodes TBigInt"
proof (rule decodesI [where f = "\<lambda>i. VBigInt (Some i)" and R = "\<lambda>i. 0 \<le> i"])
  show "has_type TBigInt v \<Longrightarrow> \<exists>u. v = VBigInt (Some u) \<and> 0 \<le> u" for v
    by (auto elim!: typed_cases split: option.splits)
  show "accepts (\<lambda>s. wrapS (decodeBigInt s)) u (encoding TBigInt (VBigInt (Some u))) s" if "fresh s" "0 \<le> u" for s u
    using accepts_wrap [OF decodeBigInt_accepts [OF that(1), of "nat u"]] that(2) by simp
qed simp

lemma uint_decodes: "m \<le> 8 \<Longrightarrow> decodes (TUint m)"
proof (rule decodesI [where f = VUint and R = "\<lambda>n. unat n < 2 ^ (8 * m)"])
  show "has_type (TUint m) v \<Longrightarrow> \<exists>u. v = VUint u \<and> unat u < 2 ^ (8 * m)" for v
    by (auto elim!: typed_cases split: option.splits)
  show "accepts (\<lambda>s. wrapS (s_uint (8 * m) s)) u (encoding (TUint m) (VUint u)) s"
    if "m \<le> 8" "fresh s" "unat u < 2 ^ (8 * m)" for s u
    using accepts_wrap [OF s_uint_accepts [OF that(2,1,3)]] by simp
qed simp

lemma s_Bool_accepts: "fresh s \<Longrightarrow> accepts s_Bool b (enc_str (if b then [1] else [])) s"
proof -
  assume f: "fresh s"
  have "enc_uint (unat (of_bool b :: uint64)) = enc_str (if b then [1] else [])"
    by (simp add: enc_uint_def uint_bytes_def be_min_byte)
  then show ?thesis
    using s_uint_accepts [OF f, of 1 "of_bool b"] by (fastforce simp: accepts_def s_Bool_def)
qed

lemma bool_decodes: "decodes TBool"
proof (rule decodesI [where f = VBool and R = "\<lambda>_. True"])
  show "has_type TBool v \<Longrightarrow> \<exists>u. v = VBool u \<and> True" for v
    by (auto elim!: typed_cases split: option.splits)
  show "accepts (\<lambda>s. wrapS (s_Bool s)) u (encoding TBool (VBool u)) s" if "fresh s" for s u
    using accepts_wrap [OF s_Bool_accepts [OF that]] by simp
qed simp

lemma bytes_decodes: "decodes TBytes"
proof (rule decodesI [where f = VBytes and R = "\<lambda>_. True"])
  show "has_type TBytes v \<Longrightarrow> \<exists>u. v = VBytes u \<and> True" for v
    by (auto elim!: typed_cases split: option.splits)
  show "accepts (\<lambda>s. wrapS (Bytes s)) u (encoding TBytes (VBytes u)) s" if "fresh s" for s u
    using accepts_wrap [OF Bytes_accepts [OF that]] by simp
qed simp

lemma decodeByteArray_accepts:
  assumes "fresh s" "length b < 2 ^ 63"
  shows "accepts (decodeByteArray (length b)) b (enc_str b) s"
  unfolding accepts_def
proof (intro allI impI)
  fix rest
  assume r: "s_r s = enc_str b @ rest" "room (length (enc_str b)) s"
  note k = Kind_string [OF assms(1) r]
  show "\<exists>s'. decodeByteArray (length b) s = Inr (Inr b, s') \<and> reads_enc (enc_str b) s s'"
  proof (cases "length b = 1 \<and> unat (b ! 0) < 128")
    case True
    then obtain s1 where "Kind s = Inr (Inr (Byte, 0), s1)" "ahead Byte 0 s s1" "b = [s_byteval s1]"
      using k by auto
    then show ?thesis
      using byte_content(1) [of 0 s s1] by (simp add: decodeByteArray_def)
  next
    case False
    then obtain s1 s' where "Kind s = Inr (Inr (String, of_nat (length b)), s1)"
      "readFull (length b) s1 = (Inr b, s')" "reads_enc (enc_str b) s s'"
      using k by auto
    moreover have "\<not> (of_nat (length b) = (1 :: uint64) \<and> b ! 0 < 128)"
      using False assms(2) by (auto simp: byte_less u64_eq_iff unat_of_nat)
    ultimately show ?thesis
      by (simp add: decodeByteArray_def)
  qed
qed

lemma array_decodes:
  assumes "len < 2 ^ 63"
  shows "decodes (TByteArray len)"
proof (rule decodesI [where f = VBytes and R = "\<lambda>b. length b = len"])
  show "has_type (TByteArray len) v \<Longrightarrow> \<exists>u. v = VBytes u \<and> length u = len" for v
    by (auto elim!: typed_cases split: option.splits)
  show "accepts (decodeByteArray len) u (encoding (TByteArray len) (VBytes u)) s" if "fresh s" "length u = len" for s u
    using decodeByteArray_accepts [OF that(1), of u] that(2) assms by simp
qed simp

lemma encoding_nonempty: "has_type t v \<Longrightarrow> encoding t v \<noteq> []"
  by (induction t arbitrary: v; erule typed_cases; simp add: enc_list_def)

text \<open>An input that starts with the content of the innermost open list.\<close>

definition content :: "bytes \<Rightarrow> Stream \<Rightarrow> bool" where
  "content c s \<longleftrightarrow> fresh s \<and> (\<exists>rest l ls. s_r s = c @ rest \<and> s_stack s = l # ls \<and> unat l = length c)"

lemma content_reads:
  assumes "content (v @ c) s" "reads_enc v s s1"
  shows "content c s1"
proof -
  obtain rest l ls where "s_r s = (v @ c) @ rest" "s_stack s = l # ls" "unat l = length v + length c"
    using assms(1) by (auto simp: content_def)
  moreover from this have "unat (l - of_nat (length v)) = length c"
    using unat_sub_nat [of "length v" l] by simp
  ultimately show ?thesis
    using assms(2) reads_enc_fresh [OF assms(2)] by (auto simp: content_def reads_enc_def reads_def adv_def)
qed

lemma content_accepts:
  assumes "content (w @ c) s" "accepts op v w s"
  shows "\<exists>s1. op s = Inr (Inr v, s1) \<and> reads_enc w s s1 \<and> content c s1"
  using assms content_reads by (fastforce simp: content_def accepts_def room_def)

lemma content_end: "content [] s \<Longrightarrow> at_end s \<and> fresh s \<and> reads_enc [] s s"
  by (auto simp: content_def at_end_def reads_enc_def fresh_def reads_0 unat_eq_0)

lemma list_accepts:
  assumes f: "fresh s" and body: "\<And>s. content c s \<Longrightarrow> length c < 2 ^ 63 \<Longrightarrow>
      \<exists>s'. body (of_nat (length c)) s = Inr (Inr v, s') \<and> reads_enc c s s'"
    and W: "\<And>s. W (Inr (Inr (), s)) = Inr (Inr (), s)"
  shows "accepts (\<lambda>s. thenS (wrapS (s_List s)) (\<lambda>sz s. thenS (body sz s) (\<lambda>v s. resultS (\<lambda>_. v) (W (ListEnd s)))))
    v (enc_list c) s"
  unfolding accepts_def
proof (intro allI impI)
  fix rest
  let ?n = "of_nat (length c) :: uint64"
  assume r: "s_r s = enc_list c @ rest" "room (length (enc_list c)) s"
  obtain s1 where s1: "s_List s = Inr (Inr ?n, opened ?n s1)" "ahead List ?n s s1" "s_r s1 = c @ rest"
      "\<And>l ls. s_stack s1 = l # ls \<Longrightarrow> unat ?n \<le> unat l" "unat ?n = length c"
    using s_List_accepts [OF f r] by auto
  have "stream_ok s1"
    using s1(2) reads_ok by (auto simp: ahead_def read_header_def Let_def)
  then have c: "content c (opened ?n s1)" "length c < 2 ^ 63"
    using s1(3,5) by (auto simp: content_def opened_fresh opened_def fresh_def stream_ok_def)
  obtain s3 where s3: "body ?n (opened ?n s1) = Inr (Inr v, s3)" "reads_enc c (opened ?n s1) s3"
    using body [OF c] by blast
  have e: "at_end s3"
    using content_reads [of c "[]" "opened ?n s1" s3] c(1) s3(2) content_end by simp
  show "\<exists>s'. thenS (wrapS (s_List s)) (\<lambda>sz s. thenS (body sz s) (\<lambda>v s. resultS (\<lambda>_. v) (W (ListEnd s)))) = Inr (Inr v, s') \<and>
      reads_enc (enc_list c) s s'"
    using s1(1) s3(1) e W list_read(2) [OF s1(2) s3(2) e s1(4)] by (simp add: ListEnd_result)
qed

lemma elems_accepts:
  assumes "\<And>s v. fresh s \<Longrightarrow> v \<in> set vs \<Longrightarrow> accepts dec v (enc' v) s" "\<And>s. fresh s \<Longrightarrow> at_end s \<Longrightarrow> dec s = Inr (Inl EOL, s)"
  shows "content (concat (map enc' vs)) s \<Longrightarrow> length vs < n \<Longrightarrow>
    \<exists>s'. decodeSliceElems dec n s = Inr (Inr vs, s') \<and> reads_enc (concat (map enc' vs)) s s'"
  using assms(1)
proof (induction vs arbitrary: s n)
  case Nil
  then obtain m where "n = Suc m"
    by (cases n) auto
  then show ?case
    using content_end [of s] Nil.prems(1) assms(2) by auto
next
  case (Cons v vs)
  then obtain m where m: "n = Suc m" "length vs < m"
    by (cases n) auto
  have "fresh s"
    using Cons.prems(1) by (simp add: content_def)
  then obtain s1 where s1: "dec s = Inr (Inr v, s1)" "reads_enc (enc' v) s s1" "content (concat (map enc' vs)) s1"
    using content_accepts [of "enc' v" "concat (map enc' vs)" s dec v] Cons.prems(1,3) by auto
  obtain s2 where "decodeSliceElems dec m s1 = Inr (Inr vs, s2)" "reads_enc (concat (map enc' vs)) s1 s2"
    using Cons.IH [OF s1(3) m(2)] Cons.prems(3) by auto
  then show ?case
    using m(1) s1 reads_enc_append [of "enc' v" s s1] by simp
qed

lemma fields_accepts:
  assumes "\<And>f s v. f \<in> set fs \<Longrightarrow> fresh s \<Longrightarrow> has_type (fst f) v \<Longrightarrow> accepts (decoder (fst f)) v (encoding (fst f) v) s"
    and "\<And>f s. f \<in> set fs \<Longrightarrow> fresh s \<Longrightarrow> at_end s \<Longrightarrow> decoder (fst f) s = Inr (Inl EOL, s)"
    and "fields_ok fs" "has_fields fs vs" "content (encFields fs vs) s"
  shows "\<exists>s'. decodeFields fs s = Inr (Inr vs, s') \<and> reads_enc (encFields fs vs) s s'"
  using assms
proof (induction fs arbitrary: vs s)
  case Nil
  then show ?case
    using content_end [of s] by (cases vs) auto
next
  case (Cons f fs)
  obtain v vs' where vs: "vs = v # vs'"
    using Cons.prems(4) by (cases vs) auto
  have f: "fresh s"
    using Cons.prems(5) by (simp add: content_def)
  show ?case
  proof (cases "snd f \<and> vs = map (\<lambda>f. zeroField (fst f)) (f # fs)")
    case True
    then have "list_all IsZero vs"
      using optional_zero [of "f # fs"] Cons.prems(3) by simp
    then have "encFields (f # fs) vs = []"
      using True vs by simp
    then show ?thesis
      using content_end [of s] Cons.prems(2) [of f s] Cons.prems(5) True by auto
  next
    case False
    then have t: "has_type (fst f) v" "has_fields fs vs'"
      using Cons.prems(4) vs by auto
    then have e: "encFields (f # fs) vs = encoding (fst f) v @ encFields fs vs'"
      using ptr_IsZero(2) Cons.prems(3) vs by auto
    obtain s1 where s1: "decoder (fst f) s = Inr (Inr v, s1)" "reads_enc (encoding (fst f) v) s s1" "content (encFields fs vs') s1"
      using content_accepts [of "encoding (fst f) v" "encFields fs vs'" s "decoder (fst f)" v] Cons.prems(1) [of f s v] Cons.prems(5) e t(1) f
      by auto
    obtain s2 where "decodeFields fs s1 = Inr (Inr vs', s2)" "reads_enc (encFields fs vs') s1 s2"
      using Cons.IH [OF Cons.prems(1,2) _ t(2) s1(3)] Cons.prems(3) by auto
    then show ?thesis
      using s1 e vs reads_enc_append [of "encoding (fst f) v" s s1] by simp
  qed
qed

lemma concat_length: "(\<And>v. v \<in> set vs \<Longrightarrow> f v \<noteq> []) \<Longrightarrow> length vs \<le> length (concat (map f vs))"
proof (induction vs)
  case (Cons v vs)
  then have "1 \<le> length (f v)"
    by (simp add: Suc_le_eq)
  then show ?case
    using Cons by simp
qed simp

lemma size_nonzero: "0 < n \<Longrightarrow> n < 2 ^ 63 \<Longrightarrow> of_nat n \<noteq> (0 :: uint64)"
  by (simp add: u64_eq_iff unat_of_nat)

lemma slice_decodes:
  assumes "typ_ok t" "decodes t"
  shows "decodes (TSlice t)"
proof (rule decodesI [where f = VList and R = "\<lambda>vs. \<forall>v\<in>set vs. has_type t v"])
  show "has_type (TSlice t) v \<Longrightarrow> \<exists>u. v = VList u \<and> (\<forall>v\<in>set u. has_type t v)" for v
    by (erule typed_cases) auto
  let ?body = "\<lambda>(sz :: uint64) s. if sz = 0 then Inr (Inr [], s) else decodeSliceElems (decoder t) (length (s_r s) + 1) s"
  show "accepts (decodeListSlice (decoder t)) u (encoding (TSlice t) (VList u)) s" if f: "fresh s" and u: "\<forall>v\<in>set u. has_type t v" for s u
  proof -
    let ?c = "concat (map (encoding t) u)"
    have len: "length u \<le> length ?c"
      using u encoding_nonempty by (intro concat_length) auto
    have "\<exists>s'. ?body (of_nat (length ?c)) s = Inr (Inr u, s') \<and> reads_enc ?c s s'" if c: "content ?c s" "length ?c < 2 ^ 63" for s
    proof (cases "u = []")
      case True
      then show ?thesis
        using content_end [of s] c by simp
    next
      case False
      then have "of_nat (length ?c) \<noteq> (0 :: uint64)"
        using False by (intro size_nonzero [OF _ c(2)] less_le_trans [OF _ len]) simp
      moreover have "length u < length (s_r s) + 1"
        using c(1) len by (auto simp: content_def simp del: length_concat)
      ultimately show ?thesis
        using elems_accepts [OF _ _ c(1), of "decoder t" "length (s_r s) + 1"] u assms(2) decoder_only [OF assms(1)]
        by (auto simp: decodes_def decodes_only_def accepts_only_def)
    qed
    then show ?thesis
      using list_accepts [OF f, of ?c ?body u id] unfolding decodeListSlice_list [abs_def] by simp
  qed
qed simp

lemma struct_decodes:
  assumes "\<And>f. f \<in> set fs \<Longrightarrow> typ_ok (fst f) \<and> decodes (fst f)" "fields_ok fs"
  shows "decodes (TStruct fs)"
proof (rule decodesI [where f = VList and R = "has_fields fs"])
  let ?op = "\<lambda>s. thenS (wrapS (s_List s)) (\<lambda>sz s. thenS (decodeFields fs s) (\<lambda>v s. resultS (\<lambda>_. v) (wrapS (ListEnd s))))"
  show "decoder (TStruct fs) s = resultS VList (?op s)" for s
    by (rule decoder_struct)
  show "has_type (TStruct fs) v \<Longrightarrow> \<exists>u. v = VList u \<and> has_fields fs u" for v
    by (erule typed_cases) auto
  have "decoder (fst f) s = Inr (Inl EOL, s)" if "f \<in> set fs" "fresh s" "at_end s" for f s
    using decoder_only [of "fst f"] assms(1) [OF that(1)] that(2,3) by (simp add: decodes_only_def accepts_only_def)
  then have "\<exists>s'. decodeFields fs s = Inr (Inr u, s') \<and> reads_enc (encFields fs u) s s'" if "has_fields fs u" "content (encFields fs u) s" for s u
    using fields_accepts [OF _ _ assms(2) that] assms(1) by (auto simp: decodes_def)
  then show "accepts ?op u (encoding (TStruct fs) (VList u)) s" if "fresh s" "has_fields fs u" for s u
    using list_accepts [OF that(1), of "encFields fs u" "\<lambda>_. decodeFields fs" u wrapS] that(2) by simp
qed

text \<open>The encoding of a value of a type without empty values does not look like nil.\<close>

lemma Kind_not_nil:
  assumes "fresh s" "s_r s = encoding t v @ rest" "room (length (encoding t v)) s" "has_type t v" "never_empty t" "typ_ok t"
  shows "\<exists>k n s1. Kind s = Inr (Inr (k, n), s1) \<and> \<not> (k \<noteq> Byte \<and> n = 0)"
  using assms(4)
proof (cases rule: typed_cases)
  case (5 b)
  have "of_nat (length b) \<noteq> (0 :: uint64)"
    using assms(5,6) 5 size_nonzero [of "length b"] by simp
  then show ?thesis
    using Kind_string [of s b rest] assms(1-3) 5 by (auto split: if_splits)
next
  case (7 fs vs)
  obtain f fs' v' vs' where fs: "fs = f # fs'" "vs = v' # vs'" "\<not> snd f" "has_type (fst f) v'"
    using assms(5) 7 by (cases fs; cases vs) auto
  let ?n = "length (encFields fs vs)"
  have n: "?n \<noteq> 0"
    using fs encoding_nonempty by simp
  obtain s1 where s1: "s_List s = Inr (Inr (of_nat ?n), opened (of_nat ?n) s1)" "unat (of_nat ?n :: uint64) = ?n"
    using s_List_accepts [of s "encFields fs vs" rest] assms(1-3) 7 by auto
  have "of_nat ?n \<noteq> (0 :: uint64)"
    using s1(2) n by (metis unat_0)
  obtain k m s' where "Kind s = Inr (Inr (k, m), s')" "k = List \<longrightarrow> m = of_nat ?n" "k = List"
    using s1(1) by (auto simp: s_List_def thenS_def andThen_def split: sum.splits prod.splits if_splits)
  then show ?thesis
    using \<open>of_nat ?n \<noteq> (0 :: uint64)\<close> by auto
qed (use assms(5) in auto)

lemma nil_accepts:
  assumes "fresh s" "k \<noteq> Byte"
  shows "accepts (nilPtrDecoder k dec) (VPtr None) [nilEncoding k] s"
  unfolding accepts_def
proof (intro allI impI)
  fix rest
  assume r: "s_r s = [nilEncoding k] @ rest" "room (length [nilEncoding k]) s"
  have h: "header_of k 0 0 = [nilEncoding k]"
    using assms(2) by (cases k) (auto simp: header_of_def head_def nilEncoding_def)
  obtain s1 where s1: "Kind s = Inr (Inr (k, 0), s1)" "ahead k 0 s s1"
    using Kind_header [OF assms(1), of k 0 0 rest] r h assms(2) by auto
  have "reads_enc [nilEncoding k] s (s1\<lparr>s_kind := None\<rparr>)"
    using s1(2) assms(2) by (cases k) (auto simp: ahead_def read_header_def header_of_def reads_enc_def head_def nilEncoding_def)
  then show "\<exists>s'. nilPtrDecoder k dec s = Inr (Inr (VPtr None), s') \<and> reads_enc [nilEncoding k] s s'"
    using s1(1) assms(2) by (simp add: nilPtrDecoder_def)
qed

lemma ptr_decodes:
  assumes "decodes t" "typ_ok (TPtr k ok t)"
  shows "decodes (TPtr k ok t)"
  unfolding decodes_def
proof (intro allI impI)
  fix s v
  assume f: "fresh s" and v: "has_type (TPtr k ok t) v"
  show "accepts (decoder (TPtr k ok t)) v (encoding (TPtr k ok t) v) s"
  proof (cases v)
    case (VPtr x)
    show ?thesis
    proof (cases x)
      case None
      then show ?thesis
        using nil_accepts [OF f, of k "decoder t"] v assms(2) VPtr by (simp add: accepts_def)
    next
      case (Some u)
      then have u: "has_type t u" "encoding (TPtr k ok t) v = encoding t u"
        using v VPtr by simp_all
      have a: "accepts (decoder t) u (encoding t u) s"
        using assms(1) f u(1) by (simp add: decodes_def)
      have "nilPtrDecoder k (decoder t) s = resultS (\<lambda>v. VPtr (Some v)) (decoder t s)"
        if o: "ok" "s_r s = encoding t u @ rest" "room (length (encoding t u)) s" for rest
      proof -
        obtain k' n s1 where "Kind s = Inr (Inr (k', n), s1)" "\<not> (k' \<noteq> Byte \<and> n = 0)"
          using Kind_not_nil [OF f o(2,3) u(1)] assms(2) o(1) by auto
        then show ?thesis
          using decoder_Kind [of s _ s1 t] by (auto simp: nilPtrDecoder_def)
      qed
      then show ?thesis
        using accepts_result [OF a, of "\<lambda>v. VPtr (Some v)"] u(2) VPtr Some by (auto simp: accepts_def)
    qed
  qed (use v in simp_all)
qed

lemma decoder_accepts: "typ_ok t \<Longrightarrow> decodes t"
proof (induction t)
  case (TStruct fs)
  then show ?case
    by (intro struct_decodes) (auto simp: fsts.simps)
qed (simp_all add: bigint_decodes uint_decodes bool_decodes bytes_decodes array_decodes slice_decodes ptr_decodes)

section \<open>The encoder writes the encoding\<close>

definition writes :: "rtype \<Rightarrow> rval \<Rightarrow> bool" where
  "writes t v \<longleftrightarrow> (\<forall>buf. \<exists>buf'. writer t v buf = Inr (Inr buf') \<and> adds buf buf' (encoding t v))"

lemma thenW_simps [simp]: "thenW (Inr (Inr buf)) f = f buf" "thenW (Inr (Inl e)) f = Inr (Inl e)"
  by (simp_all add: thenW_def)

lemma inList_adds:
  assumes "\<And>buf. \<exists>buf'. f buf = Inr (Inr buf') \<and> adds buf buf' c" "length c < 2 ^ 63"
  shows "\<exists>buf'. inList f buf = Inr (Inr buf') \<and> adds buf buf' (enc_list c)"
proof -
  obtain b2 where b2: "f (snd (buf_list buf)) = Inr (Inr b2)" "adds (snd (buf_list buf)) b2 c"
    using assms(1) by blast
  then show ?thesis
    using listEnd_adds [OF assms(2) b2(2)] by (auto simp: inList_def case_prod_beta)
qed

lemma writeByteArray_adds: "length b < 2 ^ 63 \<Longrightarrow> adds buf (writeByteArray (length b) b buf) (enc_str b)"
proof -
  assume l: "length b < 2 ^ 63"
  have w: "adds buf (writeBytes b buf) (enc_str b)"
    using writeBytes_adds [of b buf] l by simp
  consider "b = []" | x where "b = [x]" | "1 < length b"
    by (cases b; cases "tl b") auto
  then show ?thesis
  proof cases
    case 1
    then show ?thesis
      using adds_str [of buf "[0x80]"] by (simp add: writeByteArray_def buf_append_def enc_str_def head_def)
  next
    case (2 x)
    then show ?thesis
      using adds_str [of buf "if x \<le> 0x7F then [x] else [0x81, x]"]
      by (auto simp: writeByteArray_def buf_append_def enc_str_def head_def)
  next
    case 3
    then show ?thesis
      using w by (auto simp: writeByteArray_def writeBytes_def buf_append_def Let_def)
  qed
qed

lemma elems_adds:
  assumes "\<And>v. v \<in> set vs \<Longrightarrow> writes t v"
  shows "\<exists>buf'. writeElems t vs buf = Inr (Inr buf') \<and> adds buf buf' (concat (map (encoding t) vs))"
  using assms
proof (induction vs arbitrary: buf)
  case Nil
  then show ?case
    by (simp add: adds_refl)
next
  case (Cons v vs)
  obtain b1 where b1: "writer t v buf = Inr (Inr b1)" "adds buf b1 (encoding t v)"
    using Cons.prems [of v] by (auto simp: writes_def)
  obtain b2 where "writeElems t vs b1 = Inr (Inr b2)" "adds b1 b2 (concat (map (encoding t) vs))"
    using Cons.IH [of b1] Cons.prems by auto
  then show ?case
    using b1 adds_trans [OF b1(2)] by auto
qed

lemma writtenFields_step:
  "writtenFields (Suc k) (v # vs) (Suc n) = Suc (writtenFields k vs n)"
  "writtenFields 0 (v # vs) (Suc n) = (if writtenFields 0 vs n = 0 \<and> IsZero v then 0 else Suc (writtenFields 0 vs n))"
  by (induction n) simp_all

lemma writtenFields_0: "writtenFields 0 vs (length vs) = 0 \<longleftrightarrow> list_all IsZero vs"
  by (induction vs) (auto simp: writtenFields_step simp del: writtenFields.simps(2))

lemma firstOptionalField_step:
  "firstOptionalField (f # fs) = (if snd f then 0 else Suc (firstOptionalField fs))" "list_all snd fs \<Longrightarrow> firstOptionalField fs = 0"
  by (cases fs; simp add: firstOptionalField_def)+

lemma has_fields_length: "has_fields fs vs \<Longrightarrow> length vs = length fs"
proof (induction vs arbitrary: fs)
  case (Cons v vs)
  then show ?case
    by (cases fs) (auto dest!: arg_cong [of _ _ length])
qed simp

lemma fields_adds:
  assumes "\<And>f v. f \<in> set fs \<Longrightarrow> v \<in> set vs \<Longrightarrow> has_type (fst f) v \<Longrightarrow> length (encoding (fst f) v) \<le> length (encFields fs vs) \<Longrightarrow>
      writes (fst f) v"
    and "fields_ok fs" "has_fields fs vs"
  shows "\<exists>buf'. writeFields (writtenFields (firstOptionalField fs) vs (length fs)) fs vs buf = Inr (Inr buf') \<and>
    adds buf buf' (encFields fs vs)"
  using assms
proof (induction fs arbitrary: vs buf)
  case Nil
  then show ?case
    by (cases vs) (simp_all add: adds_refl)
next
  case (Cons f fs)
  obtain v vs' where vs: "vs = v # vs'"
    using Cons.prems(3) by (cases vs) auto
  have l: "length vs' = length fs"
    using has_fields_length [OF Cons.prems(3)] vs by simp
  show ?case
  proof (cases "snd f \<and> list_all IsZero vs")
    case True
    then have "writtenFields 0 vs (length (f # fs)) = 0"
      using writtenFields_0 [of vs] has_fields_length [OF Cons.prems(3)] by simp
    then show ?thesis
      using True vs by (simp add: firstOptionalField_step adds_refl del: writtenFields.simps)
  next
    case False
    have e: "encFields (f # fs) vs = encoding (fst f) v @ encFields fs vs'"
      using False vs by auto
    have t: "has_type (fst f) v" "has_fields fs vs'"
      using Cons.prems(3) False vs optional_zero [of "f # fs"] Cons.prems(2) by auto
    have n: "writtenFields (firstOptionalField (f # fs)) vs (length (f # fs)) =
        Suc (writtenFields (firstOptionalField fs) vs' (length fs))"
      using False vs Cons.prems(2) writtenFields_0 [of vs'] l
      by (auto simp: firstOptionalField_step writtenFields_step simp del: writtenFields.simps)
    obtain b1 where b1: "writer (fst f) v buf = Inr (Inr b1)" "adds buf b1 (encoding (fst f) v)"
      using Cons.prems(1) [of f v] t(1) e vs by (auto simp: writes_def)
    obtain b2 where "writeFields (writtenFields (firstOptionalField fs) vs' (length fs)) fs vs' b1 = Inr (Inr b2)"
        "adds b1 b2 (encFields fs vs')"
      using Cons.IH [OF _ _ t(2), of b1] Cons.prems(1,2) e vs by fastforce
    then show ?thesis
      using b1 adds_trans [OF b1(2)] n e vs by (auto simp del: writtenFields.simps encFields.simps)
  qed
qed

lemma struct_writes:
  assumes "\<And>f v. f \<in> set fs \<Longrightarrow> has_type (fst f) v \<Longrightarrow> length (encoding (fst f) v) < 2 ^ 63 \<Longrightarrow> writes (fst f) v"
    and "fields_ok fs" "has_fields fs vs" "length (encoding (TStruct fs) (VList vs)) < 2 ^ 63"
  shows "writes (TStruct fs) (VList vs)"
proof -
  have l: "length (encFields fs vs) < 2 ^ 63"
    using assms(4) by (simp add: enc_list_def)
  have "\<exists>buf'. writeFields (writtenFields (firstOptionalField fs) vs (length fs)) fs vs buf = Inr (Inr buf') \<and>
      adds buf buf' (encFields fs vs)" for buf
    using l by (intro fields_adds [OF _ assms(2,3)] assms(1)) auto
  then show ?thesis
    using inList_adds [OF _ l] by (simp add: writes_def)
qed

lemma slice_writes:
  assumes "\<And>v. has_type t v \<Longrightarrow> length (encoding t v) < 2 ^ 63 \<Longrightarrow> writes t v"
    and "\<forall>v\<in>set vs. has_type t v" "length (encoding (TSlice t) (VList vs)) < 2 ^ 63"
  shows "writes (TSlice t) (VList vs)"
proof -
  let ?c = "concat (map (encoding t) vs)"
  have l: "length ?c < 2 ^ 63"
    using assms(3) by (simp add: enc_list_def del: length_concat)
  have "length (encoding t v) \<le> length ?c" if "v \<in> set vs" for v
    using that by (induction vs) auto
  then have "\<exists>buf'. writeElems t vs buf = Inr (Inr buf') \<and> adds buf buf' ?c" for buf
    using assms(1,2) l by (intro elems_adds) (meson le_less_trans)
  then show ?thesis
    using inList_adds [OF _ l, of "writeElems t vs"] adds_str [of _ "[0xC0]"]
    by (cases "vs = []") (auto simp: writes_def buf_append_def enc_list_def head_def)
qed

lemma writer_writes: "typ_ok t \<Longrightarrow> has_type t v \<Longrightarrow> length (encoding t v) < 2 ^ 63 \<Longrightarrow> writes t v"
proof (induction t arbitrary: v)
  case TBigInt
  then obtain i where i: "v = VBigInt (Some i)" "0 \<le> i"
    by (auto elim: typed_cases)
  have "length (uint_bytes (nat i)) \<le> length (enc_uint (nat i))"
    by (simp add: enc_uint_def enc_str_def)
  then show ?case
    using TBigInt(3) i writeBigInt_adds [of i] by (simp add: writes_def)
next
  case (TUint m)
  then show ?case
    using writeUint64_adds by (auto elim: typed_cases simp: writes_def)
next
  case TBool
  then obtain b where "v = VBool b"
    by (auto elim: typed_cases)
  then show ?case
    using adds_str [of _ "[if b then 1 else 0x80]"] by (cases b) (simp_all add: writes_def writeBool_def enc_str_def head_def)
next
  case TBytes
  then obtain b where "v = VBytes b"
    by (auto elim: typed_cases)
  then show ?case
    using TBytes(3) length_enc_str [of b] writeBytes_adds [of b] by (simp add: writes_def)
next
  case (TByteArray len)
  then show ?case
    using writeByteArray_adds by (auto elim: typed_cases simp: writes_def)
next
  case (TSlice t)
  then show ?case
    using slice_writes [of t] by (auto elim!: typed_cases [of "TSlice t"])
next
  case (TStruct fs)
  from TStruct.prems(2) obtain vs where "v = VList vs" "has_fields fs vs"
    by (auto elim: typed_cases)
  then show ?case
    using struct_writes [of fs vs] TStruct by (auto simp: fsts.simps)
next
  case (TPtr k ok t)
  from TPtr.prems(2) show ?case
  proof (cases rule: typed_cases)
    case 8
    then show ?thesis
      using adds_str [of _ "[nilEncoding k]"] by (simp add: writes_def buf_append_def)
  next
    case (9 k' ok' t' u)
    then show ?thesis
      using TPtr.IH [of u] TPtr.prems by (simp add: writes_def)
  qed simp_all
qed

section \<open>Encoding and decoding\<close>

lemma EncodeToBytes_encoding:
  assumes "typ_ok t" "has_type t v" "length (encoding t v) < 2 ^ 63"
  shows "EncodeToBytes t v = Inr (Inr (encoding t v))"
  using writer_writes [OF assms] makeBytes_adds by (fastforce simp: writes_def EncodeToBytes_def)

lemma Reset_fresh:
  assumes "length b < 2 ^ 63" "b \<noteq> []"
  shows "fresh (Stream_Reset b (of_nat (length b)))" "\<not> at_end (Stream_Reset b (of_nat (length b)))"
  using assms size_nonzero [of "length b"]
  by (simp_all add: fresh_def stream_ok_def Stream_Reset_def at_end_def unat_of_nat word_gt_0)

lemma DecodeBytes_encoding:
  assumes "typ_ok t" "has_type t v" "length (encoding t v) < 2 ^ 63"
  shows "DecodeBytes t (encoding t v) = Inr (Inr v)"
proof -
  let ?s = "Stream_Reset (encoding t v) (of_nat (length (encoding t v)))"
  have "accepts (decoder t) v (encoding t v) ?s"
    using decoder_accepts [OF assms(1)] Reset_fresh(1) [OF assms(3) encoding_nonempty [OF assms(2)]] assms(2)
    by (simp add: decodes_def)
  then obtain s' where "decoder t ?s = Inr (Inr v, s')" "reads_enc (encoding t v) ?s s'"
    unfolding accepts_def by (auto simp: Stream_Reset_def room_def)
  then show ?thesis
    by (simp add: DecodeBytes_def reads_enc_def reads_def Stream_Reset_def)
qed

text \<open>Decoders begin with the kind of the next value, and an input without bytes has none.\<close>

lemma decoder_EOF: "Kind s = Inr (Inl EOF, s1) \<Longrightarrow> decoder t s = Inr (Inl EOF, s1)"
  by (induction t) (simp_all add: decodeBigInt_def s_uint_def s_Bool_def Bytes_def decodeByteArray_def s_List_def
    decodeListSlice_def nilPtrDecoder_def wrapStreamError_def)

lemma DecodeBytes_empty: "DecodeBytes t [] = Inr (Inl EOF)"
proof -
  obtain s1 where "Kind (Stream_Reset [] 0) = Inr (Inl EOF, s1)"
    by (simp add: Kind_def Stream_Reset_def listLimit_def s_readKind_def readByte_def willRead_def limitKind_def cachedKind_def Let_def)
  then show ?thesis
    using decoder_EOF by (simp add: DecodeBytes_def)
qed

lemma DecodeBytes_only:
  assumes "typ_ok t" "length b < 2 ^ 63"
  shows "\<exists>r. DecodeBytes t b = Inr r \<and> (\<forall>v. r = Inr v \<longrightarrow> has_type t v \<and> b = encoding t v)"
proof (cases "b = []")
  case True
  then show ?thesis
    by (simp add: DecodeBytes_empty)
next
  case False
  let ?s = "Stream_Reset b (of_nat (length b))"
  let ?R = "\<lambda>v w. has_type t v \<and> w = encoding t v"
  have "outcome ?R ?s (decoder t ?s)"
    using decoder_only [OF assms(1)] Reset_fresh [OF assms(2) False] by (simp add: decodes_only_def accepts_only_def)
  then obtain r s' where r: "decoder t ?s = Inr (r, s')" "\<And>v. r = Inr v \<Longrightarrow> good ?R ?s v s'"
    by (auto simp: outcome_def)
  have "has_type t v \<and> b = encoding t v" if v: "r = Inr v" "s_r s' = []" for v
  proof -
    have "s_stack s' = []"
      using r(2) [OF v(1)] by (simp add: good_def Stream_Reset_def)
    then have "has_type t v \<and> reads_enc (encoding t v) ?s s'"
      using r(2) [OF v(1)] by (simp add: good_def fits_def)
    then show ?thesis
      using v(2) by (auto simp: reads_enc_def reads_def Stream_Reset_def)
  qed
  then show ?thesis
    using r(1) by (cases r) (auto simp: DecodeBytes_def)
qed





end
