(* ===== verification/Spec2Isabelle.thy ===== *)
theory Spec2Isabelle
  imports Transition_Results ZVM_Table Bloom_Filter Rlp_Typed
begin

text \<open>
  A verification library for go-zond, the Go client of the Zond chain: the execution of transactions by the Zond
  virtual machine, the world state it runs on, and the binary codec of the data that is hashed, stored and sent.

  \<^bold>\<open>The program and its parts.\<close> A block brings transactions. Each is turned into a message, and
  \<open>ApplyMessage\<close> (\<open>src/core/state_transition.go\<close>) checks it, buys its gas from the sender and the gas pool of
  the block, and has the virtual machine (\<open>src/core/vm\<close>) call or create a contract. The machine interprets
  bytecode; its instructions read and write the world state (\<open>src/core/state\<close>), which keeps a journal so that a
  failed call can be undone. What the transaction has logged is summarised in a bloom filter
  (\<open>src/core/types/bloom9.go\<close>), and everything that is hashed or sent goes through RLP (\<open>src/rlp\<close>).

  \<^bold>\<open>How Go is read.\<close> A function that can panic returns \<open>'a go\<close>, that is \<open>panic + 'a\<close>; \<open>andThen\<close> sequences
  such calls. Errors are values, as in Go: a sum type, or an \<open>option\<close> beside a result. \<open>uint64\<close> and \<open>uint256\<close>
  are words and wrap around; \<open>big.Int\<close> is \<open>int\<close>. Structs are records that are passed along and returned updated.
  A pointer that the code compares with nil is an \<open>option\<close>; maps are functions to \<open>option\<close>. Where the order in
  which Go ranges over a map matters, the order is a parameter. A loop whose length is not fixed by its data runs
  with a bound, and \<open>OutOfFuel\<close> marks a bound that was too small; it is not a panic of the program, and the
  theorems say which bound is enough.

  \<^bold>\<open>Theories.\<close>
  \<^item> \<open>Zond_Prelude\<close>: types, panics, words, byte strings.
  \<^item> \<open>Rlp_Codec\<close>: sizes, integers, the two-pass encoder buffer (\<open>encode.go\<close>, \<open>encbuffer.go\<close>) and the splitting
    functions (\<open>raw.go\<close>), with the reference encoding \<open>enc\<close>. \<open>Rlp_Stream\<close>: the decoding stream of \<open>decode.go\<close>,
    each operation shown to accept canonical encodings and nothing else. \<open>Rlp_Typed\<close>: the writers and decoders
    that the code builds by reflection, as functions of a description of the type; they are inverse to each other.
  \<^item> \<open>State_Access\<close>: the access list. \<open>State_DB\<close>: state objects, the journal and \<open>StateDB\<close>. \<open>State_View\<close>: what a client
    can observe of them. \<open>State_Revert\<close> and \<open>State_Snapshot\<close>: every operation extends the journal by entries that
    undo it, so reverting to a snapshot restores the view. \<open>State_Ledger\<close>: balances, nonces, read-only parts.
  \<^item> \<open>ZVM_Common\<close>, \<open>ZVM_Machine\<close>, \<open>ZVM_Contract\<close>: constants and checked arithmetic, stack, memory and its price,
    contracts and the analysis of jump destinations. \<open>ZVM_Env\<close>, \<open>ZVM_Precompiles\<close>, \<open>ZVM_Calls\<close>, \<open>ZVM_Gas\<close>,
    \<open>ZVM_Instructions\<close>, \<open>ZVM_Interpreter\<close>: context, precompiled contracts, calls and creations, prices,
    instructions, and the jump table with the main loop. \<open>ZVM_Logic\<close>, \<open>ZVM_Exec\<close>, \<open>ZVM_Safety\<close>, \<open>ZVM_Fuel\<close>,
    \<open>ZVM_Termination\<close>: a small program logic and the proof, by induction on the gas, that the mutual recursion of
    interpreter and calls ends and keeps its contract. \<open>ZVM_Results\<close> and \<open>ZVM_Table\<close>: the theorems.
  \<^item> \<open>State_Transition\<close>: \<open>core/state_transition.go\<close> and the gas pool. \<open>Payments\<close>: the exact course of a plain
    transfer. \<open>Transition_Results\<close>: the theorems about transactions.
  \<^item> \<open>Bloom_Filter\<close>: receipts and the filter over their logs.

  \<^bold>\<open>What is shown.\<close> For one transaction: supply changes by exactly the burnt base fee, the gas pool is charged the
  gas used, a replay is rejected, a failed call costs gas and nothing else, a plain payment succeeds with exact
  balances, a rejected message changes nothing. For the machine: every call and creation ends within as many
  iterations as it has gas, creates neither gas nor money, changes nothing in read-only mode and, when it fails,
  leaves no trace in the view; the stack keeps its limit; memory is priced exactly; jumps go to instruction
  boundaries. For the state: snapshots nest and restore what they saved, \<open>Finalise\<close> does not depend on the order of
  the map. For the codec: encoders produce the reference encoding, decoders invert them, reject every other input
  and never panic. For the bloom filter: no false negatives.

  \<^bold>\<open>Interfaces.\<close> \<open>access_set\<close> (\<open>State_Access\<close>) states what the state needs of the access list, and \<open>undo_log\<close>
  (\<open>State_Revert\<close>) what a journal of undoable entries gives; both are interpreted on the definitions of the model.

  \<^bold>\<open>Bounds and fuel.\<close> \<open>Run_loop\<close> gets a bound on its iterations; the gas of the call is enough, since each
  iteration pays at least one unit or ends. \<open>decodeSliceElems\<close> gets the length of the input plus one; each element
  takes a byte. Inputs of the codec are shorter than \<open>2 ^ 63\<close> bytes, which is what a Go slice can hold.

  \<^bold>\<open>Parameters.\<close> Keccak and the tries behind the state are fields of \<open>database\<close>; the arithmetic of the library
  \<open>uint256\<close> and the curve and hash libraries of the precompiled contracts are fields of records too. They stand for
  code outside the repository or for the tries under it; theorems that need a law of theirs state it.

  \<^bold>\<open>Not modelled.\<close> Hashing the state into tries and committing it (\<open>trie\<close>, \<open>core/rawdb\<close>, \<open>zonddb\<close>): the state
  is read through a database parameter. Import and reorganisation of chains (\<open>core/blockchain.go\<close>), the transaction
  pool, peer-to-peer networking, synchronisation, RPC, GraphQL, the console, accounts and key stores, command line
  tools, metrics and logging: concurrent or I/O code around the core whose behaviour is mostly that of the channels,
  locks, sockets and disks it drives. The bn256 arithmetic of \<open>src/crypto\<close> is a parameter of the precompiled contracts.
  Tracers see the machine and do not change it; their hooks are left out, as are JSON and text forms of the data.
\<close>

end
